(* ===== verification/KV_Prelude.thy ===== *)
theory KV_Prelude
  imports Main "HOL-Library.Word" "HOL-Library.Char_ord" "HOL-Library.List_Lexorder"
    "HOL-Library.Finite_Map"
begin

text \<open>
  Shared vocabulary of the development: the machine types the Go sources use, big-endian
  byte strings (\<open>encoding/binary\<close>), the signed clock comparison, and the generic facts
  on finite maps and lists that the component theories rest on.

  A Go \<open>string\<close> or \<open>[]byte\<close> is a sequence of bytes: HOL's \<^typ>\<open>string\<close>, whose characters
  are exactly the 256 byte values; the lexicographic order of \<open>List_Lexorder\<close> over
  \<open>Char_ord\<close> is Go's string order.  \<open>int64\<close>, \<open>uint64\<close> and \<open>uint32\<close> are words.  A Go
  \<open>map[string]T\<close> that the code ranges over is a finite map.
\<close>

section \<open>Types\<close>

type_synonym bytes = string
type_synonym int64 = "64 word"
type_synonym uint64 = "64 word"
type_synonym uint32 = "32 word"

named_theorems be_simps \<open>big-endian encoding facts\<close>
named_theorems fm_simps \<open>finite-map facts used by the stores\<close>

section \<open>encoding/binary: big-endian integers\<close>

primrec be_bytes :: "nat \<Rightarrow> nat \<Rightarrow> bytes" where
  "be_bytes 0 n = []"
| "be_bytes (Suc k) n = be_bytes k (n div 256) @ [char_of n]"

definition be_value :: "bytes \<Rightarrow> nat" where
  "be_value bs = foldl (\<lambda>acc c. acc * 256 + of_char c) 0 bs"

definition AppendUint32 :: "bytes \<Rightarrow> uint32 \<Rightarrow> bytes" where
  "AppendUint32 buf v = buf @ be_bytes 4 (unat v)"

definition AppendUint64 :: "bytes \<Rightarrow> uint64 \<Rightarrow> bytes" where
  "AppendUint64 buf v = buf @ be_bytes 8 (unat v)"

definition Uint32 :: "bytes \<Rightarrow> uint32" where
  "Uint32 bs = of_nat (be_value bs)"

definition Uint64 :: "bytes \<Rightarrow> uint64" where
  "Uint64 bs = of_nat (be_value bs)"

lemma length_be_bytes [simp, be_simps]: "length (be_bytes k n) = k"
  by (induction k arbitrary: n) auto

lemma be_value_snoc [be_simps]: "be_value (bs @ [c]) = be_value bs * 256 + of_char c"
  by (simp add: be_value_def)

lemma be_value_be_bytes [be_simps]: "be_value (be_bytes k n) = n mod 256 ^ k"
proof (induction k arbitrary: n)
  case 0
  then show ?case by (simp add: be_value_def)
next
  case (Suc k)
  have "n mod 256 ^ Suc k = 256 * (n div 256 mod 256 ^ k) + n mod 256"
    by (simp add: mod_mult2_eq)
  with Suc show ?case by (simp add: be_value_snoc)
qed

lemma Uint32_be_bytes [simp, be_simps]: "Uint32 (be_bytes 4 (unat v)) = v"
proof -
  have "unat v < 256 ^ 4" using unsigned_less [of v, where ?'a = nat] by simp
  then show ?thesis by (simp add: Uint32_def be_value_be_bytes)
qed

lemma Uint64_be_bytes [simp, be_simps]: "Uint64 (be_bytes 8 (unat v)) = v"
proof -
  have "unat v < 256 ^ 8" using unsigned_less [of v, where ?'a = nat] by simp
  then show ?thesis by (simp add: Uint64_def be_value_be_bytes)
qed

section \<open>Machine integers\<close>

lemma unat_of_nat_uint32: "n < 2 ^ 32 \<Longrightarrow> unat (of_nat n :: uint32) = n"
  by (simp add: unsigned_of_nat take_bit_nat_eq_self)

definition MaxInt64 :: int64 where
  "MaxInt64 = 0x7FFFFFFFFFFFFFFF"

lemma sint_MaxInt64: "sint MaxInt64 = 2 ^ 63 - 1"
  by (simp add: MaxInt64_def)

lemma sint_int64_range: "- (2 ^ 63) \<le> sint (v :: int64)" "sint (v :: int64) < 2 ^ 63"
  using sint_greater_eq [of v] sint_lt [of v] by auto

text \<open>Signed increment does not wrap below the maximum.\<close>

lemma sint_int64_Suc:
  assumes "v \<noteq> MaxInt64"
  shows "sint (v + 1 :: int64) = sint v + 1"
proof -
  have "sint v \<noteq> sint MaxInt64" using assms by (metis word_eq_iff_signed)
  then have "sint v + 1 < 2 ^ 63"
    using sint_int64_range(2) [of v] unfolding sint_MaxInt64 by linarith
  moreover have "- (2 ^ 63) \<le> sint v + 1" using sint_int64_range(1) [of v] by simp
  ultimately show ?thesis
    by (simp add: sint_word_add signed_take_bit_int_eq_self)
qed

section \<open>Ranging over a map\<close>

text \<open>
  Go ranges over a map in an unspecified order.  \<open>sorted_list_of_fmap\<close> enumerates it in
  key order; the code that depends on no order, or sorts afterwards, is insensitive to it.
\<close>

lemma set_sorted_list_of_fmap [fm_simps]:
  "(k, v) \<in> set (sorted_list_of_fmap m) \<longleftrightarrow> fmlookup m k = Some v"
  by (auto simp: sorted_list_of_fmap_def fmdomI intro!: image_eqI)

lemma fst_sorted_list_of_fmap [fm_simps]:
  "map fst (sorted_list_of_fmap m) = sorted_list_of_set (fmdom' m)"
  by (simp add: sorted_list_of_fmap_def comp_def sorted_list_of_fset.rep_eq fmdom'_alt_def)

lemma finite_dom_fmlookup [simp]: "finite (dom (fmlookup m))"
  by (simp add: fmlookup_dom_iff flip: fmdom'_alt_def)

lemma filter_sorted_list_of_set:
  assumes "finite A"
  shows "filter P (sorted_list_of_set A) = sorted_list_of_set {x \<in> A. P x}"
proof (rule sorted_distinct_set_unique)
  show "set (filter P (sorted_list_of_set A)) = set (sorted_list_of_set {x \<in> A. P x})"
    using assms by auto
qed (simp_all add: sorted_wrt_filter)

text \<open>Reading out a map through a filter on its pairs, in key order.\<close>

lemma map_filter_sorted_list_of_fmap [fm_simps]:
  "map (\<lambda>(k, v). f k v) (filter (\<lambda>(k, v). P k v) (sorted_list_of_fmap m)) =
   map (\<lambda>k. f k (the (fmlookup m k)))
     (sorted_list_of_set {k. \<exists>v. fmlookup m k = Some v \<and> P k v})"
proof -
  have "{k \<in> fmdom' m. P k (the (fmlookup m k))} = {k. \<exists>v. fmlookup m k = Some v \<and> P k v}"
    by (auto simp: fmlookup_dom'_iff)
  then show ?thesis
    by (simp add: sorted_list_of_fmap_def filter_map comp_def sorted_list_of_fset.rep_eq
        filter_sorted_list_of_set flip: fmdom'_alt_def)
qed

lemma length_filter_sorted_list_of_fmap [fm_simps]:
  "length (filter (\<lambda>(k, v). P k v) (sorted_list_of_fmap m)) =
   card {k. \<exists>v. fmlookup m k = Some v \<and> P k v}"
proof -
  have "length (filter (\<lambda>(k, v). P k v) (sorted_list_of_fmap m)) =
      length (map (\<lambda>(k, v). k) (filter (\<lambda>(k, v). P k v) (sorted_list_of_fmap m)))"
    by simp
  also have "\<dots> = card {k. \<exists>v. fmlookup m k = Some v \<and> P k v}"
    by (subst map_filter_sorted_list_of_fmap) simp
  finally show ?thesis .
qed

end
