(* ===== verification/Strconv.thy ===== *)
theory Strconv
  imports KV_Prelude
begin

text \<open>
  The part of Go's \<open>strconv\<close> the stores and handlers call, at base 10 and 64 bits:
  \<open>ParseInt(s, 10, 64)\<close> and \<open>FormatInt(v, 10)\<close>.  \<open>ParseInt\<close> accepts one optional sign
  followed by at least one digit, and rejects values outside the signed 64-bit range;
  \<open>None\<close> stands for its error, which no caller inspects further.  The two are inverse
  on every \<open>int64\<close>.
\<close>

definition digit_char :: "nat \<Rightarrow> char" where
  "digit_char d = char_of (48 + d)"

definition is_digit :: "char \<Rightarrow> bool" where
  "is_digit c \<longleftrightarrow> 48 \<le> (of_char c :: nat) \<and> (of_char c :: nat) \<le> 57"

definition digit_value :: "char \<Rightarrow> nat" where
  "digit_value c = of_char c - 48"

fun format_nat :: "nat \<Rightarrow> string" where
  "format_nat n =
     (if n < 10 then [digit_char n] else format_nat (n div 10) @ [digit_char (n mod 10)])"

declare format_nat.simps [simp del]

definition parse_nat :: "string \<Rightarrow> nat option" where
  "parse_nat s =
     (if s \<noteq> [] \<and> list_all is_digit s
      then Some (foldl (\<lambda>acc c. 10 * acc + digit_value c) 0 s) else None)"

definition FormatInt :: "int64 \<Rightarrow> string" where
  "FormatInt v =
     (if sint v < 0 then CHR ''-'' # format_nat (nat (- sint v)) else format_nat (nat (sint v)))"

definition ParseInt :: "string \<Rightarrow> int64 option" where
  "ParseInt s =
     (let neg = (s \<noteq> [] \<and> hd s = CHR ''-'');
          body = (if s \<noteq> [] \<and> (hd s = CHR ''+'' \<or> hd s = CHR ''-'') then tl s else s)
      in case parse_nat body of
           None \<Rightarrow> None
         | Some un \<Rightarrow>
             if \<not> neg \<and> un \<ge> 2 ^ 63 then None
             else if neg \<and> un > 2 ^ 63 then None
             else Some (if neg then - of_nat un else of_nat un))"

section \<open>Round trip\<close>

lemma digit_char_facts [simp]:
  assumes "d < 10"
  shows "is_digit (digit_char d)" and "digit_value (digit_char d) = d"
    and "digit_char d \<noteq> CHR ''-''" and "digit_char d \<noteq> CHR ''+''"
proof -
  have c: "of_char (digit_char d) = (48 + d :: nat)"
    using assms by (simp add: digit_char_def)
  show "is_digit (digit_char d)" "digit_value (digit_char d) = d"
    using assms by (simp_all add: is_digit_def digit_value_def c)
  from this(1) show "digit_char d \<noteq> CHR ''-''" "digit_char d \<noteq> CHR ''+''"
    by (auto simp: is_digit_def)
qed

lemma format_nat_not_Nil [simp]: "format_nat n \<noteq> []"
  by (subst format_nat.simps) simp

lemma format_nat_digits: "list_all is_digit (format_nat n)"
proof (induction n rule: format_nat.induct)
  case (1 n)
  then show ?case by (subst format_nat.simps) auto
qed

lemma hd_format_nat: "hd (format_nat n) \<noteq> CHR ''-''" "hd (format_nat n) \<noteq> CHR ''+''"
proof -
  have "is_digit (hd (format_nat n))"
    using format_nat_digits [of n] by (cases "format_nat n") auto
  then show "hd (format_nat n) \<noteq> CHR ''-''" "hd (format_nat n) \<noteq> CHR ''+''"
    by (auto simp: is_digit_def)
qed

lemma parse_format_nat [simp]: "parse_nat (format_nat n) = Some n"
proof -
  have "foldl (\<lambda>acc c. 10 * acc + digit_value c) 0 (format_nat n) = n"
  proof (induction n rule: format_nat.induct)
    case (1 n)
    then show ?case by (subst format_nat.simps) auto
  qed
  then show ?thesis by (simp add: parse_nat_def format_nat_digits)
qed

lemma ParseInt_FormatInt: "ParseInt (FormatInt v) = Some v"
proof (cases "sint v < 0")
  case True
  then have "nat (- sint v) \<le> 2 ^ 63" using sint_int64_range(1) [of v] by simp
  moreover have "- (of_nat (nat (- sint v)) :: int64) = v"
    using True by (simp add: of_nat_nat)
  ultimately show ?thesis
    using True by (simp add: ParseInt_def FormatInt_def)
next
  case False
  then have "nat (sint v) < 2 ^ 63" using sint_int64_range(2) [of v] by simp
  moreover have "(of_nat (nat (sint v)) :: int64) = v" using False by simp
  ultimately show ?thesis
    using False by (simp add: ParseInt_def FormatInt_def hd_format_nat)
qed

text \<open>What \<open>ParseInt\<close> accepts is read as the signed value it denotes.\<close>

lemma ParseInt_nonneg:
  assumes "ParseInt s = Some v" and "s \<noteq> []" and "hd s \<noteq> CHR ''-''"
  shows "0 \<le> sint v"
  using assms
  by (auto simp: ParseInt_def Let_def signed_of_nat signed_take_bit_int_eq_self
      split: option.splits if_splits)

end
