(* ===== verification/Glob.thy ===== *)
theory Glob
  imports KV_Prelude
begin

text \<open>
  The \<open>*\<close> glob matcher of the scans (\<open>matchGlob\<close>, pkg/storage/fake.go).  The loop is
  kept with its four index variables; \<open>star = -1\<close> is \<open>None\<close>.  It is shown to return, and
  to decide exactly the glob language on every subject that holds no \<open>*\<close> itself.
\<close>

section \<open>The matcher\<close>

text \<open>The main loop: \<open>Some (Some pi)\<close> when it runs to the end of \<open>s\<close>, \<open>Some None\<close> when
  it returns \<open>false\<close> from inside.\<close>

partial_function (option) matchGlob_loop ::
    "string \<Rightarrow> string \<Rightarrow> nat \<Rightarrow> nat \<Rightarrow> nat option \<Rightarrow> nat \<Rightarrow> nat option option" where
  "matchGlob_loop pattern s pi si star mark =
     (if si < length s then
        (if pi < length pattern \<and> pattern ! pi = s ! si then
           matchGlob_loop pattern s (pi + 1) (si + 1) star mark
         else if pi < length pattern \<and> pattern ! pi = CHR ''*'' then
           matchGlob_loop pattern s (pi + 1) si (Some pi) si
         else (case star of
             Some k \<Rightarrow> matchGlob_loop pattern s (k + 1) (mark + 1) star (mark + 1)
           | None \<Rightarrow> Some None))
      else Some (Some pi))"

text \<open>The trailing loop that skips the remaining stars, then \<open>pi == len(pattern)\<close>.\<close>

definition matchGlob_tail :: "string \<Rightarrow> nat \<Rightarrow> bool" where
  "matchGlob_tail pattern pi = list_all (\<lambda>c. c = CHR ''*'') (drop pi pattern)"

definition matchGlob :: "string \<Rightarrow> string \<Rightarrow> bool" where
  "matchGlob pattern s =
     (if pattern = [] then True
      else case matchGlob_loop pattern s 0 0 None 0 of
             Some (Some pi) \<Rightarrow> matchGlob_tail pattern pi
           | _ \<Rightarrow> False)"

section \<open>The glob language\<close>

fun glob :: "string \<Rightarrow> string \<Rightarrow> bool" where
  "glob [] s = (s = [])"
| "glob (c # p) [] = (c = CHR ''*'' \<and> glob p [])"
| "glob (c # p) (d # s) =
     (if c = CHR ''*'' then glob p (d # s) \<or> glob (c # p) s else c = d \<and> glob p s)"

lemma glob_star: "glob (CHR ''*'' # p) s \<longleftrightarrow> (\<exists>k \<le> length s. glob p (drop k s))"
proof (induction s)
  case Nil
  then show ?case by simp
next
  case (Cons d s)
  have "(\<exists>k \<le> length (d # s). glob p (drop k (d # s))) \<longleftrightarrow>
        glob p (d # s) \<or> (\<exists>k \<le> length s. glob p (drop k s))"
    by (metis (no_types, opaque_lifting) Suc_le_mono drop0 drop_Suc_Cons le0 length_Cons not0_implies_Suc)
  with Cons show ?case by simp
qed

lemma glob_star_drop:
  assumes "glob (CHR ''*'' # p) (drop j s)" and "i \<le> j"
  shows "glob (CHR ''*'' # p) (drop i s)"
proof (cases "j \<le> length s")
  case True
  from assms(1) obtain k where k: "k \<le> length (drop j s)" "glob p (drop k (drop j s))"
    by (auto simp: glob_star)
  with True assms(2) have "k + j - i \<le> length (drop i s)"
    "drop (k + j - i) (drop i s) = drop k (drop j s)" by auto
  with k show ?thesis unfolding glob_star by metis
next
  case False
  then have "drop (length s - i) (drop i s) = drop j s" by simp
  moreover from assms(1) False have "glob p []" by simp
  ultimately show ?thesis unfolding glob_star using False
    by (metis drop_all le_refl length_drop nle_le)
qed

text \<open>A literal block \<open>q\<close> without stars is matched character by character.\<close>

lemma glob_literal:
  assumes "CHR ''*'' \<notin> set q"
  shows "glob (q @ p) s \<longleftrightarrow> take (length q) s = q \<and> glob p (drop (length q) s)"
  using assms
proof (induction q arbitrary: s)
  case Nil
  then show ?case by simp
next
  case (Cons c q)
  then show ?case by (cases s) auto
qed

lemma glob_all_stars: "glob p [] \<longleftrightarrow> list_all (\<lambda>c. c = CHR ''*'') p"
  by (induction p) auto

section \<open>The loop returns and decides the language\<close>

text \<open>What holds of the loop variables: since the last star at \<open>k\<close> was taken with the
  subject at \<open>mark\<close>, the pattern has been matched literally from \<open>k + 1\<close> on.\<close>

definition glob_inv :: "string \<Rightarrow> string \<Rightarrow> nat \<Rightarrow> nat \<Rightarrow> nat option \<Rightarrow> nat \<Rightarrow> bool" where
  "glob_inv p s pi si star mark \<longleftrightarrow> pi \<le> length p \<and> si \<le> length s \<and>
     (case star of None \<Rightarrow> mark \<le> length s
      | Some k \<Rightarrow> k < pi \<and> p ! k = CHR ''*'' \<and> mark \<le> si \<and> pi - (k + 1) = si - mark \<and>
          take (si - mark) (drop (k + 1) p) = take (si - mark) (drop mark s))"

text \<open>What the remaining run has to decide: the current attempt, or a longer run for the
  last star.\<close>

definition glob_goal :: "string \<Rightarrow> string \<Rightarrow> nat \<Rightarrow> nat \<Rightarrow> nat option \<Rightarrow> nat \<Rightarrow> bool" where
  "glob_goal p s pi si star mark \<longleftrightarrow> glob (drop pi p) (drop si s) \<or>
     (case star of None \<Rightarrow> False
      | Some k \<Rightarrow> mark < length s \<and> glob (drop k p) (drop (mark + 1) s))"

definition glob_decides :: "string \<Rightarrow> nat option option \<Rightarrow> bool \<Rightarrow> bool" where
  "glob_decides p r b \<longleftrightarrow>
     (case r of None \<Rightarrow> False | Some None \<Rightarrow> \<not> b | Some (Some pi) \<Rightarrow> matchGlob_tail p pi = b)"

definition glob_measure :: "string \<Rightarrow> string \<Rightarrow> ((nat \<times> nat \<times> nat option \<times> nat) \<times> _) set" where
  "glob_measure p s = measures
     [\<lambda>(pi, si, star, mark). length p - (case star of None \<Rightarrow> 0 | Some k \<Rightarrow> k + 1),
      \<lambda>(pi, si, star, mark). length s - mark,
      \<lambda>(pi, si, star, mark). length s - si]"

lemma wf_glob_measure: "wf (glob_measure p s)"
  by (simp add: glob_measure_def)

text \<open>The pattern from the last star on: the star, the block matched since, the rest.\<close>

lemma glob_inv_split:
  assumes inv: "glob_inv p s pi si (Some k) mark" and free: "CHR ''*'' \<notin> set s"
  obtains q where "drop k p = CHR ''*'' # q @ drop pi p" and "CHR ''*'' \<notin> set q"
    and "length q = si - mark"
proof -
  let ?q = "take (si - mark) (drop (k + 1) p)"
  from inv have i: "k < pi" "pi \<le> length p" "si \<le> length s" "p ! k = CHR ''*''" "mark \<le> si"
      "pi - (k + 1) = si - mark" and q: "?q = take (si - mark) (drop mark s)"
    by (auto simp: glob_inv_def)
  have "drop k p = CHR ''*'' # drop (k + 1) p"
    using i by (metis Cons_nth_drop_Suc Suc_eq_plus1 less_le_trans)
  also have "drop (k + 1) p = ?q @ drop (si - mark) (drop (k + 1) p)"
    by (rule append_take_drop_id [symmetric])
  also have "drop (si - mark) (drop (k + 1) p) = drop pi p"
  proof -
    have "si - mark + (k + 1) = pi" using i by arith
    then show ?thesis by (metis drop_drop)
  qed
  finally have "drop k p = CHR ''*'' # ?q @ drop pi p" .
  moreover have "CHR ''*'' \<notin> set ?q"
    unfolding q using free by (auto dest: in_set_takeD in_set_dropD)
  moreover have "length ?q = si - mark" unfolding q using i by simp
  ultimately show ?thesis by (rule that)
qed

lemma glob_end:
  assumes "glob_inv p s pi (length s) star mark" and "CHR ''*'' \<notin> set s"
  shows "glob_goal p s pi (length s) star mark = matchGlob_tail p pi"
proof (cases star)
  case None
  then show ?thesis
    by (simp add: glob_goal_def matchGlob_tail_def glob_all_stars)
next
  case (Some k)
  with assms obtain q where q: "drop k p = CHR ''*'' # q @ drop pi p" "CHR ''*'' \<notin> set q"
      "length q = length s - mark"
    by (auto elim: glob_inv_split)
  have "\<not> (mark < length s \<and> glob (drop k p) (drop (mark + 1) s))"
  proof
    assume a: "mark < length s \<and> glob (drop k p) (drop (mark + 1) s)"
    then obtain j where "glob (q @ drop pi p) (drop j (drop (mark + 1) s))"
      unfolding q(1) glob_star by blast
    then have "take (length q) (drop j (drop (mark + 1) s)) = q"
      using q(2) by (simp add: glob_literal)
    then have "length q \<le> length (drop j (drop (mark + 1) s))"
      by (metis length_take min.cobounded1)
    with a q(3) show False by (auto; arith)
  qed
  with Some show ?thesis
    by (auto simp: glob_goal_def matchGlob_tail_def glob_all_stars)
qed

lemma glob_new_star:
  assumes inv: "glob_inv p s pi si star mark" and free: "CHR ''*'' \<notin> set s"
    and si: "si < length s" and pi: "pi < length p" "p ! pi = CHR ''*''"
  shows "glob_goal p s (pi + 1) si (Some pi) si = glob_goal p s pi si star mark"
proof -
  have dp: "drop pi p = CHR ''*'' # drop (pi + 1) p"
    using pi by (metis Cons_nth_drop_Suc Suc_eq_plus1)
  have ds: "drop si s = s ! si # drop (si + 1) s"
    using si by (metis Cons_nth_drop_Suc Suc_eq_plus1)
  have new: "glob_goal p s (pi + 1) si (Some pi) si = glob (drop pi p) (drop si s)"
    unfolding glob_goal_def using si by (simp add: dp ds)
  have "glob (drop pi p) (drop si s)"
    if "star = Some k" and alt: "glob (drop k p) (drop (mark + 1) s)" for k
  proof -
    from inv free that(1) obtain q where q: "drop k p = CHR ''*'' # q @ drop pi p"
        "CHR ''*'' \<notin> set q" "length q = si - mark"
      by (auto elim: glob_inv_split)
    with alt obtain j where "glob (q @ drop pi p) (drop j (drop (mark + 1) s))"
      by (auto simp: glob_star)
    then have "glob (drop pi p) (drop (length q) (drop j (drop (mark + 1) s)))"
      using q(2) by (simp add: glob_literal)
    then have "glob (drop pi p) (drop (length q + j + (mark + 1)) s)"
      by (simp add: add.assoc)
    moreover have "si \<le> length q + j + (mark + 1)" using q(3) by simp
    ultimately show ?thesis unfolding dp by (rule glob_star_drop)
  qed
  then show ?thesis
    unfolding new by (auto simp: glob_goal_def split: option.splits)
qed

lemma glob_literal_step:
  assumes inv: "glob_inv p s pi si star mark" and free: "CHR ''*'' \<notin> set s"
    and lit: "si < length s" "pi < length p" "p ! pi = s ! si"
  shows "glob_inv p s (pi + 1) (si + 1) star mark" (is ?inv)
    and "glob_goal p s (pi + 1) (si + 1) star mark = glob_goal p s pi si star mark" (is ?goal)
proof -
  show ?inv
  proof (cases star)
    case None
    with inv lit show ?thesis by (simp add: glob_inv_def)
  next
    case (Some k)
    with inv obtain d where d: "pi = k + 1 + d" "si = mark + d"
      by (auto simp: glob_inv_def intro: that [of "si - mark"])
    have "take (Suc d) (drop (k + 1) p) = take d (drop (k + 1) p) @ [p ! pi]"
      using d lit by (subst take_Suc_conv_app_nth) auto
    moreover have "take (Suc d) (drop mark s) = take d (drop mark s) @ [s ! si]"
      using d lit by (subst take_Suc_conv_app_nth) auto
    ultimately show ?thesis
      using inv lit Some d by (simp add: glob_inv_def)
  qed
  have "s ! si \<noteq> CHR ''*''" using free lit(1) by (metis nth_mem)
  then have "glob (drop pi p) (drop si s) = glob (drop (pi + 1) p) (drop (si + 1) s)"
    using lit by (simp flip: Cons_nth_drop_Suc)
  then show ?goal by (simp add: glob_goal_def)
qed

lemma glob_retry_step:
  assumes inv: "glob_inv p s pi si (Some k) mark" and si: "si < length s"
    and fail: "\<not> glob (drop pi p) (drop si s)"
  shows "mark < length s" and "glob_inv p s (k + 1) (mark + 1) (Some k) (mark + 1)"
    and "glob_goal p s (k + 1) (mark + 1) (Some k) (mark + 1) = glob_goal p s pi si (Some k) mark"
proof -
  show mark: "mark < length s" and "glob_inv p s (k + 1) (mark + 1) (Some k) (mark + 1)"
    using inv si by (auto simp: glob_inv_def)
  have "k < length p" "p ! k = CHR ''*''" using inv by (auto simp: glob_inv_def)
  then have "drop k p = CHR ''*'' # drop (k + 1) p" by (metis Cons_nth_drop_Suc Suc_eq_plus1)
  then show "glob_goal p s (k + 1) (mark + 1) (Some k) (mark + 1) = glob_goal p s pi si (Some k) mark"
    using fail mark
    by (cases "mark + 1 < length s") (auto simp: glob_goal_def simp flip: Cons_nth_drop_Suc)
qed

lemma matchGlob_loop_decides:
  assumes free: "CHR ''*'' \<notin> set s" and "glob_inv p s pi si star mark"
  shows "glob_decides p (matchGlob_loop p s pi si star mark) (glob_goal p s pi si star mark)"
  using assms(2)
proof (induction "(pi, si, star, mark)" arbitrary: pi si star mark
    rule: wf_induct_rule [OF wf_glob_measure [of p s]])
  case 1
  note IH = "1.hyps" and inv = "1.prems"
  note unfold = matchGlob_loop.simps [of p s pi si]
  consider (stop) "\<not> si < length s"
    | (lit) "si < length s" "pi < length p" "p ! pi = s ! si"
    | (star) "si < length s" "pi < length p" "p ! pi \<noteq> s ! si" "p ! pi = CHR ''*''"
    | (retry) "si < length s" "\<not> (pi < length p \<and> (p ! pi = s ! si \<or> p ! pi = CHR ''*''))"
    by blast
  then show ?case
  proof cases
    case stop
    with inv have "si = length s" by (auto simp: glob_inv_def)
    with inv free unfold [of star mark] show ?thesis by (simp add: glob_decides_def glob_end)
  next
    case lit
    have "((pi + 1, si + 1, star, mark), pi, si, star, mark) \<in> glob_measure p s"
      using lit by (auto simp: glob_measure_def)
    from IH [OF this] glob_literal_step [OF inv free lit] lit show ?thesis
      by (simp add: unfold)
  next
    case star
    have m: "((pi + 1, si, Some pi, si), pi, si, star, mark) \<in> glob_measure p s"
      using star inv by (auto simp: glob_measure_def glob_inv_def split: option.splits)
    have "glob_inv p s (pi + 1) si (Some pi) si"
      using inv star by (auto simp: glob_inv_def)
    from IH [OF m this] glob_new_star [OF inv free star(1,2,4)] star show ?thesis
      by (simp add: unfold)
  next
    case retry
    then have fail: "\<not> glob (drop pi p) (drop si s)"
      by (cases "pi < length p") (auto simp flip: Cons_nth_drop_Suc)
    show ?thesis
    proof (cases star)
      case None
      with retry fail show ?thesis by (auto simp: unfold glob_decides_def glob_goal_def)
    next
      case (Some k)
      note step = glob_retry_step [OF inv [unfolded Some] retry(1) fail]
      have "((k + 1, mark + 1, star, mark + 1), pi, si, star, mark) \<in> glob_measure p s"
        using step(1) by (auto simp: glob_measure_def)
      from IH [OF this] step retry Some show ?thesis by (auto simp: unfold)
    qed
  qed
qed

text \<open>The loop ends on every subject: the mark moves forward, and between two moves of the mark
  the pattern or the subject position does.\<close>

lemma matchGlob_loop_returns:
  assumes "mark \<le> si"
  shows "\<exists>r. matchGlob_loop p s pi si star mark = Some r"
  using assms
proof (induction "(length s - mark, length p + length s - (pi + si))" arbitrary: pi si star mark
    rule: wf_induct_rule [OF wf_lex_prod [OF wf_less_than wf_less_than]])
  case 1
  note IH = "1.hyps" and step = matchGlob_loop.simps [of p s pi si star mark]
  have lex: "((a, b), (a', b')) \<in> less_than <*lex*> less_than \<longleftrightarrow> a < a' \<or> a = a' \<and> b < b'" for a b a' b' :: nat
    by auto
  consider "si \<ge> length s"
    | "si < length s" "pi < length p" "p ! pi = s ! si"
    | "si < length s" "pi < length p" "p ! pi \<noteq> s ! si" "p ! pi = CHR ''*''"
    | "si < length s" "\<not> (pi < length p \<and> (p ! pi = s ! si \<or> p ! pi = CHR ''*''))"
    by linarith
  then show ?case
  proof cases
    case 2
    then show ?thesis using IH [of mark "pi + 1" "si + 1" star] "1.prems" step by (auto simp: lex)
  next
    case 3
    then have "length s - si < length s - mark \<or>
        length s - si = length s - mark \<and> length p + length s - (pi + 1 + si) < length p + length s - (pi + si)"
      using "1.prems" by linarith
    with 3 show ?thesis using IH [of si "pi + 1" si "Some pi"] step by (auto simp: lex)
  next
    case 4
    then have "length s - (mark + 1) < length s - mark" using "1.prems" by linarith
    with 4 show ?thesis
      using IH [of "mark + 1" "the star + 1" "mark + 1" star] step by (cases star) (auto simp: lex)
  qed (use step in simp)
qed

lemma matchGlob_glob:
  assumes "CHR ''*'' \<notin> set s"
  shows "matchGlob p s \<longleftrightarrow> p = [] \<or> glob p s"
proof -
  have "glob_inv p s 0 0 None 0" by (simp add: glob_inv_def)
  from matchGlob_loop_decides [OF assms this] show ?thesis
    by (auto simp: matchGlob_def glob_decides_def glob_goal_def split: option.splits)
qed

end
