(* ===== verification/Engine.thy ===== *)
theory Engine
  imports Strconv Glob
begin

text \<open>
  pkg/storage/engine.go: the errors, the replicated \<open>Command\<close>, and the \<open>Engine\<close>
  interface, whose documented contract is stated as the locales \<open>kv_engine\<close> and
  \<open>kv_scan\<close>.  The contract is phrased over \<open>live s t\<close>, the key/value pairs a store state
  \<open>s\<close> shows at clock reading \<open>t\<close>: expired keys are not in it, whether or not they still
  occupy memory.  What every client may conclude from the contract is proved once inside
  the locales.
\<close>

section \<open>Errors, pairs, commands\<close>

text \<open>The sentinel errors, \<open>NotLeaderError\<close>, the \<open>io\<close> errors the log reader meets, any
  other error by its message, \<open>fmt.Errorf\<close> wrapping (\<open>%w\<close>), and a run-time panic.\<close>

datatype kv_error =
    ErrNotFound
  | ErrClosed
  | ErrNotNumeric
  | ErrOverflow
  | ErrInvalidCursor
  | NotLeaderError (LeaderAddr: string)
  | ErrDecrypt
  | EOF
  | ErrUnexpectedEOF
  | ErrOther string
  | Wrap string kv_error
  | Panic string

type_synonym 'a res = "kv_error + 'a"

text \<open>\<open>(*NotLeaderError).Error\<close>.\<close>

fun NotLeaderError_Error :: "string \<Rightarrow> string" where
  "NotLeaderError_Error addr =
     (if addr = '''' then ''no leader known'' else ''not the leader; leader is '' @ addr)"

text \<open>\<open>errors.Is\<close> for the sentinel errors: look through wrapping.\<close>

fun errors_Is :: "kv_error \<Rightarrow> kv_error \<Rightarrow> bool" where
  "errors_Is (Wrap m e) target = (Wrap m e = target \<or> errors_Is e target)"
| "errors_Is e target = (e = target)"

record KeyValue =
  kvKey :: string
  kvValue :: string

datatype Op = OpPut | OpDelete | OpClear | OpIncr | OpCAS | OpExpire | OpUnknown

record Command =
  cmdOp :: Op
  cmdKey :: string
  cmdOld :: string
  cmdValue :: string
  cmdExpiresAt :: int64

section \<open>The contract of Scan\<close>

definition scan_keys :: "(string \<rightharpoonup> string) \<Rightarrow> string \<Rightarrow> string \<Rightarrow> string list" where
  "scan_keys L cursor pattern =
     sorted_list_of_set {k \<in> dom L. (cursor = '''' \<or> cursor < k) \<and> matchGlob pattern k}"

definition scan_page ::
    "(string \<rightharpoonup> string) \<Rightarrow> string \<Rightarrow> nat \<Rightarrow> string \<Rightarrow> KeyValue list \<times> string \<Rightarrow> bool" where
  "scan_page L cursor count pattern page \<longleftrightarrow>
     (let ks = take count (scan_keys L cursor pattern)
      in fst page = map (\<lambda>k. \<lparr>kvKey = k, kvValue = the (L k)\<rparr>) ks \<and>
         snd page = (if length ks = count then last ks else ''''))"

text \<open>The client's side of paging: pass the cursor back until it comes back empty.  The
  fuel bounds the number of pages asked for.\<close>

primrec scan_pages :: "(string \<Rightarrow> (KeyValue list \<times> string) res) \<Rightarrow> nat \<Rightarrow> string \<Rightarrow> KeyValue list option" where
  "scan_pages f 0 cursor = None"
| "scan_pages f (Suc fuel) cursor =
     (case f cursor of
        Inl e \<Rightarrow> None
      | Inr page \<Rightarrow> if snd page = '''' then Some (fst page)
                    else map_option (\<lambda>rest. fst page @ rest) (scan_pages f fuel (snd page)))"

lemma sorted_list_of_set_above:
  fixes xs :: "string list"
  assumes "sorted_wrt (<) xs" "n < length xs"
  shows "filter (\<lambda>k. xs ! n < k) xs = drop (Suc n) xs"
proof -
  have "\<not> xs ! n < k" if "k \<in> set (take (Suc n) xs)" for k
  proof -
    from that obtain i where "i \<le> n" "k = xs ! i"
      by (auto simp: in_set_conv_nth less_Suc_eq_le)
    then have "k \<le> xs ! n"
      using sorted_wrt_nth_less [OF assms(1), of i n] assms(2) by (cases "i = n") auto
    then show ?thesis by simp
  qed
  then have "filter (\<lambda>k. xs ! n < k) (take (Suc n) xs) = []" by (simp add: filter_empty_conv)
  moreover have "xs ! n < k" if "k \<in> set (drop (Suc n) xs)" for k
    using that sorted_wrt_nth_less [OF assms(1), of n] by (auto simp: in_set_conv_nth)
  then have "filter (\<lambda>k. xs ! n < k) (drop (Suc n) xs) = drop (Suc n) xs" by (simp add: filter_id_conv)
  ultimately show ?thesis
    by (metis append_Nil append_take_drop_id filter_append)
qed

lemma scan_keys_next:
  assumes "finite (dom L)" "'''' \<notin> dom L" "0 < count" "count \<le> length (scan_keys L cursor pattern)"
  shows "scan_keys L (last (take count (scan_keys L cursor pattern))) pattern =
      drop count (scan_keys L cursor pattern)"
    and "last (take count (scan_keys L cursor pattern)) \<noteq> ''''"
proof -
  let ?K = "{k \<in> dom L. (cursor = '''' \<or> cursor < k) \<and> matchGlob pattern k}"
  define xs where "xs = scan_keys L cursor pattern"
  define c where "c = last (take count xs)"
  have fin: "finite ?K" using assms(1) by simp
  have sorted: "sorted_wrt (<) xs" and set: "set xs = ?K"
    unfolding xs_def scan_keys_def using fin by simp_all
  have c: "c = xs ! (count - 1)" "count - 1 < length xs"
  proof -
    have "take count xs \<noteq> []" using assms(3,4) by (auto simp: xs_def)
    then show "c = xs ! (count - 1)" "count - 1 < length xs"
      using assms(3,4) by (auto simp: c_def xs_def last_conv_nth min_def)
  qed
  then have "c \<in> ?K" using set nth_mem by blast
  then show ne: "last (take count (scan_keys L cursor pattern)) \<noteq> ''''"
    using assms(2) by (auto simp: c_def xs_def)
  have "{k \<in> dom L. (c = '''' \<or> c < k) \<and> matchGlob pattern k} = {k \<in> ?K. c < k}"
    using \<open>c \<in> ?K\<close> assms(2) by (auto dest: less_trans)
  then have "scan_keys L c pattern = filter (\<lambda>k. c < k) xs"
    using fin by (simp add: scan_keys_def xs_def filter_sorted_list_of_set)
  also have "\<dots> = drop count xs"
    using sorted_list_of_set_above [OF sorted c(2)] assms(3) by (simp add: c(1))
  finally show "scan_keys L (last (take count (scan_keys L cursor pattern))) pattern =
      drop count (scan_keys L cursor pattern)" by (simp add: c_def xs_def)
qed

section \<open>The contract of the interface\<close>

definition reached :: "int64 \<Rightarrow> int64 \<Rightarrow> bool" where
  "reached d now \<longleftrightarrow> sint d \<le> sint now"

lemma reached_refl [simp]: "reached t t"
  by (simp add: reached_def)

lemma reached_trans: "reached d t \<Longrightarrow> reached t t' \<Longrightarrow> reached d t'"
  by (simp add: reached_def)

lemma not_reached_earlier: "\<not> reached d t' \<Longrightarrow> reached t t' \<Longrightarrow> \<not> reached d t"
  by (simp add: reached_def)

locale kv_engine =
  fixes live :: "'s \<Rightarrow> int64 \<Rightarrow> string \<rightharpoonup> string"
    and inv :: "'s \<Rightarrow> bool"
    and getE :: "int64 \<Rightarrow> string \<Rightarrow> 's \<Rightarrow> string res \<times> 's"
    and putE :: "int64 \<Rightarrow> string \<Rightarrow> string \<Rightarrow> 's \<Rightarrow> unit res \<times> 's"
    and deleteE :: "int64 \<Rightarrow> string \<Rightarrow> 's \<Rightarrow> unit res \<times> 's"
    and clearE :: "int64 \<Rightarrow> 's \<Rightarrow> unit res \<times> 's"
    and incrE :: "int64 \<Rightarrow> string \<Rightarrow> 's \<Rightarrow> int64 res \<times> 's"
    and casE :: "int64 \<Rightarrow> string \<Rightarrow> string \<Rightarrow> string \<Rightarrow> 's \<Rightarrow> bool res \<times> 's"
    and expireE :: "int64 \<Rightarrow> string \<Rightarrow> int64 \<Rightarrow> 's \<Rightarrow> unit res \<times> 's"
  assumes get_result: "inv s \<Longrightarrow> getE now k s = (r, s') \<Longrightarrow>
        r = (case live s now k of None \<Rightarrow> Inl ErrNotFound | Some v \<Rightarrow> Inr v)"
    and get_frame: "inv s \<Longrightarrow> getE now k s = (r, s') \<Longrightarrow> reached now t \<Longrightarrow> live s' t = live s t"
    and put_ok: "inv s \<Longrightarrow> putE now k v s = (Inr u, s') \<Longrightarrow> reached now t \<Longrightarrow>
        live s' t = (live s t)(k \<mapsto> v)"
    and put_err: "inv s \<Longrightarrow> putE now k v s = (Inl e, s') \<Longrightarrow> reached now t \<Longrightarrow> live s' t = live s t"
    and delete_ok: "inv s \<Longrightarrow> deleteE now k s = (Inr u, s') \<Longrightarrow> reached now t \<Longrightarrow>
        live s' t = (live s t)(k := None)"
    and delete_err: "inv s \<Longrightarrow> deleteE now k s = (Inl e, s') \<Longrightarrow> reached now t \<Longrightarrow>
        live s' t = live s t"
    and clear_ok: "inv s \<Longrightarrow> clearE now s = (Inr u, s') \<Longrightarrow> reached now t \<Longrightarrow> live s' t = Map.empty"
    and incr_ok: "inv s \<Longrightarrow> incrE now k s = (Inr n, s') \<Longrightarrow>
        live s' now = (live s now)(k \<mapsto> FormatInt n) \<and>
        (case live s now k of None \<Rightarrow> n = 1
         | Some v \<Rightarrow> \<exists>m. ParseInt v = Some m \<and> m \<noteq> MaxInt64 \<and> n = m + 1)"
    and incr_err: "inv s \<Longrightarrow> incrE now k s = (Inl e, s') \<Longrightarrow> reached now t \<Longrightarrow> live s' t = live s t"
    and incr_frame: "inv s \<Longrightarrow> incrE now k s = (rn, s') \<Longrightarrow> reached now t \<Longrightarrow> j \<noteq> k \<Longrightarrow>
        live s' t j = live s t j"
    and cas_swapped: "inv s \<Longrightarrow> casE now k old new s = (Inr True, s') \<Longrightarrow> reached now t \<Longrightarrow>
        live s now k = Some old \<and> live s' t = (live s t)(k \<mapsto> new)"
    and cas_mismatch: "inv s \<Longrightarrow> casE now k old new s = (Inr False, s') \<Longrightarrow> reached now t \<Longrightarrow>
        (\<exists>v. live s now k = Some v \<and> v \<noteq> old) \<and> live s' t = live s t"
    and cas_err: "inv s \<Longrightarrow> casE now k old new s = (Inl e, s') \<Longrightarrow> reached now t \<Longrightarrow>
        live s' t = live s t"
    and cas_missing: "inv s \<Longrightarrow> casE now k old new s = (Inl ErrNotFound, s') \<Longrightarrow> live s now k = None"
    and expire_ok: "inv s \<Longrightarrow> expireE now k d s = (Inr u, s') \<Longrightarrow> d \<noteq> 0 \<Longrightarrow> reached now t \<Longrightarrow>
        (\<exists>v. live s now k = Some v \<and>
             live s' t = (live s t)(k := if reached d t then None else Some v))"
    and expire_err: "inv s \<Longrightarrow> expireE now k d s = (Inl e, s') \<Longrightarrow> reached now t \<Longrightarrow>
        live s' t = live s t"
    and inv_get: "inv s \<Longrightarrow> inv (snd (getE now k s))"
    and inv_put: "inv s \<Longrightarrow> inv (snd (putE now k v s))"
    and inv_delete: "inv s \<Longrightarrow> inv (snd (deleteE now k s))"
    and inv_clear: "inv s \<Longrightarrow> inv (snd (clearE now s))"
    and inv_incr: "inv s \<Longrightarrow> inv (snd (incrE now k s))"
    and inv_cas: "inv s \<Longrightarrow> inv (snd (casE now k old new s))"
    and inv_expire: "inv s \<Longrightarrow> inv (snd (expireE now k d s))"
begin

lemmas inv_ops = inv_get inv_put inv_delete inv_clear inv_incr inv_cas inv_expire

lemma get_live: "inv s \<Longrightarrow> fst (getE now k s) = Inr v \<longleftrightarrow> live s now k = Some v"
  using get_result [of s now k "fst (getE now k s)" "snd (getE now k s)"]
  by (auto split: option.splits)

lemma get_missing: "inv s \<Longrightarrow> fst (getE now k s) = Inl ErrNotFound \<longleftrightarrow> live s now k = None"
  using get_result [of s now k "fst (getE now k s)" "snd (getE now k s)"]
  by (auto split: option.splits)

lemma read_your_write:
  assumes "inv s" "putE now k v s = (Inr u, s')" "reached now t"
  shows "fst (getE t k s') = Inr v"
proof -
  have "inv s'" using inv_put [OF assms(1), of now k v] assms(2) by simp
  with put_ok [OF assms] show ?thesis by (simp add: get_live)
qed

lemma delete_then_missing:
  assumes "inv s" "deleteE now k s = (Inr u, s')" "reached now t"
  shows "fst (getE t k s') = Inl ErrNotFound"
proof -
  have "inv s'" using inv_delete [OF assms(1), of now k] assms(2) by simp
  with delete_ok [OF assms] show ?thesis by (simp add: get_missing)
qed

text \<open>Of two compare-and-swaps away from the same old value, only the first can win.\<close>

lemma cas_exclusive:
  assumes "inv s" "casE now k old a s = (Inr True, s')" "a \<noteq> old" "reached now t"
  shows "fst (casE t k old b s') \<noteq> Inr True"
proof
  assume win: "fst (casE t k old b s') = Inr True"
  have s': "inv s'" using inv_cas [OF assms(1), of now k old a] assms(2) by simp
  have "live s' t k = Some a" using cas_swapped [OF assms(1,2,4)] by simp
  moreover have "live s' t k = Some old"
    using cas_swapped [OF s', of t k old b "snd (casE t k old b s')" t] win
    by (metis prod.collapse reached_refl)
  ultimately show False using assms(3) by simp
qed

text \<open>A second increment at the same instant counts on from the first.\<close>

lemma incr_twice:
  assumes "inv s" "incrE now k s = (Inr n, s')" "incrE now k s' = (Inr n', s'')"
  shows "n' = n + 1"
proof -
  have s': "inv s'" using inv_incr [OF assms(1), of now k] assms(2) by simp
  have "live s' now k = Some (FormatInt n)" using incr_ok [OF assms(1,2)] by simp
  with incr_ok [OF s' assms(3)] show ?thesis by (simp add: ParseInt_FormatInt)
qed

text \<open>A deadline hides the key from then on and not before.\<close>

lemma expire_hides:
  assumes "inv s" "expireE now k d s = (Inr u, s')" "d \<noteq> 0" "reached now t"
  shows "fst (getE t k s') = Inl ErrNotFound \<longleftrightarrow> reached d t"
proof -
  have "inv s'" using inv_expire [OF assms(1), of now k d] assms(2) by simp
  moreover from expire_ok [OF assms] obtain v where
    "live s' t = (live s t)(k := if reached d t then None else Some v)" by blast
  ultimately show ?thesis by (simp add: get_missing)
qed

end

text \<open>Stores that also page over their keys.\<close>

locale kv_scan = kv_engine live inv getE putE deleteE clearE incrE casE expireE
  for live :: "'s \<Rightarrow> int64 \<Rightarrow> string \<rightharpoonup> string" and inv getE putE deleteE clearE incrE casE expireE +
  fixes scanE :: "int64 \<Rightarrow> string \<Rightarrow> int \<Rightarrow> string \<Rightarrow> 's \<Rightarrow> (KeyValue list \<times> string) res"
  assumes finite_live: "inv s \<Longrightarrow> finite (dom (live s t))"
    and scan_ok: "inv s \<Longrightarrow> 0 < count \<Longrightarrow>
        \<exists>page. scanE now cursor count pattern s = Inr page \<and>
               scan_page (live s now) cursor (nat count) pattern page"
begin

lemma scan_items_live:
  assumes "inv s" "0 < count" "scanE now cursor count pattern s = Inr (items, next)"
    and "kv \<in> set items"
  shows "live s now (kvKey kv) = Some (kvValue kv)" and "matchGlob pattern (kvKey kv)"
    and "cursor = '''' \<or> cursor < kvKey kv"
proof -
  let ?K = "{k \<in> dom (live s now). (cursor = '''' \<or> cursor < k) \<and> matchGlob pattern k}"
  from scan_ok [OF assms(1,2), of now cursor pattern] assms(3)
  have "items = map (\<lambda>k. \<lparr>kvKey = k, kvValue = the (live s now k)\<rparr>)
      (take (nat count) (sorted_list_of_set ?K))"
    by (auto simp: scan_page_def scan_keys_def Let_def)
  moreover have "finite ?K" using finite_live [OF assms(1)] by simp
  ultimately obtain k where "k \<in> ?K" "kv = \<lparr>kvKey = k, kvValue = the (live s now k)\<rparr>"
    using assms(4) by (auto dest!: in_set_takeD)
  then show "live s now (kvKey kv) = Some (kvValue kv)" "matchGlob pattern (kvKey kv)"
    "cursor = '''' \<or> cursor < kvKey kv" by auto
qed

lemma scan_at_most:
  assumes "inv s" "0 < count" "scanE now cursor count pattern s = Inr (items, next)"
  shows "int (length items) \<le> count"
  using scan_ok [OF assms(1,2), of now cursor pattern] assms(2,3)
  by (auto simp: scan_page_def Let_def)

text \<open>Paging to the end returns every matching live key once, in order, when no key is
  the empty string.\<close>

lemma scan_pages_complete:
  assumes "inv s" "0 < count" "'''' \<notin> dom (live s now)"
    and "length (scan_keys (live s now) cursor pattern) < fuel"
  shows "scan_pages (\<lambda>c. scanE now c count pattern s) fuel cursor =
    Some (map (\<lambda>k. \<lparr>kvKey = k, kvValue = the (live s now k)\<rparr>) (scan_keys (live s now) cursor pattern))"
  using assms(4)
proof (induction fuel arbitrary: cursor)
  case 0
  then show ?case by simp
next
  case (Suc fuel)
  let ?kv = "\<lambda>k. \<lparr>kvKey = k, kvValue = the (live s now k)\<rparr>"
  let ?xs = "scan_keys (live s now) cursor pattern" and ?n = "nat count"
  obtain page where page: "scanE now cursor count pattern s = Inr page"
      "fst page = map ?kv (take ?n ?xs)"
      "snd page = (if length (take ?n ?xs) = ?n then last (take ?n ?xs) else '''')"
    using scan_ok [OF assms(1,2), of now cursor pattern] by (auto simp: scan_page_def Let_def)
  show ?case
  proof (cases "?n \<le> length ?xs")
    case True
    note nxt = scan_keys_next [OF finite_live [OF assms(1)] assms(3) _ True]
    have "length (scan_keys (live s now) (last (take ?n ?xs)) pattern) < fuel"
      using nxt(1) True Suc.prems assms(2) by simp
    from Suc.IH [OF this] page True nxt assms(2) show ?thesis
      by (simp flip: map_append)
  next
    case False
    with page show ?thesis by simp
  qed
qed

end

end
