(* ===== verification/RaftTypes.thy ===== *)
theory RaftTypes
  imports Engine
begin

text \<open>
  pkg/raft/types.go, with the durable subset of the state and \<open>persist\<close> from
  pkg/raft/persistence.go: the node's record, the messages, the log accessors and the role
  transitions.  A Go \<open>int\<close> is an \<^typ>\<open>int\<close>; a \<open>*string\<close> is an option.  The store under the node
  (\<open>storage.Engine\<close>) and the durable raft store (\<open>RaftStore\<close>) are dictionaries of functions
  over state types \<open>'s\<close> and \<open>'d\<close>.  Every function models one critical section of \<open>n.mu\<close>.
\<close>

section \<open>Data\<close>

datatype Role = RoleFollower | RoleCandidate | RoleLeader

record Entry =
  entTerm :: int
  entCmd :: Command

record VoteRequest =
  vqTerm :: int
  vqCandidateID :: string
  vqLastLogIndex :: int
  vqLastLogTerm :: int

record VoteResponse =
  vrTerm :: int
  vrVoteGranted :: bool

record AppendEntriesRequest =
  aqTerm :: int
  aqLeaderID :: string
  aqPrevLogIndex :: int
  aqPrevLogTerm :: int
  aqEntries :: "Entry list"
  aqLeaderCommit :: int

record AppendEntriesResponse =
  arTerm :: int
  arSuccess :: bool

record InstallSnapshotRequest =
  iqTerm :: int
  iqLeaderID :: string
  iqLastIncludedIndex :: int
  iqLastIncludedTerm :: int
  iqData :: bytes

record InstallSnapshotResponse =
  irTerm :: int
  irSuccess :: bool

text \<open>\<open>RaftState\<close>, what is written to disk, and the \<open>RaftStore\<close> interface.\<close>

record RaftState =
  rsTerm :: int
  rsVotedFor :: "string option"
  rsLog :: "Entry list"
  rsLastIncludedIndex :: int
  rsLastIncludedTerm :: int

record 'd RaftStore =
  rsSave :: "RaftState \<Rightarrow> 'd \<Rightarrow> unit res \<times> 'd"
  rsLoad :: "'d \<Rightarrow> RaftState res"

text \<open>The \<open>storage.Engine\<close> interface; the first argument of an operation is the clock.\<close>

record 's EngineOps =
  engGet :: "int64 \<Rightarrow> string \<Rightarrow> 's \<Rightarrow> string res \<times> 's"
  engPut :: "int64 \<Rightarrow> string \<Rightarrow> string \<Rightarrow> 's \<Rightarrow> unit res \<times> 's"
  engDelete :: "int64 \<Rightarrow> string \<Rightarrow> 's \<Rightarrow> unit res \<times> 's"
  engClear :: "int64 \<Rightarrow> 's \<Rightarrow> unit res \<times> 's"
  engIncr :: "int64 \<Rightarrow> string \<Rightarrow> 's \<Rightarrow> int64 res \<times> 's"
  engCAS :: "int64 \<Rightarrow> string \<Rightarrow> string \<Rightarrow> string \<Rightarrow> 's \<Rightarrow> bool res \<times> 's"
  engExpire :: "int64 \<Rightarrow> string \<Rightarrow> int64 \<Rightarrow> 's \<Rightarrow> unit res \<times> 's"
  engScan :: "int64 \<Rightarrow> string \<Rightarrow> int \<Rightarrow> string \<Rightarrow> 's \<Rightarrow> (KeyValue list \<times> string) res"
  engClose :: "'s \<Rightarrow> unit res \<times> 's"

text \<open>\<open>replicationState\<close>: the maps read with their zero value for a missing peer.\<close>

record replicationState =
  nextIndex :: "string \<Rightarrow> int"
  matchIndex :: "string \<Rightarrow> int"
  inFlight :: "string \<Rightarrow> bool"
  backoff :: "string \<Rightarrow> nat"

text \<open>\<open>ApplyTracker\<close>: the number of waiters per index, the results recorded, and the waiters
  whose channel has been closed.\<close>

datatype applyVal = ANil | AInt int64 | ABool bool

record applyResult =
  resVal :: applyVal
  resErr :: "kv_error option"

record ApplyTracker =
  waiters :: "int \<Rightarrow> nat"
  results :: "int \<Rightarrow> applyResult option"
  woken :: "int \<Rightarrow> nat"

record Snapshot =
  snLastIncludedIndex :: int
  snLastIncludedTerm :: int
  snData :: bytes

text \<open>The node.  When wired, \<open>snapshotter\<close> makes a snapshot from what a provider sees of the node,
  its \<open>ApplyIndex\<close> and \<open>LogTerm\<close>, and from the store; \<open>snapshotSink\<close> is a function on the store;
  \<open>resetElection\<close> is a channel with one slot.\<close>

record ('s, 'd) Node =
  nid :: string
  peers :: "string list"
  role :: Role
  nterm :: int
  votedFor :: "string option"
  leaderID :: "string option"
  nlog :: "Entry list"
  commitIndex :: int
  lastApplied :: int
  lastQuorumAck :: int64
  repl :: "replicationState option"
  raftStore :: "'d RaftStore option"
  rdisk :: 'd
  dirty :: bool
  lastIncludedIndex :: int
  lastIncludedTerm :: int
  snapshotter :: "(int \<Rightarrow> (int \<Rightarrow> int) \<Rightarrow> 's \<Rightarrow> Snapshot res) option"
  snapshotSink :: "(bytes \<Rightarrow> 's \<Rightarrow> unit res \<times> 's) option"
  engine :: "'s EngineOps"
  store :: 's
  applyTr :: "ApplyTracker option"
  resetElection :: bool
  stopped :: bool

definition NewNode :: "string \<Rightarrow> string list \<Rightarrow> 's EngineOps \<Rightarrow> 's \<Rightarrow> 'd \<Rightarrow> ('s, 'd) Node" where
  "NewNode i ps eng st d =
     (let n = \<lparr>nid = i, peers = ps, role = RoleFollower, nterm = 0, votedFor = None, leaderID = None,
               nlog = [], commitIndex = 0, lastApplied = 0, lastQuorumAck = 0, repl = None,
               raftStore = None, rdisk = d, dirty = False, lastIncludedIndex = 0, lastIncludedTerm = 0,
               snapshotter = None, snapshotSink = None, engine = eng, store = st, applyTr = None,
               resetElection = False, stopped = False\<rparr>
      in if ps = [] then n\<lparr>role := RoleLeader, leaderID := Some i\<rparr> else n)"

definition Stop :: "('s, 'd) Node \<Rightarrow> ('s, 'd) Node" where
  "Stop n = n\<lparr>stopped := True\<rparr>"

definition LeaderID :: "('s, 'd) Node \<Rightarrow> string \<times> bool" where
  "LeaderID n = (case leaderID n of None \<Rightarrow> ('''', False) | Some l \<Rightarrow> (l, role n = RoleLeader))"

definition HasLeader :: "('s, 'd) Node \<Rightarrow> bool" where
  "HasLeader n \<longleftrightarrow> leaderID n \<noteq> None"

section \<open>The log\<close>

definition lastLogIndex :: "('s, 'd) Node \<Rightarrow> int" where
  "lastLogIndex n = lastIncludedIndex n + int (length (nlog n))"

definition lastLogTerm :: "('s, 'd) Node \<Rightarrow> int" where
  "lastLogTerm n = (if nlog n \<noteq> [] then entTerm (last (nlog n)) else lastIncludedTerm n)"

definition firstIndex :: "('s, 'd) Node \<Rightarrow> int" where
  "firstIndex n = lastIncludedIndex n + 1"

definition logOffset :: "('s, 'd) Node \<Rightarrow> int \<Rightarrow> int" where
  "logOffset n index =
     (let off = index - lastIncludedIndex n - 1
      in if off < 0 \<or> off \<ge> int (length (nlog n)) then -1 else off)"

definition entryAt :: "('s, 'd) Node \<Rightarrow> int \<Rightarrow> Entry option" where
  "entryAt n index =
     (let off = logOffset n index in if off \<ge> 0 then Some (nlog n ! nat off) else None)"

definition logTermAt :: "('s, 'd) Node \<Rightarrow> int \<Rightarrow> int" where
  "logTermAt n index =
     (if index = 0 then 0
      else if index = lastIncludedIndex n then lastIncludedTerm n
      else case entryAt n index of Some e \<Rightarrow> entTerm e | None \<Rightarrow> -1)"

section \<open>Role transitions\<close>

definition becomeCandidate :: "('s, 'd) Node \<Rightarrow> ('s, 'd) Node" where
  "becomeCandidate n =
     n\<lparr>role := RoleCandidate, nterm := nterm n + 1, votedFor := Some (nid n), leaderID := None, dirty := True\<rparr>"

definition becomeLeader :: "('s, 'd) Node \<Rightarrow> ('s, 'd) Node" where
  "becomeLeader n = n\<lparr>role := RoleLeader, leaderID := Some (nid n)\<rparr>"

definition becomeFollower :: "int \<Rightarrow> string option \<Rightarrow> ('s, 'd) Node \<Rightarrow> ('s, 'd) Node" where
  "becomeFollower t leader n =
     n\<lparr>role := RoleFollower, nterm := t, votedFor := None, leaderID := leader, dirty := True\<rparr>"

definition resetElectionTimer :: "('s, 'd) Node \<Rightarrow> ('s, 'd) Node" where
  "resetElectionTimer n = n\<lparr>resetElection := True\<rparr>"

section \<open>Durable state\<close>

definition durable_part :: "('s, 'd) Node \<Rightarrow> RaftState" where
  "durable_part n =
     \<lparr>rsTerm = nterm n, rsVotedFor = votedFor n, rsLog = nlog n,
      rsLastIncludedIndex = lastIncludedIndex n, rsLastIncludedTerm = lastIncludedTerm n\<rparr>"

definition persist :: "('s, 'd) Node \<Rightarrow> unit res \<times> ('s, 'd) Node" where
  "persist n =
     (case raftStore n of
        None \<Rightarrow> (Inr (), n)
      | Some rs \<Rightarrow>
          if \<not> dirty n then (Inr (), n)
          else case rsSave rs (durable_part n) (rdisk n) of
                 (Inl e, d) \<Rightarrow> (Inl e, n\<lparr>rdisk := d\<rparr>)
               | (Inr _, d) \<Rightarrow> (Inr (), n\<lparr>rdisk := d, dirty := False\<rparr>))"

definition SetRaftStore :: "'d RaftStore option \<Rightarrow> ('s, 'd) Node \<Rightarrow> unit res \<times> ('s, 'd) Node" where
  "SetRaftStore rs n =
     (let n1 = n\<lparr>raftStore := rs\<rparr>
      in case rs of
           None \<Rightarrow> (Inr (), n1)
         | Some r \<Rightarrow>
             (case rsLoad r (rdisk n1) of
                Inl e \<Rightarrow> (Inl e, n1)
              | Inr st \<Rightarrow>
                  (Inr (), n1\<lparr>nterm := rsTerm st, votedFor := rsVotedFor st, nlog := rsLog st,
                     lastIncludedIndex := rsLastIncludedIndex st, lastIncludedTerm := rsLastIncludedTerm st,
                     commitIndex := (if commitIndex n1 < rsLastIncludedIndex st then rsLastIncludedIndex st
                                     else commitIndex n1),
                     lastApplied := (if lastApplied n1 < rsLastIncludedIndex st then rsLastIncludedIndex st
                                     else lastApplied n1)\<rparr>)))"

section \<open>Facts about the accessors\<close>

lemma entryAt_eq:
  "entryAt n k = (if lastIncludedIndex n < k \<and> k \<le> lastLogIndex n
     then Some (nlog n ! nat (k - lastIncludedIndex n - 1)) else None)"
  by (auto simp: entryAt_def logOffset_def lastLogIndex_def Let_def)

lemma entryAt_Some_iff:
  "entryAt n k \<noteq> None \<longleftrightarrow> lastIncludedIndex n < k \<and> k \<le> lastLogIndex n"
  by (simp add: entryAt_eq)

lemma logTermAt_entry:
  "0 \<le> lastIncludedIndex n \<Longrightarrow> entryAt n k = Some e \<Longrightarrow> logTermAt n k = entTerm e"
  by (auto simp: logTermAt_def entryAt_eq split: if_splits)

text \<open>The last entry's term is the term at the last index.\<close>

lemma lastLogTerm_at:
  assumes "0 \<le> lastIncludedIndex n" "nlog n \<noteq> []"
  shows "lastLogTerm n = logTermAt n (lastLogIndex n)"
proof -
  have "entryAt n (lastLogIndex n) = Some (last (nlog n))"
    using assms(2) by (auto simp: entryAt_eq lastLogIndex_def last_conv_nth intro!: arg_cong [of _ _ "(!) (nlog n)"])
  with assms show ?thesis by (simp add: logTermAt_entry lastLogTerm_def)
qed

lemma persist_fields:
  assumes "persist n = (r, n')"
  shows "n' = n\<lparr>rdisk := rdisk n', dirty := dirty n'\<rparr>"
  using assms by (auto simp: persist_def split: option.splits if_splits prod.splits sum.splits)

lemma persist_keeps [simp]:
  "nterm (snd (persist n)) = nterm n" "votedFor (snd (persist n)) = votedFor n" "role (snd (persist n)) = role n"
  "nlog (snd (persist n)) = nlog n" "commitIndex (snd (persist n)) = commitIndex n"
  "lastApplied (snd (persist n)) = lastApplied n" "lastIncludedIndex (snd (persist n)) = lastIncludedIndex n"
  "lastIncludedTerm (snd (persist n)) = lastIncludedTerm n" "raftStore (snd (persist n)) = raftStore n"
  "nid (snd (persist n)) = nid n" "peers (snd (persist n)) = peers n" "store (snd (persist n)) = store n"
  "engine (snd (persist n)) = engine n" "repl (snd (persist n)) = repl n" "leaderID (snd (persist n)) = leaderID n"
  "durable_part (snd (persist n)) = durable_part n"
  by (auto simp: persist_def durable_part_def split: option.splits prod.splits sum.splits)

lemma entryAt_cong:
  "nlog n' = nlog n \<Longrightarrow> lastIncludedIndex n' = lastIncludedIndex n \<Longrightarrow> entryAt n' = entryAt n"
  by (simp add: fun_eq_iff entryAt_eq lastLogIndex_def)

section \<open>The contract of the raft store\<close>

text \<open>\<open>ok\<close> is the set of states whose text survives the file format, \<open>good\<close> the disks whose
  file can be read.  A failed \<open>Save\<close> may or may not have replaced the file.\<close>

locale raft_store =
  fixes rs :: "'d RaftStore" and ok :: "RaftState \<Rightarrow> bool" and good :: "'d \<Rightarrow> bool"
  assumes save_load: "ok st \<Longrightarrow> good d \<Longrightarrow> rsSave rs st d = (Inr u, d') \<Longrightarrow> rsLoad rs d' = Inr st"
    and save_failed: "ok st \<Longrightarrow> good d \<Longrightarrow> rsSave rs st d = (Inl e, d') \<Longrightarrow>
      rsLoad rs d' = rsLoad rs d \<or> rsLoad rs d' = Inr st"
    and save_good: "good d \<Longrightarrow> good (snd (rsSave rs st d))"
begin

text \<open>A clean node is one whose disk holds its durable part, unless the dirty flag is up.\<close>

definition clean :: "('s, 'd) Node \<Rightarrow> bool" where
  "clean n \<longleftrightarrow> raftStore n = Some rs \<and> good (rdisk n) \<and>
     (\<not> dirty n \<longrightarrow> rsLoad rs (rdisk n) = Inr (durable_part n))"

lemma persist_durable:
  assumes "clean n" "ok (durable_part n)" "persist n = (Inr u, n')"
  shows "rsLoad rs (rdisk n') = Inr (durable_part n')" and "clean n'"
  using assms save_load [OF assms(2), of "rdisk n"] save_good [of "rdisk n" "durable_part n"]
  by (auto simp: clean_def persist_def durable_part_def split: if_splits prod.splits sum.splits)

lemma persist_clean: "clean n \<Longrightarrow> ok (durable_part n) \<Longrightarrow> clean (snd (persist n))"
  using save_load [of "durable_part n" "rdisk n"] save_good [of "rdisk n" "durable_part n"]
  by (auto simp: clean_def persist_def durable_part_def split: prod.splits sum.splits)

lemma clean_dirty: "raftStore n = Some rs \<Longrightarrow> good (rdisk n) \<Longrightarrow> dirty n \<Longrightarrow> clean n"
  by (simp add: clean_def)

text \<open>Restart: a node started on the disk of a clean node that has nothing unsaved gets back
  its term, vote, log and base.\<close>

lemma restart_restores:
  assumes "clean n" "\<not> dirty n" "SetRaftStore (Some rs) n0 = (r, n')" "rdisk n0 = rdisk n"
  shows "r = Inr ()" "durable_part n' = durable_part n"
  using assms by (auto simp: clean_def SetRaftStore_def durable_part_def Let_def)

end

end
