(* ===== verification/MemStore.thy ===== *)
theory MemStore
  imports Engine
begin

text \<open>
  pkg/storage/memstore.go: the in-memory store with lazy and active expiry.  Every
  operation takes the clock readings (\<open>m.now().UnixNano()\<close>) it makes as arguments and
  returns its result with the new store.  The store is shown to meet the \<open>Engine\<close>
  contract (interpretation \<open>mem\<close>), the counter of expired keys to count exactly the
  entries dropped, and the sweep to be invisible to readers.
\<close>

section \<open>State and operations\<close>

record entry =
  eValue :: string
  eExp :: int64

record memstore =
  mdata :: "(string, entry) fmap"
  mexpired :: uint64

definition NewMemStore :: memstore where
  "NewMemStore = \<lparr>mdata = fmempty, mexpired = 0\<rparr>"

definition entryExpired :: "entry \<Rightarrow> int64 \<Rightarrow> bool" where
  "entryExpired e now \<longleftrightarrow> eExp e \<noteq> 0 \<and> sint (eExp e) \<le> sint now"

text \<open>\<open>Get\<close> has two critical sections: the read under the read lock (first clock
  reading), and, for a dead key, the removal under the write lock (second reading).\<close>

definition mem_Get_drop :: "int64 \<Rightarrow> string \<Rightarrow> memstore \<Rightarrow> memstore" where
  "mem_Get_drop now key m =
     (case fmlookup (mdata m) key of
        Some e \<Rightarrow> if entryExpired e now
                  then m\<lparr>mdata := fmdrop key (mdata m), mexpired := mexpired m + 1\<rparr> else m
      | None \<Rightarrow> m)"

definition mem_Get :: "int64 \<Rightarrow> int64 \<Rightarrow> string \<Rightarrow> memstore \<Rightarrow> string res \<times> memstore" where
  "mem_Get now now' key m =
     (case fmlookup (mdata m) key of
        None \<Rightarrow> (Inl ErrNotFound, m)
      | Some e \<Rightarrow> if \<not> entryExpired e now then (Inr (eValue e), m)
                  else (Inl ErrNotFound, mem_Get_drop now' key m))"

definition mem_Put :: "string \<Rightarrow> string \<Rightarrow> memstore \<Rightarrow> memstore" where
  "mem_Put key val m = m\<lparr>mdata := fmupd key \<lparr>eValue = val, eExp = 0\<rparr> (mdata m)\<rparr>"

definition mem_Delete :: "string \<Rightarrow> memstore \<Rightarrow> memstore" where
  "mem_Delete key m = m\<lparr>mdata := fmdrop key (mdata m)\<rparr>"

definition mem_Clear :: "memstore \<Rightarrow> memstore" where
  "mem_Clear m = m\<lparr>mdata := fmempty\<rparr>"

definition mem_Size :: "int64 \<Rightarrow> memstore \<Rightarrow> nat" where
  "mem_Size now m =
     foldl (\<lambda>n (k, e). if \<not> entryExpired e now then n + 1 else n) 0 (sorted_list_of_fmap (mdata m))"

definition mem_Incr :: "int64 \<Rightarrow> string \<Rightarrow> memstore \<Rightarrow> int64 res \<times> memstore" where
  "mem_Incr now key m =
     (let e = fmlookup (mdata m) key;
          dead = (case e of Some x \<Rightarrow> entryExpired x now | None \<Rightarrow> False);
          m1 = (if dead then m\<lparr>mdata := fmdrop key (mdata m), mexpired := mexpired m + 1\<rparr> else m);
          ok = (if dead then None else e)
      in case ok of
           None \<Rightarrow> (Inr 1, m1\<lparr>mdata := fmupd key \<lparr>eValue = ''1'', eExp = 0\<rparr> (mdata m1)\<rparr>)
         | Some x \<Rightarrow>
             (case ParseInt (eValue x) of
                None \<Rightarrow> (Inl ErrNotNumeric, m1)
              | Some v \<Rightarrow>
                  if v = MaxInt64 then (Inl ErrOverflow, m1)
                  else (Inr (v + 1),
                        m1\<lparr>mdata := fmupd key \<lparr>eValue = FormatInt (v + 1), eExp = 0\<rparr> (mdata m1)\<rparr>)))"

definition mem_CAS :: "int64 \<Rightarrow> string \<Rightarrow> string \<Rightarrow> string \<Rightarrow> memstore \<Rightarrow> bool res \<times> memstore" where
  "mem_CAS now key old new m =
     (let e = fmlookup (mdata m) key;
          dead = (case e of Some x \<Rightarrow> entryExpired x now | None \<Rightarrow> False);
          m1 = (if dead then m\<lparr>mdata := fmdrop key (mdata m), mexpired := mexpired m + 1\<rparr> else m);
          ok = (if dead then None else e)
      in case ok of
           None \<Rightarrow> (Inl ErrNotFound, m1)
         | Some x \<Rightarrow>
             if eValue x \<noteq> old then (Inr False, m1)
             else (Inr True, m1\<lparr>mdata := fmupd key \<lparr>eValue = new, eExp = 0\<rparr> (mdata m1)\<rparr>))"

definition mem_Expire :: "int64 \<Rightarrow> string \<Rightarrow> int64 \<Rightarrow> memstore \<Rightarrow> unit res \<times> memstore" where
  "mem_Expire now key expiresAt m =
     (let e = fmlookup (mdata m) key;
          dead = (case e of Some x \<Rightarrow> entryExpired x now | None \<Rightarrow> False);
          m1 = (if dead then m\<lparr>mdata := fmdrop key (mdata m), mexpired := mexpired m + 1\<rparr> else m);
          ok = (if dead then None else e)
      in case ok of
           None \<Rightarrow> (Inl ErrNotFound, m1)
         | Some x \<Rightarrow>
             (Inr (), m1\<lparr>mdata := fmupd key \<lparr>eValue = eValue x, eExp = expiresAt\<rparr> (mdata m1)\<rparr>))"

definition mem_SweepExpired :: "int64 \<Rightarrow> memstore \<Rightarrow> nat \<times> memstore" where
  "mem_SweepExpired now m =
     (let (d, n) = foldl (\<lambda>(d, n) (k, e). if entryExpired e now then (fmdrop k d, n + 1) else (d, n))
                     (mdata m, 0) (sorted_list_of_fmap (mdata m))
      in (n, m\<lparr>mdata := d, mexpired := mexpired m + of_nat n\<rparr>))"

definition mem_ExpiredCount :: "memstore \<Rightarrow> uint64" where
  "mem_ExpiredCount m = mexpired m"

definition mem_Scan ::
    "int64 \<Rightarrow> string \<Rightarrow> int \<Rightarrow> string \<Rightarrow> memstore \<Rightarrow> (KeyValue list \<times> string) res" where
  "mem_Scan now cursor count pattern m =
     (if count \<le> 0 then Inl (ErrOther ''scan: count must be positive'')
      else
        let all0 = map (\<lambda>(k, e). \<lparr>kvKey = k, kvValue = eValue e\<rparr>)
                     (filter (\<lambda>(k, e). \<not> entryExpired e now \<and> \<not> (cursor \<noteq> '''' \<and> k \<le> cursor)
                        \<and> matchGlob pattern k) (sorted_list_of_fmap (mdata m)));
            all1 = sort_key kvKey all0;
            all = (if int (length all1) > count then take (nat count) all1 else all1);
            next = (if int (length all) = count then kvKey (last all) else '''')
        in Inr (all, next))"

section \<open>What a store shows\<close>

definition mem_live :: "memstore \<Rightarrow> int64 \<Rightarrow> string \<rightharpoonup> string" where
  "mem_live m t = (\<lambda>k. case fmlookup (mdata m) k of None \<Rightarrow> None
     | Some e \<Rightarrow> if entryExpired e t then None else Some (eValue e))"

lemmas mem_ops = mem_Get_def mem_Get_drop_def mem_Put_def mem_Delete_def mem_Clear_def
  mem_Incr_def mem_CAS_def mem_Expire_def

lemma entryExpired_mono: "entryExpired e t \<Longrightarrow> reached t t' \<Longrightarrow> entryExpired e t'"
  by (auto simp: entryExpired_def reached_def)

lemma entryExpired_never [simp]: "\<not> entryExpired \<lparr>eValue = v, eExp = 0\<rparr> t"
  by (simp add: entryExpired_def)

lemma entryExpired_deadline [simp]:
  "d \<noteq> 0 \<Longrightarrow> entryExpired \<lparr>eValue = v, eExp = d\<rparr> t \<longleftrightarrow> reached d t"
  by (simp add: entryExpired_def reached_def)

lemma FormatInt_1: "FormatInt 1 = ''1''"
  by code_simp

lemma finite_mem_live [simp]: "finite (dom (mem_live m t))"
proof (rule finite_subset)
  show "dom (mem_live m t) \<subseteq> dom (fmlookup (mdata m))"
    by (auto simp: mem_live_def intro: fmdom'I split: option.splits)
qed simp

text \<open>Dropping a key that is dead at \<open>now\<close> changes nothing a later reader sees.\<close>

lemma mem_live_drop_dead:
  assumes "fmlookup (mdata m) k = Some e" "entryExpired e now" "reached now t"
  shows "mem_live (m\<lparr>mdata := fmdrop k (mdata m), mexpired := c\<rparr>) t = mem_live m t"
  using assms entryExpired_mono by (fastforce simp: mem_live_def)

section \<open>Scan returns the contract's page\<close>

lemma sort_key_sorted_map:
  "sort_key kvKey (map (\<lambda>k. \<lparr>kvKey = k, kvValue = f k\<rparr>) (sorted_list_of_set K)) =
   map (\<lambda>k. \<lparr>kvKey = k, kvValue = f k\<rparr>) (sorted_list_of_set K)"
  by (rule sort_key_id_if_sorted) (simp add: comp_def)

lemma scan_cut:
  assumes "0 < count"
  shows "(if int (length xs) > count then take (nat count) xs else xs) = take (nat count) xs"
    and "int (length (take (nat count) xs)) = count \<longleftrightarrow> length (take (nat count) xs) = nat count"
  using assms by auto

lemma kvKey_last_map:
  assumes "length ks = n" "0 < n"
  shows "kvKey (last (map (\<lambda>k. \<lparr>kvKey = k, kvValue = f k\<rparr>) ks)) = last ks"
  using assms by (cases ks rule: rev_cases) auto

lemma mem_Scan_page:
  assumes "0 < count"
  shows "\<exists>page. mem_Scan now cursor count pattern m = Inr page \<and>
    scan_page (mem_live m now) cursor (nat count) pattern page"
proof -
  let ?K = "{k. \<exists>e. fmlookup (mdata m) k = Some e \<and> \<not> entryExpired e now \<and>
      \<not> (cursor \<noteq> '''' \<and> k \<le> cursor) \<and> matchGlob pattern k}"
  let ?ks = "sorted_list_of_set ?K"
  have K: "?K = {k \<in> dom (mem_live m now). (cursor = '''' \<or> cursor < k) \<and> matchGlob pattern k}"
    by (auto simp: mem_live_def split: option.splits if_splits)
  have fin: "finite ?K" unfolding K by simp
  have val: "eValue (the (fmlookup (mdata m) k)) = the (mem_live m now k)" if "k \<in> ?K" for k
    using that by (auto simp: mem_live_def)
  have all0: "sort_key kvKey (map (\<lambda>(k, e). \<lparr>kvKey = k, kvValue = eValue e\<rparr>)
        (filter (\<lambda>(k, e). \<not> entryExpired e now \<and> \<not> (cursor \<noteq> '''' \<and> k \<le> cursor)
           \<and> matchGlob pattern k) (sorted_list_of_fmap (mdata m)))) =
      map (\<lambda>k. \<lparr>kvKey = k, kvValue = the (mem_live m now k)\<rparr>) ?ks"
    unfolding map_filter_sorted_list_of_fmap sort_key_sorted_map
    using fin val by (intro map_cong) auto
  have "mem_Scan now cursor count pattern m = Inr
     (map (\<lambda>k. \<lparr>kvKey = k, kvValue = the (mem_live m now k)\<rparr>) (take (nat count) ?ks),
      if length (take (nat count) ?ks) = nat count then last (take (nat count) ?ks) else '''')"
    using assms unfolding mem_Scan_def Let_def all0 scan_cut [OF assms] take_map length_map
    by (simp only: kvKey_last_map not_le [symmetric] if_False cong: if_cong)
  then show ?thesis
    using assms unfolding scan_page_def scan_keys_def Let_def K by auto
qed

section \<open>The store meets the contract\<close>

interpretation mem: kv_scan mem_live "\<lambda>_. True"
    "\<lambda>now. mem_Get now now"
    "\<lambda>now k v m. (Inr (), mem_Put k v m)"
    "\<lambda>now k m. (Inr (), mem_Delete k m)"
    "\<lambda>now m. (Inr (), mem_Clear m)"
    mem_Incr mem_CAS mem_Expire mem_Scan
proof (unfold_locales, goal_cases)
  case (1 s now k r s')
  then show ?case
    by (auto simp: mem_Get_def mem_live_def split: option.splits if_splits)
next
  case (2 s now k r s' t)
  then show ?case
    by (auto simp: mem_Get_def mem_Get_drop_def mem_live_drop_dead split: option.splits if_splits)
next
  case (3 s now k v u s' t)
  then show ?case by (auto simp: mem_Put_def mem_live_def)
next
  case (5 s now k u s' t)
  then show ?case by (auto simp: mem_Delete_def mem_live_def)
next
  case (7 s now u s' t)
  then show ?case by (auto simp: mem_Clear_def mem_live_def)
next
  case (8 s now k n s')
  then show ?case
    by (auto simp: mem_Incr_def mem_live_def Let_def FormatInt_1 fun_eq_iff
        split: option.splits if_splits)
next
  case (9 s now k e s' t)
  then show ?case
    by (auto simp: mem_Incr_def mem_live_drop_dead Let_def split: option.splits if_splits)
next
  case (10 s now k r s' t j)
  then show ?case
    by (auto simp: mem_Incr_def mem_live_def Let_def split: option.splits if_splits)
next
  case (11 s now k old new s' t)
  then show ?case
    by (auto simp: mem_CAS_def mem_live_def Let_def fun_eq_iff split: option.splits if_splits)
next
  case (12 s now k old new s' t)
  then show ?case
    by (auto simp: mem_CAS_def mem_live_def Let_def split: option.splits if_splits)
next
  case (13 s now k old new e s' t)
  then show ?case
    by (auto simp: mem_CAS_def mem_live_drop_dead Let_def split: option.splits if_splits)
next
  case (14 s now k old new s')
  then show ?case
    by (auto simp: mem_CAS_def mem_live_def Let_def split: option.splits if_splits)
next
  case (15 s now k d u s' t)
  then show ?case
    by (auto simp: mem_Expire_def mem_live_def Let_def fun_eq_iff split: option.splits if_splits)
next
  case (16 s now k d e s' t)
  then show ?case
    by (auto simp: mem_Expire_def mem_live_drop_dead Let_def split: option.splits if_splits)
qed (use mem_Scan_page in auto)

section \<open>Size and the active sweep\<close>

lemma mem_Size_card: "mem_Size now m = card (dom (mem_live m now))"
proof -
  let ?es = "sorted_list_of_fmap (mdata m)"
  have "foldl (\<lambda>n (k, e). if \<not> entryExpired e now then n + 1 else n) a es =
      a + length (filter (\<lambda>(k, e). \<not> entryExpired e now) es)" for a :: nat and es :: "(string \<times> entry) list"
    by (induction es arbitrary: a) auto
  then have "mem_Size now m = length (filter (\<lambda>(k, e). \<not> entryExpired e now) ?es)"
    by (simp add: mem_Size_def)
  also have "\<dots> = card {k. \<exists>e. fmlookup (mdata m) k = Some e \<and> \<not> entryExpired e now}"
    by (rule length_filter_sorted_list_of_fmap)
  also have "{k. \<exists>e. fmlookup (mdata m) k = Some e \<and> \<not> entryExpired e now} = dom (mem_live m now)"
    by (auto simp: mem_live_def split: option.splits if_splits)
  finally show ?thesis .
qed

lemma sweep_loop:
  "foldl (\<lambda>(d, n) (k, e). if entryExpired e now then (fmdrop k d, n + 1) else (d, n)) (d0, n0) es =
   (fmdrop_set {k. \<exists>e. (k, e) \<in> set es \<and> entryExpired e now} d0,
    n0 + length (filter (\<lambda>(k, e). entryExpired e now) es))"
proof (induction es arbitrary: d0 n0)
  case Nil
  then show ?case by simp
next
  case (Cons x es)
  show ?case
    by (cases x) (auto simp: Cons.IH intro!: fmap_ext)
qed

text \<open>After a sweep no entry is expired, the survivors are untouched, readers see the same
  store, and both counters count the entries dropped.\<close>

lemma mem_SweepExpired_spec:
  assumes "mem_SweepExpired now m = (n, m')"
  shows "fmlookup (mdata m') k =
      (case fmlookup (mdata m) k of Some e \<Rightarrow> if entryExpired e now then None else Some e | None \<Rightarrow> None)"
    and "n = card {k. \<exists>e. fmlookup (mdata m) k = Some e \<and> entryExpired e now}"
    and "mexpired m' = mexpired m + of_nat n"
proof -
  show "n = card {k. \<exists>e. fmlookup (mdata m) k = Some e \<and> entryExpired e now}"
    "mexpired m' = mexpired m + of_nat n"
    using assms by (auto simp: mem_SweepExpired_def sweep_loop length_filter_sorted_list_of_fmap)
  show "fmlookup (mdata m') k =
      (case fmlookup (mdata m) k of Some e \<Rightarrow> if entryExpired e now then None else Some e | None \<Rightarrow> None)"
    using assms
    by (auto simp: mem_SweepExpired_def sweep_loop set_sorted_list_of_fmap split: option.splits)
qed

lemma mem_live_sweep:
  assumes "reached now t"
  shows "mem_live (snd (mem_SweepExpired now m)) t = mem_live m t"
proof
  fix k
  obtain n m' where m': "mem_SweepExpired now m = (n, m')" by fastforce
  show "mem_live (snd (mem_SweepExpired now m)) t k = mem_live m t k"
    using mem_SweepExpired_spec(1) [OF m', of k] entryExpired_mono [OF _ assms]
    by (auto simp: mem_live_def m' split: option.splits)
qed

end
