(* ===== verification/FakeEngine.thy ===== *)
theory FakeEngine
  imports MemStore
begin

text \<open>
  pkg/storage/fake.go: the contract fake, with values and deadlines in two maps.  It meets
  the \<open>Engine\<close> contract (interpretation \<open>fake\<close>) under the invariant that a deadline is
  only kept for a stored key.  Where it departs from \<^const>\<open>NewMemStore\<close>'s store, which its
  comments promise to mirror, the difference is stated as a lemma.
\<close>

section \<open>State and operations\<close>

record fake_engine =
  fdata :: "(string, string) fmap"
  fexpires :: "(string, int64) fmap"
  fcleared :: bool

definition NewFakeEngine :: fake_engine where
  "NewFakeEngine = \<lparr>fdata = fmempty, fexpires = fmempty, fcleared = False\<rparr>"

definition fake_expiredLocked :: "int64 \<Rightarrow> string \<Rightarrow> fake_engine \<Rightarrow> bool" where
  "fake_expiredLocked now key f =
     (case fmlookup (fexpires f) key of None \<Rightarrow> False | Some d \<Rightarrow> sint d \<le> sint now)"

text \<open>The removal of a dead key that opens \<open>Get\<close>, \<open>Incr\<close>, \<open>CAS\<close> and \<open>Expire\<close>.\<close>

definition fake_drop :: "string \<Rightarrow> fake_engine \<Rightarrow> fake_engine" where
  "fake_drop key f = f\<lparr>fdata := fmdrop key (fdata f), fexpires := fmdrop key (fexpires f)\<rparr>"

definition fake_Get :: "int64 \<Rightarrow> string \<Rightarrow> fake_engine \<Rightarrow> string res \<times> fake_engine" where
  "fake_Get now key f =
     (if fake_expiredLocked now key f then (Inl ErrNotFound, fake_drop key f)
      else case fmlookup (fdata f) key of
             None \<Rightarrow> (Inl ErrNotFound, f)
           | Some v \<Rightarrow> (Inr v, f))"

definition fake_Put :: "string \<Rightarrow> string \<Rightarrow> fake_engine \<Rightarrow> fake_engine" where
  "fake_Put key val f = f\<lparr>fdata := fmupd key val (fdata f), fexpires := fmdrop key (fexpires f)\<rparr>"

definition fake_Delete :: "string \<Rightarrow> fake_engine \<Rightarrow> fake_engine" where
  "fake_Delete key f = f\<lparr>fdata := fmdrop key (fdata f), fexpires := fmdrop key (fexpires f)\<rparr>"

definition fake_Clear :: "fake_engine \<Rightarrow> fake_engine" where
  "fake_Clear f = f\<lparr>fdata := fmempty, fexpires := fmempty, fcleared := True\<rparr>"

definition fake_WasCleared :: "fake_engine \<Rightarrow> bool" where
  "fake_WasCleared f = fcleared f"

definition fake_Incr :: "int64 \<Rightarrow> string \<Rightarrow> fake_engine \<Rightarrow> int64 res \<times> fake_engine" where
  "fake_Incr now key f =
     (let f1 = (if fake_expiredLocked now key f then fake_drop key f else f)
      in case fmlookup (fdata f1) key of
           None \<Rightarrow> (Inr 1, f1\<lparr>fdata := fmupd key ''1'' (fdata f1)\<rparr>)
         | Some cur \<Rightarrow>
             (case ParseInt cur of
                None \<Rightarrow> (Inl ErrNotNumeric, f1)
              | Some v \<Rightarrow>
                  if v = MaxInt64 then (Inl ErrOverflow, f1)
                  else (Inr (v + 1), f1\<lparr>fdata := fmupd key (FormatInt (v + 1)) (fdata f1)\<rparr>)))"

definition fake_CAS :: "int64 \<Rightarrow> string \<Rightarrow> string \<Rightarrow> string \<Rightarrow> fake_engine \<Rightarrow> bool res \<times> fake_engine" where
  "fake_CAS now key old new f =
     (let f1 = (if fake_expiredLocked now key f then fake_drop key f else f)
      in case fmlookup (fdata f1) key of
           None \<Rightarrow> (Inl ErrNotFound, f1)
         | Some cur \<Rightarrow>
             if cur \<noteq> old then (Inr False, f1)
             else (Inr True, f1\<lparr>fdata := fmupd key new (fdata f1), fexpires := fmdrop key (fexpires f1)\<rparr>))"

definition fake_Expire :: "int64 \<Rightarrow> string \<Rightarrow> int64 \<Rightarrow> fake_engine \<Rightarrow> unit res \<times> fake_engine" where
  "fake_Expire now key expiresAt f =
     (let f1 = (if fake_expiredLocked now key f then fake_drop key f else f)
      in case fmlookup (fdata f1) key of
           None \<Rightarrow> (Inl ErrNotFound, f1)
         | Some _ \<Rightarrow> (Inr (), f1\<lparr>fexpires := fmupd key expiresAt (fexpires f1)\<rparr>))"

text \<open>Unlike \<open>MemStore.Scan\<close> there is no check of \<open>count\<close>: a negative one panics on the
  slice \<open>keys[:count]\<close>, and zero on \<open>items[len(items)-1]\<close>.\<close>

definition fake_Scan ::
    "int64 \<Rightarrow> string \<Rightarrow> int \<Rightarrow> string \<Rightarrow> fake_engine \<Rightarrow> (KeyValue list \<times> string) res" where
  "fake_Scan now cursor count pattern f =
     (let keys0 = map (\<lambda>(k, v). k)
                    (filter (\<lambda>(k, v). \<not> (case fmlookup (fexpires f) k of Some d \<Rightarrow> sint d \<le> sint now | None \<Rightarrow> False)
                       \<and> \<not> (cursor \<noteq> '''' \<and> k \<le> cursor) \<and> matchGlob pattern k)
                       (sorted_list_of_fmap (fdata f)));
          keys1 = sort keys0
      in if int (length keys1) > count \<and> count < 0 then Inl (Panic ''slice bounds out of range'')
         else
           let keys = (if int (length keys1) > count then take (nat count) keys1 else keys1);
               items = map (\<lambda>k. \<lparr>kvKey = k, kvValue = the (fmlookup (fdata f) k)\<rparr>) keys
           in if int (length items) = count
              then (if items = [] then Inl (Panic ''index out of range [-1]'')
                    else Inr (items, kvKey (last items)))
              else Inr (items, ''''))"

section \<open>The fake meets the contract\<close>

definition fake_live :: "fake_engine \<Rightarrow> int64 \<Rightarrow> string \<rightharpoonup> string" where
  "fake_live f t = (\<lambda>k. if fake_expiredLocked t k f then None else fmlookup (fdata f) k)"

definition fake_inv :: "fake_engine \<Rightarrow> bool" where
  "fake_inv f \<longleftrightarrow> fmdom (fexpires f) |\<subseteq>| fmdom (fdata f)"

lemmas fake_ops = fake_Get_def fake_Put_def fake_Delete_def fake_Clear_def fake_Incr_def
  fake_CAS_def fake_Expire_def fake_drop_def

lemma fake_expired_mono:
  "fake_expiredLocked t k f \<Longrightarrow> reached t t' \<Longrightarrow> fake_expiredLocked t' k f"
  by (auto simp: fake_expiredLocked_def reached_def split: option.splits)

lemma fake_live_drop_dead:
  "fake_expiredLocked now k f \<Longrightarrow> reached now t \<Longrightarrow> fake_live (fake_drop k f) t = fake_live f t"
  using fake_expired_mono [of now k f t]
  by (auto simp: fake_live_def fake_drop_def fake_expiredLocked_def fun_eq_iff split: option.splits)

lemma fake_inv_no_deadline:
  "fake_inv f \<Longrightarrow> fmlookup (fdata f) k = None \<Longrightarrow> fmlookup (fexpires f) k = None"
  by (meson fake_inv_def fmdom_notD fmdom_notI fsubsetD)

lemma fake_inv_ops:
  assumes "fake_inv f"
  shows "fake_inv (fake_drop k f)" "fake_inv (fake_Put k v f)" "fake_inv (fake_Delete k f)"
    "fake_inv (fake_Clear f)" "fake_inv (snd (fake_Get now k f))" "fake_inv (snd (fake_Incr now k f))"
    "fake_inv (snd (fake_CAS now k old new f))" "fake_inv (snd (fake_Expire now k d f))"
  using assms
  by (auto simp: fake_inv_def fake_ops Let_def fmdomI split: option.splits if_splits)

lemma finite_fake_live: "finite (dom (fake_live f t))"
  by (rule finite_subset [of _ "dom (fmlookup (fdata f))"])
    (auto simp: fake_live_def intro: fmdom'I split: if_splits)

lemma fake_scan_tail:
  fixes f :: "string \<Rightarrow> string" and ks :: "string list"
  defines "items \<equiv> map (\<lambda>k. \<lparr>kvKey = k, kvValue = f k\<rparr>) ks"
  assumes "0 < (count :: int)"
  shows "(if length ks = nat count
          then if items = [] then Inl p else Inr (items, kvKey (last items))
          else Inr (items, '''')) =
         Inr (items, if length ks = nat count then last ks else '''')"
  using assms(2) unfolding items_def by (cases ks rule: rev_cases) auto

lemma fake_Scan_page:
  assumes "0 < count"
  shows "\<exists>page. fake_Scan now cursor count pattern f = Inr page \<and>
    scan_page (fake_live f now) cursor (nat count) pattern page"
proof -
  let ?K = "{k. \<exists>v. fmlookup (fdata f) k = Some v \<and>
      \<not> (case fmlookup (fexpires f) k of Some d \<Rightarrow> sint d \<le> sint now | None \<Rightarrow> False) \<and>
      \<not> (cursor \<noteq> '''' \<and> k \<le> cursor) \<and> matchGlob pattern k}"
  have K: "?K = {k \<in> dom (fake_live f now). (cursor = '''' \<or> cursor < k) \<and> matchGlob pattern k}"
    by (auto simp: fake_live_def fake_expiredLocked_def split: option.splits if_splits)
  have fin: "finite ?K" unfolding K using finite_fake_live by simp
  have val: "the (fmlookup (fdata f) k) = the (fake_live f now k)" if "k \<in> ?K" for k
    using that by (auto simp: fake_live_def fake_expiredLocked_def split: option.splits)
  have items: "map (\<lambda>k. \<lparr>kvKey = k, kvValue = the (fmlookup (fdata f) k)\<rparr>) (take n (sorted_list_of_set ?K)) =
      map (\<lambda>k. \<lparr>kvKey = k, kvValue = the (fake_live f now k)\<rparr>) (take n (sorted_list_of_set ?K))" for n
    using fin val by (intro map_cong) (auto dest: in_set_takeD)
  have sort: "sort (sorted_list_of_set A) = sorted_list_of_set A" for A :: "string set"
    by (simp add: sorted_sort_id)
  have "fake_Scan now cursor count pattern f = Inr
     (map (\<lambda>k. \<lparr>kvKey = k, kvValue = the (fake_live f now k)\<rparr>) (take (nat count) (sorted_list_of_set ?K)),
      if length (take (nat count) (sorted_list_of_set ?K)) = nat count
      then last (take (nat count) (sorted_list_of_set ?K)) else '''')"
    using assms
    unfolding fake_Scan_def map_filter_sorted_list_of_fmap Let_def list.map_ident sort
      scan_cut [OF assms] items length_map fake_scan_tail [OF assms]
    by simp
  then show ?thesis
    using assms unfolding scan_page_def scan_keys_def Let_def K by auto
qed

interpretation fake: kv_scan fake_live fake_inv fake_Get
    "\<lambda>now k v f. (Inr (), fake_Put k v f)"
    "\<lambda>now k f. (Inr (), fake_Delete k f)"
    "\<lambda>now f. (Inr (), fake_Clear f)"
    fake_Incr fake_CAS fake_Expire fake_Scan
proof (unfold_locales, goal_cases)
  case (1 s now k r s')
  then show ?case by (auto simp: fake_Get_def fake_live_def split: option.splits if_splits)
next
  case (2 s now k r s' t)
  then show ?case by (auto simp: fake_Get_def fake_live_drop_dead split: option.splits if_splits)
next
  case (3 s now k v u s' t)
  then show ?case by (auto simp: fake_Put_def fake_live_def fake_expiredLocked_def)
next
  case (5 s now k u s' t)
  then show ?case by (auto simp: fake_Delete_def fake_live_def fake_expiredLocked_def)
next
  case (7 s now u s' t)
  then show ?case by (auto simp: fake_Clear_def fake_live_def fake_expiredLocked_def)
next
  case (8 s now k n s')
  then show ?case
    by (auto simp: fake_Incr_def fake_drop_def fake_live_def fake_expiredLocked_def Let_def FormatInt_1
        fun_eq_iff fake_inv_no_deadline split: option.splits if_splits)
next
  case (9 s now k e s' t)
  then show ?case
    by (auto simp: fake_Incr_def fake_live_drop_dead Let_def split: option.splits if_splits)
next
  case (10 s now k r s' t j)
  then show ?case
    by (auto simp: fake_Incr_def fake_drop_def fake_live_def fake_expiredLocked_def Let_def
        split: option.splits if_splits)
next
  case (11 s now k old new s' t)
  then show ?case
    by (auto simp: fake_CAS_def fake_drop_def fake_live_def fake_expiredLocked_def Let_def fun_eq_iff
        split: option.splits if_splits)
next
  case (12 s now k old new s' t)
  then show ?case
    by (auto simp: fake_CAS_def fake_drop_def fake_live_def Let_def split: option.splits if_splits)
next
  case (13 s now k old new e s' t)
  then show ?case
    by (auto simp: fake_CAS_def fake_live_drop_dead Let_def split: option.splits if_splits)
next
  case (14 s now k old new s')
  then show ?case
    by (auto simp: fake_CAS_def fake_live_def Let_def split: option.splits if_splits)
next
  case (15 s now k d u s' t)
  then show ?case
    by (auto simp: fake_Expire_def fake_drop_def fake_live_def fake_expiredLocked_def reached_def Let_def
        fun_eq_iff split: option.splits if_splits)
next
  case (16 s now k d e s' t)
  then show ?case
    by (auto simp: fake_Expire_def fake_live_drop_dead Let_def split: option.splits if_splits)
qed (use fake_inv_ops finite_fake_live fake_Scan_page in auto)

section \<open>Where the fake and the store part\<close>

text \<open>\<open>MemStore.Incr\<close> writes a fresh entry and so cancels a deadline; the fake keeps it.\<close>

lemma mem_Incr_cancels_deadline:
  assumes "mem_Incr now k m = (Inr n, m')"
  shows "mem_live m' t k = Some (FormatInt n)"
  using assms by (auto simp: mem_Incr_def mem_live_def Let_def FormatInt_1 split: option.splits if_splits)

lemma fake_Incr_keeps_deadline:
  assumes "fake_Incr now k f = (Inr n, f')" "fmlookup (fexpires f) k = Some d"
    and "\<not> reached d now" "reached d t"
  shows "fake_live f' t k = None"
  using assms
  by (auto simp: fake_Incr_def fake_live_def fake_expiredLocked_def reached_def Let_def
      split: option.splits if_splits)

lemma fake_Scan_panics:
  assumes "count \<le> 0"
  shows "\<exists>msg. fake_Scan now cursor count pattern f = Inl (Panic msg)"
proof (cases "count < 0")
  case True
  then show ?thesis by (auto simp: fake_Scan_def Let_def)
next
  case False
  with assms have "count = 0" by simp
  then show ?thesis by (simp add: fake_Scan_def Let_def)
qed

end
