(* ===== verification/Json.thy ===== *)
theory Json
  imports Strconv
begin

text \<open>
  The part of Go's \<open>encoding/json\<close> that the snapshot file, the raft state file and the
  HTTP bodies go through: the text of a value (\<open>Marshal\<close>: compact, HTML-safe escapes,
  U+FFFD for bytes that are not UTF-8) and the reader of that text (\<open>Unmarshal\<close>).  Go's
  limit of 10000 nested brackets is not modelled.  Reading back what was written gives
  the value with every string passed through \<open>coerce_utf8\<close>, which is the identity on
  valid UTF-8.
\<close>

section \<open>UTF-8\<close>

definition byte_of :: "char \<Rightarrow> nat" where
  "byte_of c = of_char c"

definition is_cont :: "char \<Rightarrow> bool" where
  "is_cont c \<longleftrightarrow> 128 \<le> byte_of c \<and> byte_of c < 192"

text \<open>\<open>utf8.DecodeRune\<close>: the length of the encoded rune a string starts with, 0 when its
  first byte starts none.\<close>

fun utf8_len2 :: "nat \<Rightarrow> bytes \<Rightarrow> nat" where
  "utf8_len2 b0 (c1 # s) =
     (if 194 \<le> b0 \<and> b0 < 224 then (if is_cont c1 then 2 else 0)
      else if 224 \<le> b0 \<and> b0 < 240 then
        (case s of
           c2 # _ \<Rightarrow> if is_cont c1 \<and> is_cont c2 \<and> (b0 = 224 \<longrightarrow> 160 \<le> byte_of c1) \<and> (b0 = 237 \<longrightarrow> byte_of c1 < 160)
                      then 3 else 0
         | [] \<Rightarrow> 0)
      else if 240 \<le> b0 \<and> b0 < 245 then
        (case s of
           c2 # c3 # _ \<Rightarrow> if is_cont c1 \<and> is_cont c2 \<and> is_cont c3 \<and> (b0 = 240 \<longrightarrow> 144 \<le> byte_of c1)
                             \<and> (b0 = 244 \<longrightarrow> byte_of c1 < 144)
                           then 4 else 0
         | _ \<Rightarrow> 0)
      else 0)"
| "utf8_len2 b0 [] = 0"

fun utf8_len :: "bytes \<Rightarrow> nat" where
  "utf8_len [] = 0"
| "utf8_len (c # s) = (if byte_of c < 128 then 1 else utf8_len2 (byte_of c) s)"

definition replacement :: bytes where
  "replacement = [char_of (239::nat), char_of (191::nat), char_of (189::nat)]"

function coerce_utf8 :: "bytes \<Rightarrow> bytes" where
  "coerce_utf8 [] = []"
| "coerce_utf8 (c # s) =
     (if utf8_len (c # s) = 0 then replacement @ coerce_utf8 s
      else take (utf8_len (c # s)) (c # s) @ coerce_utf8 (drop (utf8_len (c # s) - 1) s))"
  by pat_completeness auto
termination by (relation "measure length") auto

function valid_utf8 :: "bytes \<Rightarrow> bool" where
  "valid_utf8 [] = True"
| "valid_utf8 (c # s) =
     (utf8_len (c # s) \<noteq> 0 \<and> valid_utf8 (drop (utf8_len (c # s) - 1) s))"
  by pat_completeness auto
termination by (relation "measure length") auto

declare utf8_len2.simps [simp del] utf8_len.simps [simp del] coerce_utf8.simps(2) [simp del]
  valid_utf8.simps(2) [simp del]

text \<open>The length depends on the rune's own bytes only, and no byte of a longer rune is ASCII.\<close>

lemma utf8_len_shape:
  assumes "utf8_len s = n" "n \<noteq> 0"
  shows "n \<le> length s" and "utf8_len (take n s @ t) = n"
    and "n = 1 \<and> byte_of (hd s) < 128 \<or> (\<forall>c \<in> set (take n s). 128 \<le> byte_of c)"
proof -
  from assms(2) assms(1) obtain c s' where s: "s = c # s'" by (cases s) (auto simp: utf8_len.simps)
  show "n \<le> length s" and "utf8_len (take n s @ t) = n"
    and "n = 1 \<and> byte_of (hd s) < 128 \<or> (\<forall>c \<in> set (take n s). 128 \<le> byte_of c)"
    using assms unfolding s
    by (cases s'; auto simp: utf8_len.simps utf8_len2.simps is_cont_def split: list.splits if_splits)+
qed

lemma coerce_valid: "valid_utf8 s \<Longrightarrow> coerce_utf8 s = s"
proof (induction s rule: valid_utf8.induct)
  case 1
  then show ?case by simp
next
  case (2 c s)
  let ?n = "utf8_len (c # s)"
  have n: "?n \<noteq> 0" and v: "valid_utf8 (drop (?n - 1) s)" using 2(2) by (auto simp: valid_utf8.simps)
  have "take ?n (c # s) @ drop (?n - 1) s = c # s"
    using n by (cases ?n) auto
  with 2(1) [OF v] n show ?case by (simp add: coerce_utf8.simps)
qed

lemma valid_utf8_ascii: "list_all (\<lambda>c. byte_of c < 128) s \<Longrightarrow> valid_utf8 s"
  by (induction s) (auto simp: valid_utf8.simps utf8_len.simps)

section \<open>String literals\<close>

definition hex_digit :: "nat \<Rightarrow> char" where
  "hex_digit d = (if d < 10 then char_of (48 + d) else char_of (87 + d))"

definition hex_value :: "char \<Rightarrow> nat option" where
  "hex_value c =
     (let b = byte_of c
      in if 48 \<le> b \<and> b \<le> 57 then Some (b - 48)
         else if 97 \<le> b \<and> b \<le> 102 then Some (b - 87)
         else if 65 \<le> b \<and> b \<le> 70 then Some (b - 55) else None)"

definition hex4 :: "nat \<Rightarrow> bytes" where
  "hex4 n = [hex_digit (n div 4096 mod 16), hex_digit (n div 256 mod 16),
             hex_digit (n div 16 mod 16), hex_digit (n mod 16)]"

fun getu4 :: "bytes \<Rightarrow> (nat \<times> bytes) option" where
  "getu4 (a # b # c # d # s) =
     (case (hex_value a, hex_value b, hex_value c, hex_value d) of
        (Some w, Some x, Some y, Some z) \<Rightarrow> Some (((w * 16 + x) * 16 + y) * 16 + z, s)
      | _ \<Rightarrow> None)"
| "getu4 _ = None"

text \<open>The byte after a backslash, for the characters with a short escape.\<close>

definition short_escape :: "char \<Rightarrow> char option" where
  "short_escape c =
     (if c = CHR 0x22 \<or> c = CHR 0x5C then Some c
      else if byte_of c = 8 then Some CHR ''b'' else if byte_of c = 12 then Some CHR ''f''
      else if byte_of c = 10 then Some CHR ''n'' else if byte_of c = 13 then Some CHR ''r''
      else if byte_of c = 9 then Some CHR ''t'' else None)"

definition html_safe :: "char \<Rightarrow> bool" where
  "html_safe c \<longleftrightarrow> 32 \<le> byte_of c \<and> byte_of c < 128 \<and> c \<noteq> CHR 0x22 \<and> c \<noteq> CHR 0x5C
     \<and> c \<noteq> CHR ''<'' \<and> c \<noteq> CHR ''>'' \<and> c \<noteq> CHR ''&''"

definition escape_ascii :: "char \<Rightarrow> bytes" where
  "escape_ascii c =
     (if html_safe c then [c]
      else case short_escape c of Some e \<Rightarrow> [CHR 0x5C, e]
           | None \<Rightarrow> CHR 0x5C # CHR ''u'' # hex4 (byte_of c))"

definition line_sep :: "nat \<Rightarrow> bytes" where
  "line_sep b = [char_of (226::nat), char_of (128::nat), char_of b]"

function escape :: "bytes \<Rightarrow> bytes" where
  "escape [] = []"
| "escape (c # s) =
     (let n = utf8_len (c # s); r = take n (c # s)
      in if n = 0 then CHR 0x5C # CHR ''u'' # hex4 0xFFFD @ escape s
         else (if byte_of c < 128 then escape_ascii c
               else if r = line_sep 168 then CHR 0x5C # CHR ''u'' # hex4 0x2028
               else if r = line_sep 169 then CHR 0x5C # CHR ''u'' # hex4 0x2029
               else r) @ escape (drop (n - 1) s))"
  by pat_completeness auto
termination by (relation "measure length") (auto simp: Let_def)

declare escape.simps(2) [simp del]

definition encode_rune :: "nat \<Rightarrow> bytes" where
  "encode_rune r =
     (if r < 128 then [char_of r]
      else if r < 2048 then [char_of (192 + r div 64), char_of (128 + r mod 64)]
      else if 55296 \<le> r \<and> r < 57344 then replacement
      else if r < 65536 then [char_of (224 + r div 4096), char_of (128 + r div 64 mod 64), char_of (128 + r mod 64)]
      else [char_of (240 + r div 262144), char_of (128 + r div 4096 mod 64),
            char_of (128 + r div 64 mod 64), char_of (128 + r mod 64)])"

text \<open>What follows a backslash.  A high surrogate takes the low one escaped after it; an
  unpaired surrogate reads as U+FFFD.\<close>

fun read_escape :: "bytes \<Rightarrow> (bytes \<times> bytes) option" where
  "read_escape [] = None"
| "read_escape (e # s) =
     (if e = CHR 0x22 \<or> e = CHR 0x5C \<or> e = CHR ''/'' then Some ([e], s)
      else if e = CHR ''b'' then Some ([char_of (8::nat)], s)
      else if e = CHR ''f'' then Some ([char_of (12::nat)], s)
      else if e = CHR ''n'' then Some ([char_of (10::nat)], s)
      else if e = CHR ''r'' then Some ([char_of (13::nat)], s)
      else if e = CHR ''t'' then Some ([char_of (9::nat)], s)
      else if e = CHR ''u'' then
        (case getu4 s of
           None \<Rightarrow> None
         | Some (r, s1) \<Rightarrow>
             if 55296 \<le> r \<and> r < 56320 then
               (case s1 of
                  a # b # s2 \<Rightarrow>
                    (case (a = CHR 0x5C \<and> b = CHR ''u'', getu4 s2) of
                       (True, Some (r', s3)) \<Rightarrow>
                         if 56320 \<le> r' \<and> r' < 57344
                         then Some (encode_rune (65536 + (r - 55296) * 1024 + (r' - 56320)), s3)
                         else Some (replacement, s1)
                     | _ \<Rightarrow> Some (replacement, s1))
                | _ \<Rightarrow> Some (replacement, s1))
             else Some (encode_rune r, s1))
      else None)"

declare read_escape.simps(2) [simp del]

lemma getu4_shorter: "getu4 s = Some (r, s') \<Longrightarrow> length s' < length s"
  by (cases s rule: getu4.cases) (auto split: option.splits)

lemma read_escape_shorter: "read_escape s = Some (out, s') \<Longrightarrow> length s' < length s"
  by (cases s)
    (auto simp: read_escape.simps split: if_splits option.splits list.splits bool.splits dest!: getu4_shorter)

text \<open>The reader of a literal after its opening quote: the bytes it denotes and the rest.\<close>

function read_string :: "bytes \<Rightarrow> (bytes \<times> bytes) option" where
  "read_string [] = None"
| "read_string (c # s) =
     (if c = CHR 0x22 then Some ([], s)
      else if byte_of c < 32 then None
      else if c = CHR 0x5C then
        (case read_escape s of
           None \<Rightarrow> None
         | Some (out, s1) \<Rightarrow> map_option (\<lambda>(xs, r). (out @ xs, r)) (read_string s1))
      else
        let n = utf8_len (c # s)
        in if n = 0 then map_option (\<lambda>(xs, r). (replacement @ xs, r)) (read_string s)
           else map_option (\<lambda>(xs, r). (take n (c # s) @ xs, r)) (read_string (drop (n - 1) s)))"
  by pat_completeness auto
termination by (relation "measure length") (auto dest: read_escape_shorter)

declare read_string.simps(2) [simp del]

lemma byte_of_char_of [simp]: "n < 256 \<Longrightarrow> byte_of (char_of n) = n"
  by (simp add: byte_of_def)

lemma char_of_byte_of [simp]: "char_of (byte_of c) = c"
  by (simp add: byte_of_def)

lemma byte_of_eqD: "byte_of c = n \<Longrightarrow> c = char_of n"
  by auto

lemma hex_value_digit [simp]: "d < 16 \<Longrightarrow> hex_value (hex_digit d) = Some d"
  by (simp add: hex_value_def hex_digit_def Let_def)

lemma getu4_hex4: "n < 65536 \<Longrightarrow> getu4 (hex4 n @ s) = Some (n, s)"
proof -
  have "n = 16 * (n div 16) + n mod 16" "n div 16 = 16 * (n div 256) + n div 16 mod 16"
    "n div 256 = 16 * (n div 4096) + n div 256 mod 16"
    using div_mult2_eq [of n 16 16] div_mult2_eq [of n 256 16] by simp_all
  then have "4096 * (n div 4096) + 256 * (n div 256 mod 16) + n div 16 mod 16 * 16 + n mod 16 = n"
    by linarith
  then show "n < 65536 \<Longrightarrow> getu4 (hex4 n @ s) = Some (n, s)" by (simp add: hex4_def)
qed

lemma read_string_u:
  assumes "n < 65536" "n < 55296 \<or> 56320 \<le> n"
  shows "read_string (CHR 0x5C # CHR ''u'' # hex4 n @ s) =
    map_option (\<lambda>(xs, r). (encode_rune n @ xs, r)) (read_string s)"
  using assms by (auto simp: read_string.simps read_escape.simps getu4_hex4 byte_of_def)

lemma short_escape_read:
  assumes "short_escape c = Some e"
  shows "read_string (CHR 0x5C # e # s) = map_option (\<lambda>(xs, r). (c # xs, r)) (read_string s)"
  using assms
  by (auto simp: short_escape_def read_string.simps read_escape.simps byte_of_def [of "CHR 0x5C"]
      dest!: byte_of_eqD split: if_splits)

lemma read_string_ascii:
  assumes "byte_of c < 128"
  shows "read_string (escape_ascii c @ s) = map_option (\<lambda>(xs, r). (c # xs, r)) (read_string s)"
proof (cases "html_safe c")
  case True
  then show ?thesis
    by (auto simp: escape_ascii_def html_safe_def read_string.simps utf8_len.simps)
next
  case False
  then show ?thesis
    using assms read_string_u [of "byte_of c" s]
    by (auto simp: escape_ascii_def short_escape_read encode_rune_def split: option.splits)
qed

lemma read_string_rune:
  assumes "utf8_len (c # s) = n" "n \<noteq> 0" "128 \<le> byte_of c"
  shows "read_string (take n (c # s) @ t) =
    map_option (\<lambda>(xs, r). (take n (c # s) @ xs, r)) (read_string t)"
proof -
  obtain n' where n': "n = Suc n'" using assms(2) by (cases n) auto
  have len: "utf8_len (c # (take n' s @ t)) = n"
    using utf8_len_shape(2) [OF assms(1,2), of t] by (simp add: n')
  have "n' \<le> length s" using utf8_len_shape(1) [OF assms(1,2)] by (simp add: n')
  then have "drop n' (take n' s @ t) = t" "take n' (take n' s @ t) = take n' s" by auto
  with len assms(3) show ?thesis by (auto simp: n' read_string.simps byte_of_def)
qed

lemma encode_rune_special:
  "encode_rune 0xFFFD = replacement" "encode_rune 0x2028 = line_sep 168" "encode_rune 0x2029 = line_sep 169"
  by (simp_all add: encode_rune_def replacement_def line_sep_def)

lemma read_string_escape: "read_string (escape s @ CHR 0x22 # rest) = Some (coerce_utf8 s, rest)"
proof (induction s rule: coerce_utf8.induct)
  case 1
  then show ?case by (simp add: read_string.simps)
next
  case (2 c s)
  let ?n = "utf8_len (c # s)"
  show ?case
  proof (cases "?n = 0")
    case True
    then show ?thesis
      using 2(1) by (simp add: escape.simps coerce_utf8.simps read_string_u encode_rune_special)
  next
    case False
    note IH = 2(2) [OF False]
    have ascii: "byte_of c < 128 \<Longrightarrow> ?n = 1" by (simp add: utf8_len.simps)
    show ?thesis
      using IH False ascii read_string_rune [OF refl False]
      by (auto simp: escape.simps Let_def coerce_utf8.simps read_string_ascii read_string_u
          encode_rune_special not_less take_Suc_Cons [of 0] simp del: take_Suc_Cons)
  qed
qed

section \<open>Values\<close>

datatype json =
    JNull
  | JBool bool
  | JNum string
  | JStr string
  | JArr "json list"
  | JObj "(string \<times> json) list"

fun commas :: "bytes list \<Rightarrow> bytes" where
  "commas [] = []"
| "commas [x] = x"
| "commas (x # xs) = x @ CHR '','' # commas xs"

definition quote :: "bytes \<Rightarrow> bytes" where
  "quote s = CHR 0x22 # escape s @ [CHR 0x22]"

fun json_text :: "json \<Rightarrow> bytes" where
  "json_text JNull = ''null''"
| "json_text (JBool b) = (if b then ''true'' else ''false'')"
| "json_text (JNum l) = l"
| "json_text (JStr s) = quote s"
| "json_text (JArr vs) = CHR ''['' # commas (map json_text vs) @ '']''"
| "json_text (JObj kvs) = CHR ''{'' # commas (map (\<lambda>(k, v). quote k @ CHR '':'' # json_text v) kvs) @ ''}''"

definition is_space :: "char \<Rightarrow> bool" where
  "is_space c \<longleftrightarrow> c = CHR '' '' \<or> byte_of c = 9 \<or> byte_of c = 10 \<or> byte_of c = 13"

definition skip_space :: "bytes \<Rightarrow> bytes" where
  "skip_space s = dropWhile is_space s"

text \<open>A number literal: optional minus, \<open>0\<close> or digits without a leading zero, optional
  fraction and exponent.\<close>

definition read_fraction :: "bytes \<Rightarrow> (bytes \<times> bytes) option" where
  "read_fraction s =
     (if s \<noteq> [] \<and> hd s = CHR ''.'' then
        (if takeWhile is_digit (tl s) = [] then None
         else Some (hd s # takeWhile is_digit (tl s), dropWhile is_digit (tl s)))
      else Some ([], s))"

definition read_exponent :: "bytes \<Rightarrow> (bytes \<times> bytes) option" where
  "read_exponent s =
     (if s \<noteq> [] \<and> (hd s = CHR ''e'' \<or> hd s = CHR ''E'') then
        (let t = tl s;
             sg = (if t \<noteq> [] \<and> (hd t = CHR ''+'' \<or> hd t = CHR ''-'') then [hd t] else []);
             t' = drop (length sg) t
         in if takeWhile is_digit t' = [] then None
            else Some (hd s # sg @ takeWhile is_digit t', dropWhile is_digit t'))
      else Some ([], s))"

definition read_int_part :: "bytes \<Rightarrow> bytes" where
  "read_int_part s = (if s \<noteq> [] \<and> hd s = CHR ''0'' then ''0'' else takeWhile is_digit s)"

definition read_number :: "bytes \<Rightarrow> (bytes \<times> bytes) option" where
  "read_number s =
     (let sg = (if s \<noteq> [] \<and> hd s = CHR ''-'' then ''-'' else []);
          s1 = drop (length sg) s;
          ds = read_int_part s1
      in if ds = [] then None
         else case read_fraction (drop (length ds) s1) of
                None \<Rightarrow> None
              | Some (fr, s2) \<Rightarrow>
                  map_option (\<lambda>(ex, s3). (sg @ ds @ fr @ ex, s3)) (read_exponent s2))"

definition read_literal :: "bytes \<Rightarrow> json \<Rightarrow> bytes \<Rightarrow> (json \<times> bytes) option" where
  "read_literal lit v s = (if take (length lit) s = lit then Some (v, drop (length lit) s) else None)"

text \<open>The reader; every call, nested or repeated, takes one unit of fuel.\<close>

fun read_value :: "nat \<Rightarrow> bytes \<Rightarrow> (json \<times> bytes) option"
and read_elems :: "nat \<Rightarrow> bytes \<Rightarrow> (json list \<times> bytes) option"
and read_members :: "nat \<Rightarrow> bytes \<Rightarrow> ((string \<times> json) list \<times> bytes) option" where
  "read_value 0 s = None"
| "read_value (Suc f) s =
     (case skip_space s of
        [] \<Rightarrow> None
      | c # t \<Rightarrow>
          if c = CHR ''{'' then
            (case skip_space t of
               [] \<Rightarrow> None
             | d # u \<Rightarrow> if d = CHR ''}'' then Some (JObj [], u)
                        else map_option (\<lambda>(kvs, r). (JObj kvs, r)) (read_members f t))
          else if c = CHR ''['' then
            (case skip_space t of
               [] \<Rightarrow> None
             | d # u \<Rightarrow> if d = CHR '']'' then Some (JArr [], u)
                        else map_option (\<lambda>(vs, r). (JArr vs, r)) (read_elems f t))
          else if c = CHR 0x22 then map_option (\<lambda>(x, r). (JStr x, r)) (read_string t)
          else if c = CHR ''t'' then read_literal ''true'' (JBool True) (c # t)
          else if c = CHR ''f'' then read_literal ''false'' (JBool False) (c # t)
          else if c = CHR ''n'' then read_literal ''null'' JNull (c # t)
          else map_option (\<lambda>(l, r). (JNum l, r)) (read_number (c # t)))"
| "read_elems 0 s = None"
| "read_elems (Suc f) s =
     (case read_value f s of
        None \<Rightarrow> None
      | Some (v, s1) \<Rightarrow>
          (case skip_space s1 of
             [] \<Rightarrow> None
           | c # t \<Rightarrow> if c = CHR '']'' then Some ([v], t)
                      else if c = CHR '','' then map_option (\<lambda>(vs, r). (v # vs, r)) (read_elems f t)
                      else None))"
| "read_members 0 s = None"
| "read_members (Suc f) s =
     (case skip_space s of
        [] \<Rightarrow> None
      | q # s0 \<Rightarrow>
          if q \<noteq> CHR 0x22 then None
          else
            (case read_string s0 of
               None \<Rightarrow> None
             | Some (k, s1) \<Rightarrow>
                 (case skip_space s1 of
                    [] \<Rightarrow> None
                  | c # s2 \<Rightarrow>
                      if c \<noteq> CHR '':'' then None
                      else
                        (case read_value f s2 of
                           None \<Rightarrow> None
                         | Some (v, s3) \<Rightarrow>
                             (case skip_space s3 of
                                [] \<Rightarrow> None
                              | d # t \<Rightarrow>
                                  if d = CHR ''}'' then Some ([(k, v)], t)
                                  else if d = CHR '','' then
                                    map_option (\<lambda>(kvs, r). ((k, v) # kvs, r)) (read_members f t)
                                  else None)))))"

text \<open>\<open>json.Unmarshal\<close> up to the typed decoding: one value and nothing but space after it.
  \<open>json.Decoder.Decode\<close> reads one value and leaves the rest.\<close>

definition json_decode :: "bytes \<Rightarrow> (json \<times> bytes) option" where
  "json_decode s = read_value (2 * length s + 2) s"

definition json_parse :: "bytes \<Rightarrow> json option" where
  "json_parse s =
     (case json_decode s of None \<Rightarrow> None | Some (v, r) \<Rightarrow> if skip_space r = [] then Some v else None)"

section \<open>Round trip\<close>

fun json_norm :: "json \<Rightarrow> json" where
  "json_norm (JStr s) = JStr (coerce_utf8 s)"
| "json_norm (JArr vs) = JArr (map json_norm vs)"
| "json_norm (JObj kvs) = JObj (map (\<lambda>(k, v). (coerce_utf8 k, json_norm v)) kvs)"
| "json_norm v = v"

fun wf_json :: "json \<Rightarrow> bool" where
  "wf_json (JNum l) = (\<exists>n. l = FormatInt n)"
| "wf_json (JArr vs) = (\<forall>v \<in> set vs. wf_json v)"
| "wf_json (JObj kvs) = (\<forall>(k, v) \<in> set kvs. wf_json v)"
| "wf_json v = True"

fun json_fuel :: "json \<Rightarrow> nat" where
  "json_fuel (JArr vs) = Suc (\<Sum>v \<leftarrow> vs. Suc (json_fuel v))"
| "json_fuel (JObj kvs) = Suc (\<Sum>(k, v) \<leftarrow> kvs. Suc (json_fuel v))"
| "json_fuel v = 1"

definition value_end :: "bytes \<Rightarrow> bool" where
  "value_end s \<longleftrightarrow> s = [] \<or> hd s \<in> {CHR '','', CHR '']'', CHR ''}'', CHR 0x0A}"

lemma format_nat_leading: "hd (format_nat n) = CHR ''0'' \<Longrightarrow> n = 0"
proof (induction n rule: format_nat.induct)
  case (1 n)
  have "hd (format_nat n) = (if n < 10 then digit_char n else hd (format_nat (n div 10)))"
    by (subst format_nat.simps) simp
  moreover have "n < 10 \<Longrightarrow> digit_char n = CHR ''0'' \<Longrightarrow> n = 0"
    using digit_char_facts(2) [of n] by (simp add: digit_value_def)
  ultimately show ?case using 1 by (auto split: if_splits)
qed

lemma format_nat_0: "format_nat 0 = ''0''"
  by (subst format_nat.simps) (simp add: digit_char_def char_of_eq_iff)

lemma read_int_part_format_nat:
  assumes "value_end rest"
  shows "read_int_part (format_nat n @ rest) = format_nat n"
proof -
  have "takeWhile is_digit (format_nat n @ rest) = format_nat n"
    using format_nat_digits [of n] assms
    by (cases rest) (auto simp: list_all_iff value_end_def is_digit_def)
  then show ?thesis
    using format_nat_leading [of n] by (auto simp: read_int_part_def format_nat_0)
qed

lemma read_number_FormatInt:
  assumes "value_end rest"
  shows "read_number (FormatInt n @ rest) = Some (FormatInt n, rest)"
proof -
  have fe: "read_fraction rest = Some ([], rest)" "read_exponent rest = Some ([], rest)"
    using assms by (auto simp: read_fraction_def read_exponent_def value_end_def)
  note num = read_int_part_format_nat [OF assms]
  show ?thesis
  proof (cases "sint n < 0")
    case True
    with num [of "nat (- sint n)"] fe show ?thesis
      by (simp add: read_number_def FormatInt_def Let_def)
  next
    case False
    with num [of "nat (sint n)"] fe hd_format_nat [of "nat (sint n)"] show ?thesis
      by (simp add: read_number_def FormatInt_def Let_def)
  qed
qed

lemma FormatInt_start: "\<exists>c t. FormatInt n = c # t \<and> (is_digit c \<or> c = CHR ''-'')"
proof -
  have "\<exists>c t. format_nat k = c # t \<and> is_digit c" for k
    using format_nat_digits [of k] by (cases "format_nat k") auto
  from this [of "nat (sint n)"] show ?thesis by (auto simp: FormatInt_def)
qed

lemma number_start:
  assumes "is_digit c \<or> c = CHR ''-''"
  shows "\<not> is_space c" "c \<noteq> CHR '']''" "c \<noteq> CHR ''['' " "c \<noteq> CHR ''{''" "c \<noteq> CHR 0x22"
    "c \<noteq> CHR ''t''" "c \<noteq> CHR ''f''" "c \<noteq> CHR ''n''"
proof -
  have b: "byte_of c = 45 \<or> 48 \<le> byte_of c \<and> byte_of c \<le> 57"
    using assms by (auto simp: is_digit_def byte_of_def)
  have ne: "byte_of d \<noteq> 45 \<and> \<not> (48 \<le> byte_of d \<and> byte_of d \<le> 57) \<Longrightarrow> c \<noteq> d" for d
    using b by blast
  show "c \<noteq> CHR '']''" "c \<noteq> CHR ''['' " "c \<noteq> CHR ''{''" "c \<noteq> CHR 0x22"
    "c \<noteq> CHR ''t''" "c \<noteq> CHR ''f''" "c \<noteq> CHR ''n''"
    by (rule ne, simp add: byte_of_def)+
  have "c \<noteq> CHR '' ''" by (rule ne) (simp add: byte_of_def)
  then show "\<not> is_space c" using b by (auto simp: is_space_def)
qed

lemma json_text_start:
  assumes "wf_json v"
  shows "\<exists>c t. json_text v = c # t \<and> \<not> is_space c \<and> c \<noteq> CHR '']''"
proof (cases v)
  case (JNum l)
  with assms obtain n where "l = FormatInt n" by auto
  moreover obtain c t where c: "FormatInt n = c # t" "is_digit c \<or> c = CHR ''-''"
    using FormatInt_start by blast
  ultimately show ?thesis using JNum number_start(1,2) [OF c(2)] by simp
qed (auto simp: is_space_def byte_of_def quote_def)

lemma read_value_number:
  assumes "value_end rest"
  shows "read_value (Suc f) (FormatInt n @ rest) = Some (JNum (FormatInt n), rest)"
proof -
  obtain c t where c: "FormatInt n = c # t" "is_digit c \<or> c = CHR ''-''" using FormatInt_start by blast
  have "skip_space (FormatInt n @ rest) = c # t @ rest"
    using number_start(1) [OF c(2)] by (simp add: c(1) skip_space_def)
  with read_number_FormatInt [OF assms, of n] number_start [OF c(2)] show ?thesis
    by (simp add: c(1))
qed

lemma skip_space_text:
  "wf_json v \<Longrightarrow> skip_space (json_text v @ r) = json_text v @ r"
  using json_text_start [of v] by (auto simp: skip_space_def)

lemma skip_space_punct [simp]:
  "skip_space (CHR '','' # r) = CHR '','' # r" "skip_space (CHR '']'' # r) = CHR '']'' # r"
  "skip_space (CHR ''}'' # r) = CHR ''}'' # r" "skip_space (CHR '':'' # r) = CHR '':'' # r"
  "skip_space (CHR 0x22 # r) = CHR 0x22 # r" "skip_space (CHR ''{'' # r) = CHR ''{'' # r"
  "skip_space (CHR ''['' # r) = CHR ''['' # r" "skip_space [] = []"
  by (simp_all add: skip_space_def is_space_def byte_of_def)

lemma value_end_punct [simp]:
  "value_end (CHR '','' # r)" "value_end (CHR '']'' # r)" "value_end (CHR ''}'' # r)" "value_end []"
  by (simp_all add: value_end_def)

lemma read_elems_text:
  assumes "vs \<noteq> []" "\<And>v. v \<in> set vs \<Longrightarrow> wf_json v"
    and "\<And>v f rest. v \<in> set vs \<Longrightarrow> json_fuel v \<le> f \<Longrightarrow> value_end rest \<Longrightarrow>
      read_value f (json_text v @ rest) = Some (json_norm v, rest)"
    and "(\<Sum>v \<leftarrow> vs. Suc (json_fuel v)) \<le> f"
  shows "read_elems f (commas (map json_text vs) @ CHR '']'' # rest) = Some (map json_norm vs, rest)"
  using assms
proof (induction vs arbitrary: f rule: induct_list012)
  case (2 v)
  then obtain f' where "f = Suc f'" by (cases f) auto
  with 2 show ?case by simp
next
  case (3 v w vs)
  then obtain f' where f: "f = Suc f'" by (cases f) auto
  have "read_elems f' (commas (map json_text (w # vs)) @ CHR '']'' # rest) = Some (map json_norm (w # vs), rest)"
    using 3 f by (intro 3(2)) auto
  with 3 f show ?case by simp
qed simp

lemma read_members_text:
  assumes "kvs \<noteq> []"
    and "\<And>k v f rest. (k, v) \<in> set kvs \<Longrightarrow> json_fuel v \<le> f \<Longrightarrow> value_end rest \<Longrightarrow>
      read_value f (json_text v @ rest) = Some (json_norm v, rest)"
    and "(\<Sum>(k, v) \<leftarrow> kvs. Suc (json_fuel v)) \<le> f"
  shows "read_members f (commas (map (\<lambda>(k, v). quote k @ CHR '':'' # json_text v) kvs) @ CHR ''}'' # rest) =
    Some (map (\<lambda>(k, v). (coerce_utf8 k, json_norm v)) kvs, rest)"
  using assms
proof (induction kvs arbitrary: f rule: induct_list012)
  case (2 kv)
  then obtain f' k v where "f = Suc f'" "kv = (k, v)" by (cases f; cases kv) auto
  with 2 show ?case by (simp add: quote_def read_string_escape)
next
  case (3 kv kw kvs)
  then obtain f' k v where f: "f = Suc f'" "kv = (k, v)" by (cases f; cases kv) auto
  have "read_members f' (commas (map (\<lambda>(k, v). quote k @ CHR '':'' # json_text v) (kw # kvs)) @ CHR ''}'' # rest) =
      Some (map (\<lambda>(k, v). (coerce_utf8 k, json_norm v)) (kw # kvs), rest)"
  proof (rule 3(2))
    show "read_value g (json_text w @ r) = Some (json_norm w, r)"
      if "(j, w) \<in> set (kw # kvs)" "json_fuel w \<le> g" "value_end r" for j w g r
      using that by (intro 3(4)) auto
  qed (use 3(5) f in auto)
  moreover have "read_value f' (json_text v @ CHR '','' # r) = Some (json_norm v, CHR '','' # r)" for r
    using 3(5) f by (intro 3(4)) auto
  ultimately show ?case by (simp add: f quote_def read_string_escape)
qed simp

lemma read_value_text:
  assumes "wf_json v" "json_fuel v \<le> f" "value_end rest"
  shows "read_value f (json_text v @ rest) = Some (json_norm v, rest)"
  using assms
proof (induction v arbitrary: f rest)
  case JNull
  then show ?case by (cases f) (auto simp: skip_space_def is_space_def byte_of_def read_literal_def)
next
  case (JBool b)
  then show ?case by (cases f) (auto simp: skip_space_def is_space_def byte_of_def read_literal_def)
next
  case (JNum l)
  then show ?case by (cases f) (auto simp: read_value_number simp del: read_value.simps)
next
  case (JStr s)
  then show ?case by (cases f) (auto simp: quote_def read_string_escape)
next
  case (JArr vs)
  then obtain f' where f: "f = Suc f'" by (cases f) auto
  show ?case
  proof (cases vs)
    case (Cons v ws)
    obtain c t where c: "json_text v = c # t" "\<not> is_space c" "c \<noteq> CHR '']''"
      using json_text_start [of v] JArr(2) Cons by auto
    have "\<exists>u. commas (map json_text vs) = c # u"
      using c(1) Cons by (cases ws) auto
    moreover have "read_elems f' (commas (map json_text vs) @ CHR '']'' # rest) = Some (map json_norm vs, rest)"
      using JArr f Cons by (intro read_elems_text) auto
    ultimately show ?thesis using c(2,3) f by (auto simp: skip_space_def [of "c # _"])
  qed (simp add: f)
next
  case (JObj kvs)
  then obtain f' where f: "f = Suc f'" by (cases f) auto
  show ?case
  proof (cases kvs)
    case (Cons kv ws)
    have "\<exists>u. commas (map (\<lambda>(k, v). quote k @ CHR '':'' # json_text v) kvs) = CHR 0x22 # u"
      using Cons by (cases ws; cases kv) (auto simp: quote_def)
    moreover have "read_members f' (commas (map (\<lambda>(k, v). quote k @ CHR '':'' # json_text v) kvs) @ CHR ''}'' # rest) =
        Some (map (\<lambda>(k, v). (coerce_utf8 k, json_norm v)) kvs, rest)"
      using JObj f Cons by (intro read_members_text) fastforce+
    ultimately show ?thesis using f by auto
  qed (simp add: f)
qed

text \<open>The fuel of \<open>json_decode\<close> is enough for every text the printer makes.\<close>

lemma length_commas: "sum_list (map length xs) \<le> length (commas xs)"
  by (induction xs rule: commas.induct) auto

lemma json_fuel_bound: "wf_json v \<Longrightarrow> json_fuel v < 2 * length (json_text v)"
proof (induction v)
  case (JNum l)
  then obtain n where "l = FormatInt n" by auto
  with FormatInt_start [of n] show ?case by auto
next
  case (JArr vs)
  have "(\<Sum>v \<leftarrow> vs. Suc (json_fuel v)) \<le> (\<Sum>v \<leftarrow> vs. 2 * length (json_text v))"
    using JArr by (intro sum_list_mono) (simp add: Suc_le_eq)
  also have "\<dots> = 2 * sum_list (map length (map json_text vs))"
    by (simp add: sum_list_const_mult comp_def)
  also have "\<dots> \<le> 2 * length (commas (map json_text vs))" using length_commas by (rule mult_le_mono2)
  finally show ?case by simp
next
  case (JObj kvs)
  let ?t = "\<lambda>(k, v). quote k @ CHR '':'' # json_text v"
  have "(\<Sum>(k, v) \<leftarrow> kvs. Suc (json_fuel v)) \<le> (\<Sum>kv \<leftarrow> kvs. 2 * length (?t kv))"
  proof (rule sum_list_mono)
    fix kv assume kv: "kv \<in> set kvs"
    obtain k v where [simp]: "kv = (k, v)" by fastforce
    have "json_fuel v < 2 * length (json_text v)" using JObj kv by force
    then show "(case kv of (k, v) \<Rightarrow> Suc (json_fuel v)) \<le> 2 * length (?t kv)" by simp
  qed
  also have "\<dots> = 2 * sum_list (map length (map ?t kvs))"
    by (simp add: sum_list_const_mult comp_def)
  also have "\<dots> \<le> 2 * length (commas (map ?t kvs))" using length_commas by (rule mult_le_mono2)
  finally show ?case by simp
qed (auto simp: quote_def)

lemma json_decode_text:
  assumes "wf_json v" "value_end rest"
  shows "json_decode (json_text v @ rest) = Some (json_norm v, rest)"
  unfolding json_decode_def
  using assms json_fuel_bound [OF assms(1)] by (intro read_value_text) auto

lemma json_parse_text: "wf_json v \<Longrightarrow> json_parse (json_text v) = Some (json_norm v)"
  using json_decode_text [of v "[]"] by (simp add: json_parse_def)

section \<open>Typed decoding\<close>

text \<open>A decoder gets the old value of the destination and returns the new one; \<open>None\<close> is an
  \<open>UnmarshalTypeError\<close>.  \<open>null\<close> leaves numbers, strings and structs alone.\<close>

fun dec_string :: "json \<Rightarrow> string \<Rightarrow> string option" where
  "dec_string JNull old = Some old"
| "dec_string (JStr s) old = Some s"
| "dec_string _ old = None"

fun dec_int64 :: "json \<Rightarrow> int64 \<Rightarrow> int64 option" where
  "dec_int64 JNull old = Some old"
| "dec_int64 (JNum l) old = ParseInt l"
| "dec_int64 _ old = None"

text \<open>\<open>foldName\<close>: upper-case ASCII, with the two non-ASCII runes that fold to ASCII.\<close>

fun fold_name :: "string \<Rightarrow> string" where
  "fold_name [] = []"
| "fold_name (c # s) =
     (if take 2 (c # s) = [char_of (197::nat), char_of (191::nat)] then CHR ''S'' # fold_name (drop 1 s)
      else if take 3 (c # s) = [char_of (226::nat), char_of (132::nat), char_of (170::nat)]
      then CHR ''K'' # fold_name (drop 2 s)
      else if 97 \<le> byte_of c \<and> byte_of c \<le> 122 then char_of (byte_of c - 32) # fold_name s
      else c # fold_name s)"

definition find_field :: "(string \<times> 'f) list \<Rightarrow> string \<Rightarrow> 'f option" where
  "find_field fields name =
     (case map_of fields name of
        Some d \<Rightarrow> Some d
      | None \<Rightarrow> map_of (map (\<lambda>(n, d). (fold_name n, d)) fields) (fold_name name))"

fun dec_members ::
    "(string \<times> (json \<Rightarrow> 'r \<Rightarrow> 'r option)) list \<Rightarrow> (string \<times> json) list \<Rightarrow> 'r \<Rightarrow> 'r option" where
  "dec_members fields [] r = Some r"
| "dec_members fields ((k, v) # kvs) r =
     (case find_field fields k of
        None \<Rightarrow> dec_members fields kvs r
      | Some d \<Rightarrow> (case d v r of None \<Rightarrow> None | Some r' \<Rightarrow> dec_members fields kvs r'))"

fun dec_struct ::
    "(string \<times> (json \<Rightarrow> 'r \<Rightarrow> 'r option)) list \<Rightarrow> json \<Rightarrow> 'r \<Rightarrow> 'r option" where
  "dec_struct fields JNull r = Some r"
| "dec_struct fields (JObj kvs) r = dec_members fields kvs r"
| "dec_struct fields _ r = None"

fun dec_bool :: "json \<Rightarrow> bool \<Rightarrow> bool option" where
  "dec_bool JNull old = Some old"
| "dec_bool (JBool b) old = Some b"
| "dec_bool _ old = None"

text \<open>A map: \<open>null\<close> makes it nil; an object adds its members, each decoded into a zero value.\<close>

fun dec_entries ::
    "(json \<Rightarrow> 'v \<Rightarrow> 'v option) \<Rightarrow> 'v \<Rightarrow> (string \<times> json) list \<Rightarrow> (string, 'v) fmap \<Rightarrow> (string, 'v) fmap option" where
  "dec_entries d z [] m = Some m"
| "dec_entries d z ((k, v) # kvs) m =
     (case d v z of None \<Rightarrow> None | Some x \<Rightarrow> dec_entries d z kvs (fmupd k x m))"

fun dec_map ::
    "(json \<Rightarrow> 'v \<Rightarrow> 'v option) \<Rightarrow> 'v \<Rightarrow> json \<Rightarrow> (string, 'v) fmap option \<Rightarrow> (string, 'v) fmap option option" where
  "dec_map d z JNull old = Some None"
| "dec_map d z (JObj kvs) old =
     map_option Some (dec_entries d z kvs (case old of None \<Rightarrow> fmempty | Some m \<Rightarrow> m))"
| "dec_map d z _ old = None"

text \<open>Reading back the sorted members of a map gives the map.\<close>

lemma dec_entries_append:
  "dec_entries d z (xs @ ys) m =
     (case dec_entries d z xs m of None \<Rightarrow> None | Some m' \<Rightarrow> dec_entries d z ys m')"
  by (induction xs arbitrary: m) (auto split: option.splits)

lemma dec_entries_map:
  assumes "\<And>k v. (k, v) \<in> set kvs \<Longrightarrow> d (enc v) z = Some v"
  shows "dec_entries d z (map (\<lambda>(k, v). (k, enc v)) kvs) m = Some (fold (\<lambda>(k, v). fmupd k v) kvs m)"
  using assms
proof (induction kvs arbitrary: m)
  case (Cons kv kvs)
  obtain k v where kv: "kv = (k, v)" by fastforce
  have "d (enc v) z = Some v" using Cons.prems [of k v] by (simp add: kv)
  moreover have "dec_entries d z (map (\<lambda>(k, v). (k, enc v)) kvs) (fmupd k v m) =
      Some (fold (\<lambda>(k, v). fmupd k v) kvs (fmupd k v m))"
    by (rule Cons.IH) (rule Cons.prems, erule list.set_intros(2))
  ultimately show ?case by (simp add: kv)
qed simp

lemma fold_fmupd_lookup:
  "fmlookup (fold (\<lambda>(k, v). fmupd k v) kvs m) = (fmlookup m ++ map_of (rev kvs))"
  by (induction kvs arbitrary: m) (auto simp: map_add_def fun_eq_iff split: option.splits)

lemma fold_sorted_list_of_fmap: "fold (\<lambda>(k, v). fmupd k v) (sorted_list_of_fmap m) fmempty = m"
proof (rule fmap_ext)
  fix k
  let ?l = "sorted_list_of_fmap m"
  have "distinct (map fst ?l)" by (simp add: fst_sorted_list_of_fmap)
  then have "map_of (rev ?l) k = Some v \<longleftrightarrow> fmlookup m k = Some v" for v
    using map_of_eq_Some_iff [of "rev ?l" k v]
    by (simp add: rev_map [symmetric] set_sorted_list_of_fmap)
  then have "map_of (rev ?l) k = fmlookup m k" by (metis not_None_eq)
  then show "fmlookup (fold (\<lambda>(k, v). fmupd k v) ?l fmempty) k = fmlookup m k"
    by (simp add: fold_fmupd_lookup map_add_def split: option.split)
qed

end
