(* ===== verification/Crypto.thy ===== *)
theory Crypto
  imports Engine
begin

text \<open>
  pkg/storage/crypto.go: sealing of blobs at rest.  AES-256-GCM itself is a parameter: an
  \<open>AEAD\<close> value with its two functions, and \<open>aead_ok\<close> for what \<open>crypto/cipher\<close> documents
  of it.  The random source is a stream of nonces.
\<close>

section \<open>State and operations\<close>

record AEAD =
  aSeal :: "bytes \<Rightarrow> bytes \<Rightarrow> bytes"
  aOpen :: "bytes \<Rightarrow> bytes \<Rightarrow> bytes option"

record atRestCipher =
  aead :: AEAD

definition AtRestKeySize :: nat where
  "AtRestKeySize = 32"

definition atRestNonceSize :: nat where
  "atRestNonceSize = 12"

definition walEncryptedMagic :: char where
  "walEncryptedMagic = CHR 0xF0"

definition snapshotMagic :: string where
  "snapshotMagic = ''KVES''"

text \<open>\<open>newAES\<close> and \<open>newGCM\<close> stand for \<open>aes.NewCipher\<close> and \<open>cipher.NewGCM\<close>.\<close>

definition newAtRestCipher ::
    "(bytes \<Rightarrow> 'blk res) \<Rightarrow> ('blk \<Rightarrow> AEAD res) \<Rightarrow> bytes \<Rightarrow> atRestCipher res" where
  "newAtRestCipher newAES newGCM key =
     (if length key \<noteq> AtRestKeySize
      then Inl (ErrOther (''encryption key must be '' @ format_nat AtRestKeySize
             @ '' bytes, got '' @ format_nat (length key)))
      else case newAES key of
             Inl e \<Rightarrow> Inl (Wrap ''new aes cipher'' e)
           | Inr block \<Rightarrow>
               (case newGCM block of
                  Inl e \<Rightarrow> Inl (Wrap ''new gcm'' e)
                | Inr a \<Rightarrow> Inr \<lparr>aead = a\<rparr>))"

definition NewAtRestCipher ::
    "(bytes \<Rightarrow> 'blk res) \<Rightarrow> ('blk \<Rightarrow> AEAD res) \<Rightarrow> bytes \<Rightarrow> atRestCipher res" where
  "NewAtRestCipher = newAtRestCipher"

text \<open>\<open>rnd\<close> is the outcome of \<open>rand.Read\<close> on the nonce buffer.\<close>

definition Encrypt :: "atRestCipher \<Rightarrow> bytes res \<Rightarrow> bytes \<Rightarrow> bytes res" where
  "Encrypt c rnd plain =
     (case rnd of
        Inl e \<Rightarrow> Inl (Wrap ''random nonce'' e)
      | Inr nonce \<Rightarrow> Inr (nonce @ aSeal (aead c) nonce plain))"

definition Decrypt :: "atRestCipher \<Rightarrow> bytes \<Rightarrow> bytes res" where
  "Decrypt c sealed =
     (if length sealed < atRestNonceSize then Inl ErrDecrypt
      else case aOpen (aead c) (take atRestNonceSize sealed) (drop atRestNonceSize sealed) of
             None \<Rightarrow> Inl ErrDecrypt
           | Some plain \<Rightarrow> Inr plain)"

section \<open>What is relied on, and the round trip\<close>

text \<open>\<open>Open\<close> undoes \<open>Seal\<close> under the same nonce, accepts only what \<open>Seal\<close> produces for it,
  and GCM adds a 16-byte tag.\<close>

definition aead_ok :: "AEAD \<Rightarrow> bool" where
  "aead_ok a \<longleftrightarrow>
     (\<forall>n p. length n = atRestNonceSize \<longrightarrow>
        aOpen a n (aSeal a n p) = Some p \<and> length (aSeal a n p) = length p + 16) \<and>
     (\<forall>n c p. length n = atRestNonceSize \<longrightarrow> aOpen a n c = Some p \<longrightarrow> c = aSeal a n p)"

lemma aead_okD:
  assumes "aead_ok a" "length n = atRestNonceSize"
  shows "aOpen a n (aSeal a n p) = Some p" "length (aSeal a n p) = length p + 16"
    and "aOpen a n c = Some p \<Longrightarrow> c = aSeal a n p"
  using assms by (auto simp: aead_ok_def)

lemma Decrypt_Encrypt:
  assumes "aead_ok (aead c)" "length n = atRestNonceSize"
  shows "Encrypt c (Inr n) p = Inr sealed \<Longrightarrow> Decrypt c sealed = Inr p"
    and "Encrypt c (Inr n) p = Inr sealed \<Longrightarrow> length sealed = length p + 28"
  using assms aead_okD [OF assms] by (auto simp: Encrypt_def Decrypt_def atRestNonceSize_def)

text \<open>Nothing but the output of \<open>Encrypt\<close> opens.\<close>

lemma Decrypt_only_sealed:
  assumes "aead_ok (aead c)" "Decrypt c sealed = Inr p"
  shows "length (take atRestNonceSize sealed) = atRestNonceSize"
    and "Encrypt c (Inr (take atRestNonceSize sealed)) p = Inr sealed"
proof -
  show len: "length (take atRestNonceSize sealed) = atRestNonceSize"
    using assms(2) by (auto simp: Decrypt_def split: if_splits)
  have "drop atRestNonceSize sealed = aSeal (aead c) (take atRestNonceSize sealed) p"
    using assms(2) by (intro aead_okD(3) [OF assms(1) len])
      (auto simp: Decrypt_def split: if_splits option.splits)
  then show "Encrypt c (Inr (take atRestNonceSize sealed)) p = Inr sealed"
    by (simp add: Encrypt_def) (metis append_take_drop_id)
qed

text \<open>A concrete instance of the parameter: append sixteen zero bytes.\<close>

definition pad_AEAD :: AEAD where
  "pad_AEAD = \<lparr>aSeal = (\<lambda>n p. p @ replicate 16 CHR 0x00),
     aOpen = (\<lambda>n c. if 16 \<le> length c \<and> drop (length c - 16) c = replicate 16 CHR 0x00
                     then Some (take (length c - 16) c) else None)\<rparr>"

lemma aead_ok_pad: "aead_ok pad_AEAD"
  by (auto simp: aead_ok_def pad_AEAD_def split: if_splits) (metis append_take_drop_id)

end
