(* ===== verification/Wal.thy ===== *)
theory Wal
  imports MemStore Crypto
begin

text \<open>
  pkg/storage/wal.go, lines 1-410: the write-ahead log.  The log file is its bytes
  together with how many of them are known to be on stable storage; each write or sync
  takes the next outcome of the environment, success or an error after a partial write.
  The clock readings of a replay are a stream indexed by the records read so far.
  Opening and sizing a file can fail; an error of the medium in the middle of reading an open one
  is not modelled.
\<close>

section \<open>Files and their environment\<close>

record world =
  walFile :: bytes
  walSynced :: nat
  snapFile :: "bytes option"
  ioAt :: "nat \<Rightarrow> (nat \<times> kv_error) option"
  ioCnt :: nat
  nonceAt :: "nat \<Rightarrow> bytes res"
  nonceCnt :: nat

definition file_Write :: "bytes \<Rightarrow> world \<Rightarrow> unit res \<times> world" where
  "file_Write b w =
     (case ioAt w (ioCnt w) of
        None \<Rightarrow> (Inr (), w\<lparr>walFile := walFile w @ b, ioCnt := ioCnt w + 1\<rparr>)
      | Some (n, e) \<Rightarrow> (Inl e, w\<lparr>walFile := walFile w @ take n b, ioCnt := ioCnt w + 1\<rparr>))"

definition file_Sync :: "world \<Rightarrow> unit res \<times> world" where
  "file_Sync w =
     (case ioAt w (ioCnt w) of
        None \<Rightarrow> (Inr (), w\<lparr>walSynced := length (walFile w), ioCnt := ioCnt w + 1\<rparr>)
      | Some (n, e) \<Rightarrow> (Inl e, w\<lparr>ioCnt := ioCnt w + 1\<rparr>))"

definition seal :: "atRestCipher \<Rightarrow> bytes \<Rightarrow> world \<Rightarrow> bytes res \<times> world" where
  "seal c plain w =
     (Encrypt c (nonceAt w (nonceCnt w)) plain, w\<lparr>nonceCnt := nonceCnt w + 1\<rparr>)"

text \<open>\<open>if err != nil { return err }\<close> between two steps.\<close>

definition and_then :: "('w \<Rightarrow> 'a res \<times> 'w) \<Rightarrow> ('a \<Rightarrow> 'w \<Rightarrow> 'b res \<times> 'w) \<Rightarrow> 'w \<Rightarrow> 'b res \<times> 'w" where
  "and_then m f w = (case m w of (Inl e, w') \<Rightarrow> (Inl e, w') | (Inr x, w') \<Rightarrow> f x w')"

section \<open>Records\<close>

text \<open>The op codes 1 to 6.\<close>

definition opPut :: char where "opPut = CHR 0x01"
definition opDelete :: char where "opDelete = CHR 0x02"
definition opClear :: char where "opClear = CHR 0x03"
definition opIncr :: char where "opIncr = CHR 0x04"
definition opCAS :: char where "opCAS = CHR 0x05"
definition opExpire :: char where "opExpire = CHR 0x06"

definition maxRecordField :: nat where
  "maxRecordField = 2 ^ 20"

type_synonym WAL = "atRestCipher option"

definition wal_append :: "WAL \<Rightarrow> bytes \<Rightarrow> world \<Rightarrow> unit res \<times> world" where
  "wal_append c b =
     (case c of
        Some ci \<Rightarrow> and_then (seal ci b) (\<lambda>sealed.
                    and_then (file_Write (AppendUint32 [] (of_nat (length sealed)))) (\<lambda>_.
                    file_Write sealed))
      | None \<Rightarrow> file_Write b)"

definition AppendPut :: "WAL \<Rightarrow> string \<Rightarrow> string \<Rightarrow> world \<Rightarrow> unit res \<times> world" where
  "AppendPut c key val =
     (let buf = [opPut];
          buf = AppendUint32 buf (of_nat (length key));
          buf = buf @ key;
          buf = AppendUint32 buf (of_nat (length val));
          buf = buf @ val
      in wal_append c buf)"

definition AppendDelete :: "WAL \<Rightarrow> string \<Rightarrow> world \<Rightarrow> unit res \<times> world" where
  "AppendDelete c key =
     (let buf = [opDelete];
          buf = AppendUint32 buf (of_nat (length key));
          buf = buf @ key
      in wal_append c buf)"

definition AppendClear :: "WAL \<Rightarrow> world \<Rightarrow> unit res \<times> world" where
  "AppendClear c = wal_append c [opClear]"

definition AppendIncr :: "WAL \<Rightarrow> string \<Rightarrow> world \<Rightarrow> unit res \<times> world" where
  "AppendIncr c key =
     (let buf = [opIncr];
          buf = AppendUint32 buf (of_nat (length key));
          buf = buf @ key
      in wal_append c buf)"

definition AppendCAS :: "WAL \<Rightarrow> string \<Rightarrow> string \<Rightarrow> string \<Rightarrow> world \<Rightarrow> unit res \<times> world" where
  "AppendCAS c key old new =
     (let buf = [opCAS];
          buf = AppendUint32 buf (of_nat (length key));
          buf = buf @ key;
          buf = AppendUint32 buf (of_nat (length old));
          buf = buf @ old;
          buf = AppendUint32 buf (of_nat (length new));
          buf = buf @ new
      in wal_append c buf)"

definition AppendExpire :: "WAL \<Rightarrow> string \<Rightarrow> int64 \<Rightarrow> world \<Rightarrow> unit res \<times> world" where
  "AppendExpire c key expiresAt =
     (let buf = [opExpire];
          buf = AppendUint32 buf (of_nat (length key));
          buf = buf @ key;
          buf = AppendUint64 buf expiresAt
      in wal_append c buf)"

definition wal_Sync :: "world \<Rightarrow> unit res \<times> world" where
  "wal_Sync = file_Sync"

text \<open>\<open>os.Truncate\<close> takes an environment outcome too; an encrypted log is stamped again.\<close>

definition os_Truncate :: "world \<Rightarrow> unit res \<times> world" where
  "os_Truncate w =
     (case ioAt w (ioCnt w) of
        None \<Rightarrow> (Inr (), w\<lparr>walFile := [], walSynced := 0, ioCnt := ioCnt w + 1\<rparr>)
      | Some (n, e) \<Rightarrow> (Inl e, w\<lparr>ioCnt := ioCnt w + 1\<rparr>))"

definition wal_Truncate :: "WAL \<Rightarrow> world \<Rightarrow> unit res \<times> world" where
  "wal_Truncate c =
     and_then os_Truncate (\<lambda>_.
       case c of
         Some _ \<Rightarrow> and_then (file_Write [walEncryptedMagic]) (\<lambda>_. file_Sync)
       | None \<Rightarrow> (\<lambda>w. (Inr (), w)))"

text \<open>One I/O call: on success its effect, otherwise its error, wrapped in a message by most callers.\<close>

definition io_raw :: "(world \<Rightarrow> world) \<Rightarrow> world \<Rightarrow> unit res \<times> world" where
  "io_raw eff w =
     (case ioAt w (ioCnt w) of
        None \<Rightarrow> (Inr (), eff (w\<lparr>ioCnt := ioCnt w + 1\<rparr>))
      | Some (n, e) \<Rightarrow> (Inl e, w\<lparr>ioCnt := ioCnt w + 1\<rparr>))"

definition wrap_err :: "string \<Rightarrow> ('w \<Rightarrow> 'a res \<times> 'w) \<Rightarrow> 'w \<Rightarrow> 'a res \<times> 'w" where
  "wrap_err msg m w = (case m w of (Inl e, w') \<Rightarrow> (Inl (Wrap msg e), w') | r \<Rightarrow> r)"

definition io_call :: "string \<Rightarrow> (world \<Rightarrow> world) \<Rightarrow> world \<Rightarrow> unit res \<times> world" where
  "io_call msg eff = wrap_err msg (io_raw eff)"

text \<open>Opening.  The file exists from here on; a missing one counts as empty.\<close>

definition OpenWAL :: "world \<Rightarrow> WAL res \<times> world" where
  "OpenWAL = and_then (io_call ''open wal'' id) (\<lambda>_ w. (Inr None, w))"

definition OpenWALEncrypted :: "atRestCipher \<Rightarrow> world \<Rightarrow> WAL res \<times> world" where
  "OpenWALEncrypted c =
     and_then OpenWAL (\<lambda>_.
     and_then (io_call ''stat wal'' id) (\<lambda>_ w.
       if walFile w = [] then
         and_then (wrap_err ''stamp encrypted wal'' (file_Write [walEncryptedMagic])) (\<lambda>_.
         and_then (wrap_err ''sync encrypted wal stamp'' file_Sync) (\<lambda>_ w'. (Inr (Some c), w'))) w
       else
         and_then (io_call ''read wal header'' id) (\<lambda>_ w'.
           if hd (walFile w') \<noteq> walEncryptedMagic then
             (Inl (ErrOther ''existing wal is not encrypted; provide no key or re-encrypt the data directory''), w')
           else (Inr (Some c), w')) w))"

section \<open>Replay\<close>

text \<open>\<open>io.ReadFull\<close> on a reader with the bytes \<open>r\<close> left.\<close>

definition ReadFull :: "nat \<Rightarrow> bytes \<Rightarrow> bytes res \<times> bytes" where
  "ReadFull n r =
     (if n \<le> length r then (Inr (take n r), drop n r)
      else if r = [] then (Inl EOF, []) else (Inl ErrUnexpectedEOF, []))"

definition readString :: "bytes \<Rightarrow> int \<Rightarrow> (string \<times> int) res \<times> bytes" where
  "readString r remaining =
     (case ReadFull 4 r of
        (Inl e, r1) \<Rightarrow> (Inl e, r1)
      | (Inr lenBuf, r1) \<Rightarrow>
          let len = unat (Uint32 lenBuf)
          in if len > maxRecordField
             then (Inl (ErrOther (''wal record field exceeds '' @ format_nat maxRecordField @ '' bytes'')), r1)
             else if int len > remaining - 4 then (Inl ErrUnexpectedEOF, r1)
             else (case ReadFull len r1 of
                     (Inl e, r2) \<Rightarrow> (Inl e, r2)
                   | (Inr buf, r2) \<Rightarrow> (Inr (buf, 4 + int len), r2)))"

text \<open>\<open>read_field msg r rem k\<close> is one \<open>readString\<close> with its error wrapped, continued by \<open>k\<close>.\<close>

definition read_field ::
    "string \<Rightarrow> bytes \<Rightarrow> int \<Rightarrow> memstore \<Rightarrow> (string \<Rightarrow> int \<Rightarrow> bytes \<Rightarrow> int res \<times> bytes \<times> memstore)
     \<Rightarrow> int res \<times> bytes \<times> memstore" where
  "read_field msg r remaining m k =
     (case readString r remaining of
        (Inl e, r') \<Rightarrow> (Inl (Wrap msg e), r', m)
      | (Inr (x, n), r') \<Rightarrow> k x n r')"

definition applyRecord ::
    "int64 \<Rightarrow> char \<Rightarrow> bytes \<Rightarrow> int \<Rightarrow> memstore \<Rightarrow> int res \<times> bytes \<times> memstore" where
  "applyRecord now op r remaining m =
     (if op = opPut then
        read_field ''read wal put key'' r remaining m (\<lambda>key n1 r1.
        read_field ''read wal put value'' r1 (remaining - n1) m (\<lambda>val n2 r2.
          (Inr (n1 + n2), r2, mem_Put key val m)))
      else if op = opDelete then
        read_field ''read wal delete key'' r remaining m (\<lambda>key n r1.
          (Inr n, r1, mem_Delete key m))
      else if op = opClear then (Inr 0, r, mem_Clear m)
      else if op = opIncr then
        read_field ''read wal incr key'' r remaining m (\<lambda>key n r1.
          case mem_Incr now key m of
            (Inl e, m') \<Rightarrow> if \<not> errors_Is e ErrNotNumeric \<and> \<not> errors_Is e ErrOverflow
                          then (Inl (Wrap ''replay wal incr'' e), r1, m') else (Inr n, r1, m')
          | (Inr _, m') \<Rightarrow> (Inr n, r1, m'))
      else if op = opCAS then
        read_field ''read wal cas key'' r remaining m (\<lambda>key n1 r1.
        read_field ''read wal cas old'' r1 (remaining - n1) m (\<lambda>old n2 r2.
        read_field ''read wal cas new'' r2 (remaining - n1 - n2) m (\<lambda>new n3 r3.
          case mem_CAS now key old new m of
            (Inl e, m') \<Rightarrow> if \<not> errors_Is e ErrNotFound
                          then (Inl (Wrap ''replay wal cas'' e), r3, m') else (Inr (n1 + n2 + n3), r3, m')
          | (Inr _, m') \<Rightarrow> (Inr (n1 + n2 + n3), r3, m'))))
      else if op = opExpire then
        read_field ''read wal expire key'' r remaining m (\<lambda>key n1 r1.
          if remaining - n1 < 8 then (Inl (Wrap ''read wal expire ts'' ErrUnexpectedEOF), r1, m)
          else
            case ReadFull 8 r1 of
              (Inl e, r2) \<Rightarrow> (Inl (Wrap ''read wal expire ts'' e), r2, m)
            | (Inr tsBuf, r2) \<Rightarrow>
                (case mem_Expire now key (Uint64 tsBuf) m of
                   (Inl e, m') \<Rightarrow> if \<not> errors_Is e ErrNotFound
                                 then (Inl (Wrap ''replay wal expire'' e), r2, m') else (Inr (n1 + 8), r2, m')
                 | (Inr _, m') \<Rightarrow> (Inr (n1 + 8), r2, m')))
      else (Inl (ErrOther (''corrupted wal: unknown op code '' @ format_nat (of_char op))), r, m))"

lemma ReadFull_shorter: "ReadFull n r = (x, r') \<Longrightarrow> length r' \<le> length r"
  by (auto simp: ReadFull_def split: if_splits)

lemma readString_shorter: "readString r rem = (x, r') \<Longrightarrow> length r' \<le> length r"
  by (auto simp: readString_def Let_def split: prod.splits sum.splits if_splits
      dest!: ReadFull_shorter)

lemma read_field_shorter:
  assumes "read_field msg r rem m k = (x, r', m')" "length r \<le> N"
    and "\<And>s n r1. length r1 \<le> N \<Longrightarrow> k s n r1 = (x, r', m') \<Longrightarrow> length r' \<le> N"
  shows "length r' \<le> N"
proof -
  obtain y r1 where y: "readString r rem = (y, r1)" by fastforce
  have "length r1 \<le> N" using readString_shorter [OF y] assms(2) by simp
  then show ?thesis
    using assms(1,3) by (cases y) (auto simp: read_field_def y)
qed

lemma applyRecord_shorter: "applyRecord now op r rem m = (x, r', m') \<Longrightarrow> length r' \<le> length r"
  by (auto simp: applyRecord_def split: if_splits sum.splits prod.splits
      elim!: read_field_shorter dest!: ReadFull_shorter)

text \<open>The loop both formats share: an op byte, then its record.  It returns how many
  records were read, for the clock.\<close>

function replay_loop ::
    "(nat \<Rightarrow> int64) \<Rightarrow> nat \<Rightarrow> bytes \<Rightarrow> int \<Rightarrow> memstore \<Rightarrow> unit res \<times> nat \<times> memstore" where
  "replay_loop clk i [] remaining m = (Inr (), i, m)"
| "replay_loop clk i (op # r) remaining m =
     (if remaining \<le> 0 then (Inr (), i, m)
      else case applyRecord (clk i) op r (remaining - 1) m of
             (Inl e, r', m') \<Rightarrow> (Inl e, i + 1, m')
           | (Inr consumed, r', m') \<Rightarrow> replay_loop clk (i + 1) r' (remaining - 1 - consumed) m')"
  by pat_completeness auto
termination
proof (relation "measure (\<lambda>(clk, i, r, remaining, m). length r)")
qed (auto dest: applyRecord_shorter [OF sym])

declare replay_loop.simps(2) [simp del]

definition replayPlain :: "(nat \<Rightarrow> int64) \<Rightarrow> bytes \<Rightarrow> memstore \<Rightarrow> unit res \<times> memstore" where
  "replayPlain clk file m =
     (case replay_loop clk 0 file (int (length file)) m of (x, i, m') \<Rightarrow> (x, m'))"

function replay_frames ::
    "atRestCipher \<Rightarrow> (nat \<Rightarrow> int64) \<Rightarrow> nat \<Rightarrow> bytes \<Rightarrow> memstore \<Rightarrow> unit res \<times> memstore" where
  "replay_frames c clk i r m =
     (if length r < 4 then (Inr (), m)
      else
        let sealedLen = unat (Uint32 (take 4 r))
        in if sealedLen > maxRecordField * 2 + 64
           then (Inl (ErrOther (''encrypted wal record exceeds bound: '' @ format_nat sealedLen)), m)
           else
             case ReadFull sealedLen (drop 4 r) of
               (Inl e, r') \<Rightarrow> if e = EOF then (Inr (), m)
                             else (Inl (Wrap ''read encrypted wal record'' e), m)
             | (Inr sealed, r') \<Rightarrow>
                 (case Decrypt c sealed of
                    Inl e \<Rightarrow> (Inl (Wrap ''decrypt wal record'' e), m)
                  | Inr plain \<Rightarrow>
                      (case replay_loop clk i plain (int (length plain)) m of
                         (Inl e, i', m') \<Rightarrow> (Inl e, m')
                       | (Inr _, i', m') \<Rightarrow> replay_frames c clk i' r' m')))"
  by pat_completeness auto
termination
  by (relation "measure (\<lambda>(c, clk, i, r, m). length r)")
    (auto simp: ReadFull_def split: if_splits)

declare replay_frames.simps [simp del]

definition replayEncrypted ::
    "atRestCipher \<Rightarrow> (nat \<Rightarrow> int64) \<Rightarrow> bytes \<Rightarrow> memstore \<Rightarrow> unit res \<times> memstore" where
  "replayEncrypted c clk file m =
     (case file of
        [] \<Rightarrow> (Inr (), m)
      | magic # r \<Rightarrow>
          if magic \<noteq> walEncryptedMagic then (Inl (ErrOther ''encrypted wal missing header magic''), m)
          else replay_frames c clk 0 r m)"

definition Replay :: "WAL \<Rightarrow> (nat \<Rightarrow> int64) \<Rightarrow> bytes \<Rightarrow> memstore \<Rightarrow> unit res \<times> memstore" where
  "Replay c clk file m =
     (case c of Some ci \<Rightarrow> replayEncrypted ci clk file m | None \<Rightarrow> replayPlain clk file m)"

text \<open>The calls that open the file for the replay, and the replay of what it holds.\<close>

definition open_replay :: "WAL \<Rightarrow> world \<Rightarrow> unit res \<times> world" where
  "open_replay c =
     (case c of
        Some _ \<Rightarrow> io_call ''open encrypted wal for replay'' id
      | None \<Rightarrow> and_then (io_call ''open wal for replay'' id) (\<lambda>_. io_call ''stat wal for replay'' id))"

definition replay_file :: "WAL \<Rightarrow> (nat \<Rightarrow> int64) \<Rightarrow> memstore \<Rightarrow> world \<Rightarrow> memstore res \<times> world" where
  "replay_file c clk m =
     and_then (open_replay c) (\<lambda>_ w.
       (case Replay c clk (walFile w) m of (Inl e, m') \<Rightarrow> Inl e | (Inr _, m') \<Rightarrow> Inr m', w))"

section \<open>The log as a sequence of mutations\<close>

datatype wal_record =
    RecPut string string
  | RecDelete string
  | RecClear
  | RecIncr string
  | RecCAS string string string
  | RecExpire string int64

definition field_bytes :: "string \<Rightarrow> bytes" where
  "field_bytes s = be_bytes 4 (unat (of_nat (length s) :: uint32)) @ s"

fun rec_op :: "wal_record \<Rightarrow> char" where
  "rec_op (RecPut k v) = opPut"
| "rec_op (RecDelete k) = opDelete"
| "rec_op RecClear = opClear"
| "rec_op (RecIncr k) = opIncr"
| "rec_op (RecCAS k old new) = opCAS"
| "rec_op (RecExpire k d) = opExpire"

fun rec_fields :: "wal_record \<Rightarrow> bytes" where
  "rec_fields (RecPut k v) = field_bytes k @ field_bytes v"
| "rec_fields (RecDelete k) = field_bytes k"
| "rec_fields RecClear = []"
| "rec_fields (RecIncr k) = field_bytes k"
| "rec_fields (RecCAS k old new) = field_bytes k @ field_bytes old @ field_bytes new"
| "rec_fields (RecExpire k d) = field_bytes k @ be_bytes 8 (unat d)"

definition rec_bytes :: "wal_record \<Rightarrow> bytes" where
  "rec_bytes r = rec_op r # rec_fields r"

definition field_ok :: "string \<Rightarrow> bool" where
  "field_ok s \<longleftrightarrow> length s \<le> maxRecordField"

fun rec_ok :: "wal_record \<Rightarrow> bool" where
  "rec_ok (RecPut k v) = (field_ok k \<and> field_ok v)"
| "rec_ok (RecDelete k) = field_ok k"
| "rec_ok RecClear = True"
| "rec_ok (RecIncr k) = field_ok k"
| "rec_ok (RecCAS k old new) = (field_ok k \<and> field_ok old \<and> field_ok new)"
| "rec_ok (RecExpire k d) = field_ok k"

text \<open>What a record does to the store when it is applied at clock reading \<open>now\<close>.\<close>

fun rec_apply :: "int64 \<Rightarrow> wal_record \<Rightarrow> memstore \<Rightarrow> memstore" where
  "rec_apply now (RecPut k v) m = mem_Put k v m"
| "rec_apply now (RecDelete k) m = mem_Delete k m"
| "rec_apply now RecClear m = mem_Clear m"
| "rec_apply now (RecIncr k) m = snd (mem_Incr now k m)"
| "rec_apply now (RecCAS k old new) m = snd (mem_CAS now k old new m)"
| "rec_apply now (RecExpire k d) m = snd (mem_Expire now k d m)"

primrec recs_apply :: "(nat \<Rightarrow> int64) \<Rightarrow> nat \<Rightarrow> wal_record list \<Rightarrow> memstore \<Rightarrow> memstore" where
  "recs_apply clk i [] m = m"
| "recs_apply clk i (r # rs) m = recs_apply clk (i + 1) rs (rec_apply (clk i) r m)"

definition recs_bytes :: "wal_record list \<Rightarrow> bytes" where
  "recs_bytes rs = concat (map rec_bytes rs)"

lemma recs_apply_append:
  "recs_apply clk i (rs @ rs') m = recs_apply clk (i + length rs) rs' (recs_apply clk i rs m)"
  by (induction rs arbitrary: i m) auto

lemma recs_bytes_simps [simp]:
  "recs_bytes [] = []" "recs_bytes (r # rs) = rec_bytes r @ recs_bytes rs"
  "recs_bytes (rs @ rs') = recs_bytes rs @ recs_bytes rs'"
  by (simp_all add: recs_bytes_def)

text \<open>Every append writes the bytes of its record.\<close>

lemma Append_rec_bytes:
  "AppendPut c k v = wal_append c (rec_bytes (RecPut k v))"
  "AppendDelete c k = wal_append c (rec_bytes (RecDelete k))"
  "AppendClear c = wal_append c (rec_bytes RecClear)"
  "AppendIncr c k = wal_append c (rec_bytes (RecIncr k))"
  "AppendCAS c k old new = wal_append c (rec_bytes (RecCAS k old new))"
  "AppendExpire c k d = wal_append c (rec_bytes (RecExpire k d))"
  by (simp_all add: AppendPut_def AppendDelete_def AppendClear_def AppendIncr_def AppendCAS_def
      AppendExpire_def AppendUint32_def AppendUint64_def Let_def rec_bytes_def field_bytes_def)

section \<open>Replay undoes append\<close>

lemma field_len: "field_ok s \<Longrightarrow> unat (of_nat (length s) :: uint32) = length s"
  by (rule unat_of_nat_uint32) (simp add: field_ok_def maxRecordField_def)

lemma readString_field:
  assumes "field_ok s" "4 + int (length s) \<le> rem"
  shows "readString (field_bytes s @ rest) rem = (Inr (s, 4 + int (length s)), rest)"
proof -
  have "Uint32 (be_bytes 4 (length s)) = of_nat (length s)"
    using Uint32_be_bytes [of "of_nat (length s)"] field_len [OF assms(1)] by simp
  with assms field_len [OF assms(1)] show ?thesis
    by (simp add: readString_def ReadFull_def field_bytes_def field_ok_def Let_def)
qed

lemma length_field_bytes [simp]: "length (field_bytes s) = 4 + length s"
  by (simp add: field_bytes_def)

lemma op_distinct [simp]:
  "opDelete \<noteq> opPut" "opClear \<noteq> opPut" "opClear \<noteq> opDelete" "opIncr \<noteq> opPut" "opIncr \<noteq> opDelete"
  "opIncr \<noteq> opClear" "opCAS \<noteq> opPut" "opCAS \<noteq> opDelete" "opCAS \<noteq> opClear" "opCAS \<noteq> opIncr"
  "opExpire \<noteq> opPut" "opExpire \<noteq> opDelete" "opExpire \<noteq> opClear" "opExpire \<noteq> opIncr" "opExpire \<noteq> opCAS"
  by (simp_all add: opPut_def opDelete_def opClear_def opIncr_def opCAS_def opExpire_def)

lemmas op_distinct_sym [simp] = op_distinct [symmetric]

lemma mem_Incr_errors: "mem_Incr now k m = (Inl e, m') \<Longrightarrow> e = ErrNotNumeric \<or> e = ErrOverflow"
  by (auto simp: mem_Incr_def Let_def split: option.splits if_splits)

lemma mem_CAS_errors: "mem_CAS now k old new m = (Inl e, m') \<Longrightarrow> e = ErrNotFound"
  by (auto simp: mem_CAS_def Let_def split: option.splits if_splits)

lemma mem_Expire_errors: "mem_Expire now k d m = (Inl e, m') \<Longrightarrow> e = ErrNotFound"
  by (auto simp: mem_Expire_def Let_def split: option.splits if_splits)

lemma applyRecord_rec:
  assumes "rec_ok rc" "int (length (rec_fields rc)) \<le> rem"
  shows "applyRecord now (rec_op rc) (rec_fields rc @ rest) rem m =
    (Inr (int (length (rec_fields rc))), rest, rec_apply now rc m)"
  using assms
  by (cases rc)
    (auto simp: applyRecord_def read_field_def readString_field ReadFull_def
      split: prod.splits sum.splits dest: mem_Incr_errors mem_CAS_errors mem_Expire_errors)

lemma replay_loop_rec:
  assumes "rec_ok rc" "int (length (rec_bytes rc)) \<le> rem"
  shows "replay_loop clk i (rec_bytes rc @ rest) rem m =
    replay_loop clk (i + 1) rest (rem - int (length (rec_bytes rc))) (rec_apply (clk i) rc m)"
  using assms applyRecord_rec [OF assms(1), of "rem - 1" "clk i" rest m]
  by (simp add: rec_bytes_def replay_loop.simps diff_diff_eq)

lemma replay_loop_recs:
  assumes "list_all rec_ok rs" "int (length (recs_bytes rs)) \<le> rem"
  shows "replay_loop clk i (recs_bytes rs @ rest) rem m =
    replay_loop clk (i + length rs) rest (rem - int (length (recs_bytes rs))) (recs_apply clk i rs m)"
  using assms
proof (induction rs arbitrary: i rem m)
  case (Cons rc rs)
  then show ?case
    using replay_loop_rec [of rc rem clk i "recs_bytes rs @ rest" m]
    by (simp add: diff_diff_eq)
qed simp

lemma replayPlain_recs:
  assumes "list_all rec_ok rs"
  shows "replayPlain clk (recs_bytes rs) m = (Inr (), recs_apply clk 0 rs m)"
  using replay_loop_recs [OF assms, of "int (length (recs_bytes rs))" clk 0 "[]" m]
  by (simp add: replayPlain_def)

section \<open>A record cut short\<close>

lemma readString_torn:
  assumes "field_ok s" "j < 4 + length s"
  shows "\<exists>e r. readString (take j (field_bytes s)) (int j) = (Inl e, r)"
proof (cases "j < 4")
  case True
  then show ?thesis by (auto simp: readString_def ReadFull_def)
next
  case False
  then obtain i where i: "j = 4 + i" by (metis le_Suc_ex not_less)
  have "Uint32 (be_bytes 4 (length s)) = of_nat (length s)"
    using Uint32_be_bytes [of "of_nat (length s)"] field_len [OF assms(1)] by simp
  with assms field_len [OF assms(1)] show ?thesis
    by (simp add: i readString_def ReadFull_def field_bytes_def field_ok_def Let_def)
qed

lemma read_field_torn:
  assumes "field_ok s" "j < 4 + length s"
  shows "\<exists>e r. read_field msg (take j (field_bytes s @ rest)) (int j) m k = (Inl e, r, m)"
  using readString_torn [OF assms] assms(2) by (auto simp: read_field_def)

lemma read_field_whole:
  assumes "field_ok s" "4 + length s \<le> j"
  shows "read_field msg (take j (field_bytes s @ rest)) (int j) m k =
    k s (4 + int (length s)) (take (j - (4 + length s)) rest)"
  using assms readString_field [OF assms(1)] by (simp add: read_field_def)

lemma applyRecord_torn:
  assumes "rec_ok rc" "j < length (rec_fields rc)"
  shows "\<exists>e r. applyRecord now (rec_op rc) (take j (rec_fields rc)) (int j) m = (Inl e, r, m)"
proof -
  have second: "\<exists>e r. read_field msg (take j (field_bytes a @ field_bytes b @ rest)) (int j) m
        (\<lambda>x n r1. read_field msg' r1 (int j - n) m (k x n)) = (Inl e, r, m)"
    if "field_ok a" "field_ok b" "j < 8 + length a + length b" for msg msg' a b k and rest :: bytes
  proof (cases "j < 4 + length a")
    case True
    then show ?thesis by (rule read_field_torn [OF that(1)])
  next
    case False
    define i where "i = j - (4 + length a)"
    have i: "int j - (4 + int (length a)) = int i" "i < 4 + length b"
      using False that(3) by (auto simp: i_def)
    from read_field_torn [OF that(2) i(2)] False show ?thesis
      by (simp add: read_field_whole [OF that(1)] i(1) del: take_append flip: i_def)
  qed
  show ?thesis
  proof (cases rc)
    case (RecPut k v)
    with assms second [where a = k and b = v and rest = "[]"] show ?thesis by (auto simp: applyRecord_def)
  next
    case (RecDelete k)
    with assms read_field_torn [of k j _ "[]"] show ?thesis by (auto simp: applyRecord_def)
  next
    case (RecIncr k)
    with assms read_field_torn [of k j _ "[]"] show ?thesis by (auto simp: applyRecord_def)
  next
    case (RecCAS k old new)
    show ?thesis
    proof (cases "j < 8 + length k + length old")
      case True
      with assms RecCAS second [where a = k and b = old and rest = "field_bytes new"] show ?thesis
        by (auto simp: applyRecord_def)
    next
      case False
      then obtain i where i: "j = 8 + length k + length old + i" by (metis le_Suc_ex not_less)
      have "i < 4 + length new" using assms RecCAS i by simp
      from read_field_torn [OF _ this, of _ "[]"] assms RecCAS i show ?thesis
        by (auto simp: applyRecord_def read_field_def [of _ "field_bytes _ @ _"] readString_field)
    qed
  next
    case (RecExpire k d)
    show ?thesis
    proof (cases "j < 4 + length k")
      case True
      with assms RecExpire read_field_torn [of k j _ "be_bytes 8 (unat d)"] show ?thesis
        by (auto simp: applyRecord_def)
    next
      case False
      with assms RecExpire show ?thesis
        by (auto simp: applyRecord_def read_field_whole [of k] simp del: take_append)
    qed
  qed (use assms in simp)
qed

text \<open>A log that ends inside a record is refused, after its whole records were applied.\<close>

lemma replayPlain_torn:
  assumes "list_all rec_ok rs" "rec_ok rc" "0 < n" "n < length (rec_bytes rc)"
  shows "\<exists>e. replayPlain clk (recs_bytes rs @ take n (rec_bytes rc)) m = (Inl e, recs_apply clk 0 rs m)"
proof -
  obtain j where j: "n = Suc j" "j < length (rec_fields rc)"
    using assms(3,4) by (cases n) (auto simp: rec_bytes_def)
  obtain e r where "applyRecord (clk (length rs)) (rec_op rc) (take j (rec_fields rc)) (int j) (recs_apply clk 0 rs m) =
      (Inl e, r, recs_apply clk 0 rs m)"
    using applyRecord_torn [OF assms(2) j(2)] by blast
  then show ?thesis
    using replay_loop_recs [OF assms(1), of "int (length (recs_bytes rs @ take n (rec_bytes rc)))" clk 0 "take n (rec_bytes rc)" m] j
    by (auto simp: replayPlain_def rec_bytes_def replay_loop.simps)
qed

section \<open>Sealed logs\<close>

definition frame_bytes :: "atRestCipher \<Rightarrow> bytes \<times> wal_record \<Rightarrow> bytes" where
  "frame_bytes c nr =
     (let sealed = fst nr @ aSeal (aead c) (fst nr) (rec_bytes (snd nr))
      in be_bytes 4 (unat (of_nat (length sealed) :: uint32)) @ sealed)"

text \<open>A frame that replay accepts: a full nonce, fields in bounds, and a sealed length
  within the reader's bound.\<close>

definition frame_ok :: "bytes \<times> wal_record \<Rightarrow> bool" where
  "frame_ok nr \<longleftrightarrow> length (fst nr) = atRestNonceSize \<and> rec_ok (snd nr) \<and>
     length (rec_bytes (snd nr)) + 28 \<le> maxRecordField * 2 + 64"

lemma frame_ok_small:
  "length n = atRestNonceSize \<Longrightarrow> rec_ok rc \<Longrightarrow> (\<forall>k old new. rc \<noteq> RecCAS k old new) \<Longrightarrow> frame_ok (n, rc)"
  by (cases rc) (auto simp: frame_ok_def rec_bytes_def field_ok_def maxRecordField_def)

lemma frame_len:
  assumes "aead_ok (aead c)" "frame_ok nr"
  shows "frame_bytes c nr = be_bytes 4 (length (rec_bytes (snd nr)) + 28) @
      fst nr @ aSeal (aead c) (fst nr) (rec_bytes (snd nr))"
    and "unat (Uint32 (be_bytes 4 (length (rec_bytes (snd nr)) + 28))) = length (rec_bytes (snd nr)) + 28"
    and "length (fst nr @ aSeal (aead c) (fst nr) (rec_bytes (snd nr))) = length (rec_bytes (snd nr)) + 28"
proof -
  let ?n = "length (rec_bytes (snd nr)) + 28"
  show len: "length (fst nr @ aSeal (aead c) (fst nr) (rec_bytes (snd nr))) = ?n"
    using assms by (simp add: frame_ok_def aead_okD atRestNonceSize_def)
  have "?n < 2 ^ 32" using assms(2) by (simp add: frame_ok_def maxRecordField_def)
  then have u: "unat (of_nat ?n :: uint32) = ?n" by (rule unat_of_nat_uint32)
  then show "frame_bytes c nr = be_bytes 4 ?n @ fst nr @ aSeal (aead c) (fst nr) (rec_bytes (snd nr))"
    unfolding frame_bytes_def Let_def len u by simp
  show "unat (Uint32 (be_bytes 4 ?n)) = ?n"
    using Uint32_be_bytes [of "of_nat ?n"] unfolding u by (simp only: u)
qed

lemma Decrypt_frame:
  assumes "aead_ok (aead c)" "frame_ok nr"
  shows "Decrypt c (fst nr @ aSeal (aead c) (fst nr) p) = Inr p"
  using assms by (simp add: Decrypt_def frame_ok_def aead_okD)

lemma replay_frames_one:
  assumes "aead_ok (aead c)" "frame_ok nr"
  shows "replay_frames c clk i (frame_bytes c nr @ rest) m =
    replay_frames c clk (i + 1) rest (rec_apply (clk i) (snd nr) m)"
proof -
  let ?b = "rec_bytes (snd nr)"
  have "replay_loop clk i ?b (int (length ?b)) m = (Inr (), i + 1, rec_apply (clk i) (snd nr) m)"
    using assms(2) replay_loop_rec [of "snd nr" "int (length ?b)" clk i "[]" m] by (simp add: frame_ok_def)
  moreover have "ReadFull (length ?b + 28) ((fst nr @ aSeal (aead c) (fst nr) ?b) @ rest) =
      (Inr (fst nr @ aSeal (aead c) (fst nr) ?b), rest)"
    using frame_len(3) [OF assms] by (simp add: ReadFull_def)
  moreover have "length ?b + 28 \<le> maxRecordField * 2 + 64" using assms(2) by (simp add: frame_ok_def)
  ultimately show ?thesis
    using frame_len(1,2) [OF assms] Decrypt_frame [OF assms, of ?b]
    by (subst replay_frames.simps) (simp add: Let_def)
qed

lemma replay_frames_recs:
  assumes "aead_ok (aead c)" "list_all frame_ok fs"
  shows "replay_frames c clk i (concat (map (frame_bytes c) fs) @ rest) m =
    replay_frames c clk (i + length fs) rest (recs_apply clk i (map snd fs) m)"
  using assms(2)
  by (induction fs arbitrary: i m) (simp_all add: replay_frames_one [OF assms(1)])

lemma replayEncrypted_recs:
  assumes "aead_ok (aead c)" "list_all frame_ok fs"
  shows "replayEncrypted c clk (walEncryptedMagic # concat (map (frame_bytes c) fs)) m =
    (Inr (), recs_apply clk 0 (map snd fs) m)"
  using replay_frames_recs [OF assms, of clk 0 "[]" m]
  by (simp add: replayEncrypted_def replay_frames.simps [of c clk _ "[]"])

text \<open>A tail cut inside the length header, or right after it, is skipped; one cut inside the
  sealed body stops the replay with an error.\<close>

lemma replayEncrypted_torn:
  assumes "aead_ok (aead c)" "list_all frame_ok fs" "frame_ok nr" "n < length (frame_bytes c nr)"
  shows "replayEncrypted c clk (walEncryptedMagic # concat (map (frame_bytes c) fs) @ take n (frame_bytes c nr)) m =
    ((if n \<le> 4 then Inr () else Inl (Wrap ''read encrypted wal record'' ErrUnexpectedEOF)),
     recs_apply clk 0 (map snd fs) m)"
proof -
  let ?b = "rec_bytes (snd nr)" and ?s = "fst nr @ aSeal (aead c) (fst nr) (rec_bytes (snd nr))"
  note fl = frame_len [OF assms(1,3)]
  have "replay_frames c clk i (take n (frame_bytes c nr)) m' =
      ((if n \<le> 4 then Inr () else Inl (Wrap ''read encrypted wal record'' ErrUnexpectedEOF)), m')" for i m'
  proof (cases "n < 4")
    case True
    then show ?thesis using assms(4) by (subst replay_frames.simps) simp
  next
    case False
    then have t: "take n (frame_bytes c nr) = be_bytes 4 (length ?b + 28) @ take (n - 4) ?s"
      unfolding fl(1) by simp
    have rf: "ReadFull (length ?b + 28) (take (n - 4) ?s) =
        (Inl (if n \<le> 4 then EOF else ErrUnexpectedEOF), [])"
      using assms(4) fl(1,3) False by (auto simp: ReadFull_def)
    moreover have "length ?b + 28 \<le> maxRecordField * 2 + 64" using assms(3) by (simp add: frame_ok_def)
    ultimately show ?thesis
      unfolding t using fl(2) by (subst replay_frames.simps) (auto simp: Let_def)
  qed
  then show ?thesis
    using replay_frames_recs [OF assms(1,2)] by (simp add: replayEncrypted_def)
qed

end
