(* ===== verification/Snapshot.thy ===== *)
theory Snapshot
  imports Json Wal
begin

text \<open>
  pkg/storage/snapshot.go, the file format: the version-2 envelope written by
  \<open>saveSnapshot\<close> and \<open>SerializeSnapshot\<close>, and \<open>decodeSnapshot\<close>, which also migrates the
  version-1 format (a bare map of strings).  Both formats are shown to be read back.
\<close>

section \<open>Encoding\<close>

definition snapshotVersion :: int64 where
  "snapshotVersion = 2"

record snapshotFile =
  sfV :: int64
  sfData :: "(string, entry) fmap option"

text \<open>The struct tags: \<open>value\<close>, and \<open>exp\<close> with \<open>omitempty\<close>.\<close>

definition entry_json :: "entry \<Rightarrow> json" where
  "entry_json e =
     JObj ((''value'', JStr (eValue e)) # (if eExp e = 0 then [] else [(''exp'', JNum (FormatInt (eExp e)))]))"

definition data_json :: "(string, entry) fmap \<Rightarrow> json" where
  "data_json d = JObj (map (\<lambda>(k, e). (k, entry_json e)) (sorted_list_of_fmap d))"

definition snapshotFile_json :: "snapshotFile \<Rightarrow> json" where
  "snapshotFile_json sf =
     JObj [(''v'', JNum (FormatInt (sfV sf))),
           (''data'', case sfData sf of None \<Rightarrow> JNull | Some d \<Rightarrow> data_json d)]"

definition marshal_snapshot :: "(string, entry) fmap \<Rightarrow> bytes" where
  "marshal_snapshot d = json_text (snapshotFile_json \<lparr>sfV = snapshotVersion, sfData = Some d\<rparr>)"

section \<open>Decoding\<close>

definition dec_entry :: "json \<Rightarrow> entry \<Rightarrow> entry option" where
  "dec_entry = dec_struct
     [(''value'', \<lambda>j e. map_option (\<lambda>v. e\<lparr>eValue := v\<rparr>) (dec_string j (eValue e))),
      (''exp'', \<lambda>j e. map_option (\<lambda>x. e\<lparr>eExp := x\<rparr>) (dec_int64 j (eExp e)))]"

definition dec_snapshotFile :: "json \<Rightarrow> snapshotFile \<Rightarrow> snapshotFile option" where
  "dec_snapshotFile = dec_struct
     [(''v'', \<lambda>j sf. map_option (\<lambda>x. sf\<lparr>sfV := x\<rparr>) (dec_int64 j (sfV sf))),
      (''data'', \<lambda>j sf. map_option (\<lambda>d. sf\<lparr>sfData := d\<rparr>)
         (dec_map dec_entry \<lparr>eValue = '''', eExp = 0\<rparr> j (sfData sf)))]"

definition unmarshal_snapshotFile :: "bytes \<Rightarrow> snapshotFile option" where
  "unmarshal_snapshotFile data =
     (case json_parse data of
        None \<Rightarrow> None
      | Some j \<Rightarrow> dec_snapshotFile j \<lparr>sfV = 0, sfData = None\<rparr>)"

definition unmarshal_v1 :: "bytes \<Rightarrow> (string, string) fmap option option" where
  "unmarshal_v1 data =
     (case json_parse data of
        None \<Rightarrow> None
      | Some j \<Rightarrow> dec_map dec_string '''' j None)"

definition add_all :: "('a \<Rightarrow> entry) \<Rightarrow> (string, 'a) fmap option \<Rightarrow> (string, entry) fmap \<Rightarrow> (string, entry) fmap" where
  "add_all f src dst =
     (case src of
        None \<Rightarrow> dst
      | Some s \<Rightarrow> fold (\<lambda>(k, x). fmupd k (f x)) (sorted_list_of_fmap s) dst)"

text \<open>The text of a JSON error is not modelled.\<close>

definition decodeSnapshot :: "bytes \<Rightarrow> (string, entry) fmap \<Rightarrow> (string, entry) fmap res" where
  "decodeSnapshot data dst =
     (case unmarshal_snapshotFile data of
        Some sf \<Rightarrow>
          if sint (sfV sf) > 0 \<or> sfData sf \<noteq> None then Inr (add_all id (sfData sf) dst)
          else (case unmarshal_v1 data of
                  None \<Rightarrow> Inl (Wrap ''unmarshal snapshot'' (ErrOther ''json''))
                | Some v1 \<Rightarrow> Inr (add_all (\<lambda>v. \<lparr>eValue = v, eExp = 0\<rparr>) v1 dst))
      | None \<Rightarrow>
          (case unmarshal_v1 data of
             None \<Rightarrow> Inl (Wrap ''unmarshal snapshot'' (ErrOther ''json''))
           | Some v1 \<Rightarrow> Inr (add_all (\<lambda>v. \<lparr>eValue = v, eExp = 0\<rparr>) v1 dst)))"

section \<open>Round trip\<close>

definition utf8_data :: "(string, entry) fmap \<Rightarrow> bool" where
  "utf8_data d \<longleftrightarrow>
     (\<forall>k e. fmlookup d k = Some e \<longrightarrow> valid_utf8 k \<and> valid_utf8 (eValue e))"

lemma add_all_id: "add_all id (Some d) fmempty = d"
  by (simp add: add_all_def fold_sorted_list_of_fmap)

lemma wf_entry_json [simp]: "wf_json (entry_json e)"
  by (auto simp: entry_json_def)

lemma wf_snapshot_json: "wf_json (snapshotFile_json \<lparr>sfV = v, sfData = Some d\<rparr>)"
  by (auto simp: snapshotFile_json_def data_json_def)

lemma norm_entry_json: "valid_utf8 (eValue e) \<Longrightarrow> json_norm (entry_json e) = entry_json e"
proof -
  have "coerce_utf8 ''value'' = ''value''" "coerce_utf8 ''exp'' = ''exp''" by code_simp+
  then show "valid_utf8 (eValue e) \<Longrightarrow> json_norm (entry_json e) = entry_json e"
    by (simp add: entry_json_def coerce_valid)
qed

lemma norm_snapshot_json:
  assumes "utf8_data d"
  shows "json_norm (snapshotFile_json \<lparr>sfV = v, sfData = Some d\<rparr>) = snapshotFile_json \<lparr>sfV = v, sfData = Some d\<rparr>"
proof -
  have "coerce_utf8 ''v'' = ''v''" "coerce_utf8 ''data'' = ''data''" by code_simp+
  moreover have "map (\<lambda>(k, e). (coerce_utf8 k, json_norm (entry_json e))) (sorted_list_of_fmap d) =
      map (\<lambda>(k, e). (k, entry_json e)) (sorted_list_of_fmap d)"
    using assms
    by (auto simp: set_sorted_list_of_fmap utf8_data_def coerce_valid norm_entry_json)
  ultimately show ?thesis
    by (simp add: snapshotFile_json_def data_json_def comp_def case_prod_unfold)
qed

lemma dec_entry_json: "dec_entry (entry_json e) \<lparr>eValue = '''', eExp = 0\<rparr> = Some e"
  by (cases e) (simp add: dec_entry_def entry_json_def find_field_def ParseInt_FormatInt)

lemma dec_snapshotFile_json:
  "dec_snapshotFile (snapshotFile_json \<lparr>sfV = v, sfData = Some d\<rparr>) \<lparr>sfV = 0, sfData = None\<rparr> =
   Some \<lparr>sfV = v, sfData = Some d\<rparr>"
proof -
  have "dec_entries dec_entry \<lparr>eValue = '''', eExp = 0\<rparr>
      (map (\<lambda>(k, e). (k, entry_json e)) (sorted_list_of_fmap d)) fmempty = Some d"
    using dec_entries_map [where kvs = "sorted_list_of_fmap d" and d = dec_entry and enc = entry_json]
    by (simp add: dec_entry_json fold_sorted_list_of_fmap)
  then show ?thesis
    by (simp add: dec_snapshotFile_def snapshotFile_json_def data_json_def find_field_def ParseInt_FormatInt)
qed

lemma decode_marshal_snapshot:
  assumes "utf8_data d"
  shows "decodeSnapshot (marshal_snapshot d) fmempty = Inr d"
  using json_parse_text [OF wf_snapshot_json, of snapshotVersion d]
  by (simp add: decodeSnapshot_def unmarshal_snapshotFile_def marshal_snapshot_def
      norm_snapshot_json [OF assms] dec_snapshotFile_json add_all_id)

section \<open>Migration of version 1\<close>

definition v1_json :: "(string, string) fmap \<Rightarrow> json" where
  "v1_json d = JObj (map (\<lambda>(k, v). (k, JStr v)) (sorted_list_of_fmap d))"

lemma find_field_in:
  assumes "find_field fs k = Some d"
  shows "d \<in> snd ` set fs"
proof -
  have "\<exists>n. (n, d) \<in> set fs"
    using assms by (auto simp: find_field_def split: option.splits dest!: map_of_SomeD)
  then show ?thesis by force
qed

text \<open>No member of a version-1 file decodes as \<open>v\<close> or \<open>data\<close>: those fail on a string, and
  the rest is skipped.\<close>

lemma dec_snapshotFile_strings:
  "dec_snapshotFile (JObj (map (\<lambda>(k, v). (k, JStr v)) kvs)) sf \<in> {None, Some sf}"
proof (induction kvs)
  case (Cons kv kvs)
  obtain k v where kv: "kv = (k, v)" by fastforce
  let ?fields = "[(''v'', \<lambda>j sf. map_option (\<lambda>x. sf\<lparr>sfV := x\<rparr>) (dec_int64 j (sfV sf))),
      (''data'', \<lambda>j sf. map_option (\<lambda>d. sf\<lparr>sfData := d\<rparr>)
         (dec_map dec_entry \<lparr>eValue = '''', eExp = 0\<rparr> j (sfData sf)))]"
  have "d (JStr v) sf = None" if "find_field ?fields k = Some d" for d
    using find_field_in [OF that] by auto
  then show ?case
    using Cons by (auto simp: kv dec_snapshotFile_def split: option.splits)
qed (simp add: dec_snapshotFile_def)

lemma decode_v1:
  assumes "\<And>k v. fmlookup d k = Some v \<Longrightarrow> valid_utf8 k \<and> valid_utf8 v"
  shows "decodeSnapshot (json_text (v1_json d)) fmempty = Inr (fmmap (\<lambda>v. \<lparr>eValue = v, eExp = 0\<rparr>) d)"
proof -
  let ?l = "sorted_list_of_fmap d" and ?e = "\<lambda>v. \<lparr>eValue = v, eExp = 0\<rparr>"
  have "map (\<lambda>(k, v). (coerce_utf8 k, JStr (coerce_utf8 v))) ?l = map (\<lambda>(k, v). (k, JStr v)) ?l"
    using assms by (auto simp: set_sorted_list_of_fmap coerce_valid)
  then have "json_norm (v1_json d) = v1_json d"
    by (simp add: v1_json_def comp_def case_prod_unfold)
  moreover have "wf_json (v1_json d)" by (auto simp: v1_json_def)
  ultimately have parse: "json_parse (json_text (v1_json d)) = Some (v1_json d)"
    using json_parse_text by simp
  have "dec_entries dec_string '''' (map (\<lambda>(k, v). (k, JStr v)) ?l) fmempty = Some d"
    using dec_entries_map [where kvs = ?l and d = dec_string and enc = JStr]
    by (simp add: fold_sorted_list_of_fmap)
  then have v1: "unmarshal_v1 (json_text (v1_json d)) = Some (Some d)"
    by (simp add: unmarshal_v1_def parse) (simp add: v1_json_def)
  have f1: "fold (\<lambda>(k, x). fmupd k (?e x)) xs m = fold (\<lambda>(k, x). fmupd k x) (map (apsnd ?e) xs) m" for xs m
    by (induction xs arbitrary: m) (auto simp: apsnd_def map_prod_def)
  have f2: "map (apsnd ?e) ?l = sorted_list_of_fmap (fmmap ?e d)"
    by (simp add: sorted_list_of_fmap_def comp_def fmdom_map fmdomE cong: map_cong)
      (metis (no_types, lifting) fmdomE fmdom_notD option.map(2) option.sel)
  have add: "add_all ?e (Some d) fmempty = fmmap ?e d"
    by (simp only: add_all_def option.case f1 f2 fold_sorted_list_of_fmap)
  show ?thesis
    using dec_snapshotFile_strings [of ?l "\<lparr>sfV = 0, sfData = None\<rparr>"] parse v1 add
    by (auto simp: decodeSnapshot_def unmarshal_snapshotFile_def v1_json_def)
qed

end
