(* ===== verification/DiskStore.thy ===== *)
theory DiskStore
  imports Snapshot
begin

text \<open>
  The durable store: \<open>DiskStore\<close> of pkg/storage/wal.go, the write batching of
  pkg/storage/batcher.go and the compaction of pkg/storage/snapshot.go.  The three
  background goroutines are step functions on the store: the batch loop reacts to a
  received request, its timer, and the closing of its channel; the snapshot and expiry
  loops to their tickers.  \<open>snapMu\<close> makes each step atomic with respect to the others.
  A request processed alone meets the \<open>Engine\<close> contract (interpretation \<open>disk\<close>).
\<close>

section \<open>State\<close>

record DiskStore =
  dmem :: memstore
  dcipher :: WAL
  dworld :: world
  dclosed :: bool

record batchRequest =
  brOp :: char
  brKey :: string
  brOld :: string
  brValue :: string
  brExpiresAt :: int64

text \<open>\<open>req.result\<close>, of type \<open>any\<close>.\<close>

datatype brResult = RNil | RInt int64 | RBool bool

type_synonym reply = "brResult res"

definition on_wal :: "(WAL \<Rightarrow> world \<Rightarrow> 'a res \<times> world) \<Rightarrow> DiskStore \<Rightarrow> 'a res \<times> DiskStore" where
  "on_wal f s = (case f (dcipher s) (dworld s) of (x, w) \<Rightarrow> (x, s\<lparr>dworld := w\<rparr>))"

section \<open>Batching\<close>

definition maxBatchSize :: nat where
  "maxBatchSize = 1000"

text \<open>\<open>writeSingle\<close> makes up to three clock readings, \<open>clk 0\<close>, \<open>clk 1\<close>, \<open>clk 2\<close>, in order.\<close>

definition writeSingle :: "(nat \<Rightarrow> int64) \<Rightarrow> batchRequest \<Rightarrow> DiskStore \<Rightarrow> reply \<times> DiskStore" where
  "writeSingle clk req s =
     (if brOp req = opIncr then
        and_then (on_wal (\<lambda>c. AppendIncr c (brKey req))) (\<lambda>_.
        and_then (on_wal (\<lambda>c. wal_Sync)) (\<lambda>_ s1.
          case mem_Incr (clk 0) (brKey req) (dmem s1) of
            (Inl e, m) \<Rightarrow> (Inl e, s1\<lparr>dmem := m\<rparr>)
          | (Inr v, m) \<Rightarrow> (Inr (RInt v), s1\<lparr>dmem := m\<rparr>))) s
      else if brOp req = opCAS then
        (case mem_Get (clk 0) (clk 1) (brKey req) (dmem s) of
           (Inl gerr, m) \<Rightarrow>
             if errors_Is gerr ErrNotFound then (Inl ErrNotFound, s\<lparr>dmem := m\<rparr>)
             else (Inl gerr, s\<lparr>dmem := m\<rparr>)
         | (Inr cur, m) \<Rightarrow>
             if cur \<noteq> brOld req then (Inr (RBool False), s\<lparr>dmem := m\<rparr>)
             else
               and_then (on_wal (\<lambda>c. AppendCAS c (brKey req) (brOld req) (brValue req))) (\<lambda>_.
               and_then (on_wal (\<lambda>c. wal_Sync)) (\<lambda>_ s1.
                 (Inr (RBool True), s1\<lparr>dmem := mem_Put (brKey req) (brValue req) (dmem s1)\<rparr>)))
               (s\<lparr>dmem := m\<rparr>))
      else if brOp req = opExpire then
        (case mem_Get (clk 0) (clk 1) (brKey req) (dmem s) of
           (Inl gerr, m) \<Rightarrow>
             if errors_Is gerr ErrNotFound then (Inl ErrNotFound, s\<lparr>dmem := m\<rparr>)
             else (Inl gerr, s\<lparr>dmem := m\<rparr>)
         | (Inr _, m) \<Rightarrow>
             and_then (on_wal (\<lambda>c. AppendExpire c (brKey req) (brExpiresAt req))) (\<lambda>_.
             and_then (on_wal (\<lambda>c. wal_Sync)) (\<lambda>_ s1.
               case mem_Expire (clk 2) (brKey req) (brExpiresAt req) (dmem s1) of
                 (Inl e, m') \<Rightarrow> (Inl e, s1\<lparr>dmem := m'\<rparr>)
               | (Inr _, m') \<Rightarrow> (Inr RNil, s1\<lparr>dmem := m'\<rparr>)))
             (s\<lparr>dmem := m\<rparr>))
      else (Inl (ErrOther ''storage: unexpected single op''), s))"

text \<open>The two loops of \<open>writeBatch\<close>: append until one fails, then apply all.\<close>

definition append_req :: "WAL \<Rightarrow> batchRequest \<Rightarrow> world \<Rightarrow> unit res \<times> world" where
  "append_req c req =
     (if brOp req = opPut then AppendPut c (brKey req) (brValue req)
      else if brOp req = opDelete then AppendDelete c (brKey req)
      else if brOp req = opClear then AppendClear c
      else (\<lambda>w. (Inr (), w)))"

fun append_reqs :: "WAL \<Rightarrow> batchRequest list \<Rightarrow> world \<Rightarrow> unit res \<times> world" where
  "append_reqs c [] w = (Inr (), w)"
| "append_reqs c (req # reqs) w = and_then (append_req c req) (\<lambda>_. append_reqs c reqs) w"

definition apply_req :: "batchRequest \<Rightarrow> memstore \<Rightarrow> memstore" where
  "apply_req req m =
     (if brOp req = opPut then mem_Put (brKey req) (brValue req) m
      else if brOp req = opDelete then mem_Delete (brKey req) m
      else if brOp req = opClear then mem_Clear m
      else m)"

definition writeBatch :: "batchRequest list \<Rightarrow> DiskStore \<Rightarrow> (batchRequest \<times> reply) list \<times> DiskStore" where
  "writeBatch batch s =
     (if batch = [] then ([], s)
      else
        case and_then (on_wal (\<lambda>c. append_reqs c batch)) (\<lambda>_. on_wal (\<lambda>c. wal_Sync)) s of
          (Inl e, s1) \<Rightarrow> (map (\<lambda>req. (req, Inl e)) batch, s1)
        | (Inr _, s1) \<Rightarrow> (map (\<lambda>req. (req, Inr RNil)) batch, s1\<lparr>dmem := fold apply_req batch (dmem s1)\<rparr>))"

text \<open>The batch loop.  \<open>lreplies\<close> is what went to the requests' error channels so far.\<close>

record batch_loop =
  lstore :: DiskStore
  lbatch :: "batchRequest list"
  ltimer :: bool
  ldone :: bool
  lreplies :: "(batchRequest \<times> reply) list"

datatype batch_event = Recv batchRequest "nat \<Rightarrow> int64" | TimerFired | ChanClosed

definition flush :: "batch_loop \<Rightarrow> batch_loop" where
  "flush l =
     (case writeBatch (lbatch l) (lstore l) of
        (rs, s) \<Rightarrow> l\<lparr>lstore := s, lbatch := [], ltimer := False, lreplies := lreplies l @ rs\<rparr>)"

definition batchLoop_step :: "batch_event \<Rightarrow> batch_loop \<Rightarrow> batch_loop" where
  "batchLoop_step ev l =
     (if ldone l then l
      else case ev of
        ChanClosed \<Rightarrow> (flush l)\<lparr>ldone := True\<rparr>
      | Recv req clk \<Rightarrow>
          if of_char (brOp req) \<ge> (of_char opIncr :: nat) then
            (let l1 = flush l
             in case writeSingle clk req (lstore l1) of
                  (r, s) \<Rightarrow> l1\<lparr>lstore := s, lreplies := lreplies l1 @ [(req, r)]\<rparr>)
          else
            (let l1 = l\<lparr>lbatch := lbatch l @ [req], ltimer := True\<rparr>
             in if length (lbatch l1) \<ge> maxBatchSize then flush l1 else l1)
      | TimerFired \<Rightarrow> if ltimer l then flush l else l)"

definition start_loop :: "DiskStore \<Rightarrow> batch_loop" where
  "start_loop s = \<lparr>lstore = s, lbatch = [], ltimer = False, ldone = False, lreplies = []\<rparr>"

section \<open>Snapshot files\<close>

text \<open>The temporary file is not part of the model: it is written whole before the rename and
  removed afterwards, and nothing else reads it.\<close>

definition atomicWriteFile :: "bytes \<Rightarrow> world \<Rightarrow> unit res \<times> world" where
  "atomicWriteFile data =
     and_then (io_call ''create temp file'' id) (\<lambda>_.
     and_then (io_call ''write temp file'' id) (\<lambda>_.
     and_then (io_call ''fsync temp file'' id) (\<lambda>_.
     and_then (io_call ''close temp file'' id) (\<lambda>_.
     and_then (io_call ''rename temp file'' (\<lambda>w. w\<lparr>snapFile := Some data\<rparr>)) (\<lambda>_.
     and_then (io_call ''open dir'' id) (\<lambda>_.
     io_call ''fsync dir'' id))))))"

definition saveSnapshot :: "DiskStore \<Rightarrow> unit res \<times> DiskStore" where
  "saveSnapshot s =
     (let data = marshal_snapshot (mdata (dmem s))
      in case dcipher s of
           Some c \<Rightarrow>
             and_then (on_wal (\<lambda>_. wrap_err ''encrypt snapshot'' (seal c data))) (\<lambda>sealed.
               on_wal (\<lambda>_. atomicWriteFile (snapshotMagic @ sealed))) s
         | None \<Rightarrow> on_wal (\<lambda>_. atomicWriteFile data) s)"

definition compactLocked :: "DiskStore \<Rightarrow> unit res \<times> DiskStore" where
  "compactLocked = and_then saveSnapshot (\<lambda>_. on_wal wal_Truncate)"

definition compact :: "DiskStore \<Rightarrow> unit res \<times> DiskStore" where
  "compact = compactLocked"

definition snapshotThreshold :: nat where
  "snapshotThreshold = 1024 * 1024"

definition compactIfNeeded :: "DiskStore \<Rightarrow> unit res \<times> DiskStore" where
  "compactIfNeeded =
     and_then (on_wal (\<lambda>_. io_raw id)) (\<lambda>_ s.
       if length (walFile (dworld s)) < snapshotThreshold then (Inr (), s) else compact s)"

definition SerializeSnapshot :: "DiskStore \<Rightarrow> bytes res" where
  "SerializeSnapshot s = Inr (marshal_snapshot (mdata (dmem s)))"

definition RestoreSnapshot :: "bytes \<Rightarrow> DiskStore \<Rightarrow> unit res \<times> DiskStore" where
  "RestoreSnapshot data s =
     (case decodeSnapshot data fmempty of
        Inl e \<Rightarrow> (Inl e, s)
      | Inr fresh \<Rightarrow>
          and_then saveSnapshot (\<lambda>_. on_wal wal_Truncate)
            (s\<lparr>dmem := (dmem s)\<lparr>mdata := fresh\<rparr>\<rparr>))"

text \<open>\<open>os.ReadFile\<close> fails, or there is no file, or it is read whole.\<close>

definition fillSnapshot :: "bytes \<Rightarrow> DiskStore \<Rightarrow> unit res \<times> DiskStore" where
  "fillSnapshot data s =
     (let encrypted = (length data \<ge> length snapshotMagic \<and> take (length snapshotMagic) data = snapshotMagic);
          fill = (\<lambda>plain. case decodeSnapshot plain fmempty of
                            Inl e \<Rightarrow> (Inl (Wrap ''load snapshot'' e), s)
                          | Inr fresh \<Rightarrow> (Inr (), s\<lparr>dmem := (dmem s)\<lparr>mdata := fresh\<rparr>\<rparr>))
      in case dcipher s of
           None \<Rightarrow>
             if encrypted
             then (Inl (ErrOther ''snapshot is encrypted at rest; provide ENCRYPTION_KEY or KEY_FILE''), s)
             else fill data
         | Some c \<Rightarrow>
             if encrypted
             then (case Decrypt c (drop (length snapshotMagic) data) of
                     Inl e \<Rightarrow> (Inl (Wrap ''decrypt snapshot'' e), s)
                   | Inr plain \<Rightarrow> fill plain)
             else (Inl (ErrOther ''existing snapshot is not encrypted; provide no key or re-encrypt the data directory''), s))"

definition loadSnapshot :: "DiskStore \<Rightarrow> unit res \<times> DiskStore" where
  "loadSnapshot =
     and_then (on_wal (\<lambda>_. io_call ''read snapshot'' id)) (\<lambda>_ s.
       case snapFile (dworld s) of
         None \<Rightarrow> (Inr (), s)
       | Some data \<Rightarrow> fillSnapshot data s)"

section \<open>Opening, the client operations, closing\<close>

definition openDiskStore :: "WAL \<Rightarrow> (nat \<Rightarrow> int64) \<Rightarrow> world \<Rightarrow> DiskStore res \<times> world" where
  "openDiskStore cipher clk =
     and_then (io_call ''create data dir'' id) (\<lambda>_.
     and_then (case cipher of Some c \<Rightarrow> OpenWALEncrypted c | None \<Rightarrow> OpenWAL) (\<lambda>wal w.
       case loadSnapshot \<lparr>dmem = NewMemStore, dcipher = wal, dworld = w, dclosed = False\<rparr> of
         (Inl e, s) \<Rightarrow> (Inl e, dworld s)
       | (Inr _, s) \<Rightarrow>
           and_then (replay_file (dcipher s) clk (dmem s)) (\<lambda>m w'.
             (Inr (s\<lparr>dmem := m, dworld := w'\<rparr>), w')) (dworld s)))"

definition OpenDiskStore :: "(nat \<Rightarrow> int64) \<Rightarrow> world \<Rightarrow> DiskStore res \<times> world" where
  "OpenDiskStore = openDiskStore None"

definition OpenDiskStoreWithKey ::
    "(bytes \<Rightarrow> 'blk res) \<Rightarrow> ('blk \<Rightarrow> AEAD res) \<Rightarrow> bytes \<Rightarrow> (nat \<Rightarrow> int64) \<Rightarrow> world \<Rightarrow> DiskStore res \<times> world" where
  "OpenDiskStoreWithKey newAES newGCM key clk w =
     (case newAtRestCipher newAES newGCM key of
        Inl e \<Rightarrow> (Inl e, w)
      | Inr c \<Rightarrow> openDiskStore (Some c) clk w)"

text \<open>\<open>submit\<close> of a client whose request reaches an idle batch loop: the request is received
  and, when it was put in the batch, the timer fires.\<close>

definition submit :: "(nat \<Rightarrow> int64) \<Rightarrow> batchRequest \<Rightarrow> DiskStore \<Rightarrow> reply \<times> DiskStore" where
  "submit clk req s =
     (if dclosed s then (Inl ErrClosed, s)
      else
        let l = batchLoop_step TimerFired (batchLoop_step (Recv req clk) (start_loop s))
        in (snd (last (lreplies l)), lstore l))"

definition new_req :: "char \<Rightarrow> string \<Rightarrow> batchRequest" where
  "new_req op key = \<lparr>brOp = op, brKey = key, brOld = '''', brValue = '''', brExpiresAt = 0\<rparr>"

definition drop_result :: "reply \<times> DiskStore \<Rightarrow> unit res \<times> DiskStore" where
  "drop_result x = (case x of (Inl e, s) \<Rightarrow> (Inl e, s) | (Inr _, s) \<Rightarrow> (Inr (), s))"

definition disk_Get :: "int64 \<Rightarrow> int64 \<Rightarrow> string \<Rightarrow> DiskStore \<Rightarrow> string res \<times> DiskStore" where
  "disk_Get now now' key s = (case mem_Get now now' key (dmem s) of (r, m) \<Rightarrow> (r, s\<lparr>dmem := m\<rparr>))"

definition disk_Put :: "(nat \<Rightarrow> int64) \<Rightarrow> string \<Rightarrow> string \<Rightarrow> DiskStore \<Rightarrow> unit res \<times> DiskStore" where
  "disk_Put clk key val s = drop_result (submit clk ((new_req opPut key)\<lparr>brValue := val\<rparr>) s)"

definition disk_Delete :: "(nat \<Rightarrow> int64) \<Rightarrow> string \<Rightarrow> DiskStore \<Rightarrow> unit res \<times> DiskStore" where
  "disk_Delete clk key s = drop_result (submit clk (new_req opDelete key) s)"

definition disk_Clear :: "(nat \<Rightarrow> int64) \<Rightarrow> DiskStore \<Rightarrow> unit res \<times> DiskStore" where
  "disk_Clear clk s = drop_result (submit clk (new_req opClear '''') s)"

text \<open>The type assertions \<open>res.(int64)\<close> and \<open>res.(bool)\<close> panic on any other result.\<close>

definition disk_Incr :: "(nat \<Rightarrow> int64) \<Rightarrow> string \<Rightarrow> DiskStore \<Rightarrow> int64 res \<times> DiskStore" where
  "disk_Incr clk key s =
     (case submit clk (new_req opIncr key) s of
        (Inl e, s') \<Rightarrow> (Inl e, s')
      | (Inr (RInt v), s') \<Rightarrow> (Inr v, s')
      | (Inr _, s') \<Rightarrow> (Inl (Panic ''interface conversion''), s'))"

definition disk_CAS :: "(nat \<Rightarrow> int64) \<Rightarrow> string \<Rightarrow> string \<Rightarrow> string \<Rightarrow> DiskStore \<Rightarrow> bool res \<times> DiskStore" where
  "disk_CAS clk key old new s =
     (case submit clk ((new_req opCAS key)\<lparr>brOld := old, brValue := new\<rparr>) s of
        (Inl e, s') \<Rightarrow> (Inl e, s')
      | (Inr (RBool b), s') \<Rightarrow> (Inr b, s')
      | (Inr _, s') \<Rightarrow> (Inl (Panic ''interface conversion''), s'))"

definition disk_Expire :: "(nat \<Rightarrow> int64) \<Rightarrow> string \<Rightarrow> int64 \<Rightarrow> DiskStore \<Rightarrow> unit res \<times> DiskStore" where
  "disk_Expire clk key expiresAt s =
     drop_result (submit clk ((new_req opExpire key)\<lparr>brExpiresAt := expiresAt\<rparr>) s)"

definition disk_Scan :: "int64 \<Rightarrow> string \<Rightarrow> int \<Rightarrow> string \<Rightarrow> DiskStore \<Rightarrow> (KeyValue list \<times> string) res" where
  "disk_Scan now cursor count pattern s = mem_Scan now cursor count pattern (dmem s)"

definition disk_Size :: "int64 \<Rightarrow> DiskStore \<Rightarrow> nat" where
  "disk_Size now s = mem_Size now (dmem s)"

definition disk_ExpiredCount :: "DiskStore \<Rightarrow> uint64" where
  "disk_ExpiredCount s = mem_ExpiredCount (dmem s)"

text \<open>The tickers of \<open>expireLoop\<close> and \<open>snapshotLoop\<close>; the latter only logs an error.\<close>

definition expireLoop_tick :: "int64 \<Rightarrow> DiskStore \<Rightarrow> DiskStore" where
  "expireLoop_tick now s = s\<lparr>dmem := snd (mem_SweepExpired now (dmem s))\<rparr>"

definition snapshotLoop_tick :: "DiskStore \<Rightarrow> DiskStore" where
  "snapshotLoop_tick s = snd (compactIfNeeded s)"

definition wal_Close :: "world \<Rightarrow> unit res \<times> world" where
  "wal_Close = io_raw id"

text \<open>\<open>Close\<close>: refuse new requests, let the batch loop write the remainder, compact, close the
  file.  The last error is the one returned.\<close>

definition disk_Close :: "batch_loop \<Rightarrow> unit res \<times> batch_loop" where
  "disk_Close l =
     (if dclosed (lstore l) then (Inr (), l)
      else
        let l1 = batchLoop_step ChanClosed (l\<lparr>lstore := (lstore l)\<lparr>dclosed := True\<rparr>\<rparr>);
            (e1, s1) = compact (lstore l1);
            (e2, s2) = on_wal (\<lambda>_. wal_Close) s1
        in (case e2 of Inl e \<Rightarrow> Inl e | Inr _ \<Rightarrow> e1, l1\<lparr>lstore := s2\<rparr>))"

section \<open>The contract\<close>

lemma and_then_Inr:
  "and_then m f w = (Inr y, w'') \<longleftrightarrow> (\<exists>x w'. m w = (Inr x, w') \<and> f x w' = (Inr y, w''))"
  by (auto simp: and_then_def split: prod.splits sum.splits)

lemma and_then_Inl:
  "and_then m f w = (Inl e, w'') \<longleftrightarrow>
     m w = (Inl e, w'') \<or> (\<exists>x w'. m w = (Inr x, w') \<and> f x w' = (Inl e, w''))"
  by (auto simp: and_then_def split: prod.splits sum.splits)

lemmas disk_steps = and_then_Inr and_then_Inl
lemmas disk_splits = prod.splits sum.splits if_splits brResult.splits

lemma op_codes [simp]:
  "of_char opPut = (1::nat)" "of_char opDelete = (2::nat)" "of_char opClear = (3::nat)"
  "of_char opIncr = (4::nat)" "of_char opCAS = (5::nat)" "of_char opExpire = (6::nat)"
  by (simp_all add: opPut_def opDelete_def opClear_def opIncr_def opCAS_def opExpire_def)

lemma submit_batched:
  assumes "\<not> dclosed s" "of_char (brOp req) < (4::nat)"
  shows "submit clk req s = (case writeBatch [req] s of (rs, s') \<Rightarrow> (snd (hd rs), s'))"
  using assms
  by (auto simp: submit_def batchLoop_step_def start_loop_def flush_def maxBatchSize_def writeBatch_def Let_def
      split: prod.splits sum.splits)

lemma submit_single:
  assumes "\<not> dclosed s" "(4::nat) \<le> of_char (brOp req)"
  shows "submit clk req s = writeSingle clk req s"
  using assms
  by (auto simp: submit_def batchLoop_step_def start_loop_def flush_def writeBatch_def Let_def
      split: prod.splits)

definition disk_live :: "DiskStore \<Rightarrow> int64 \<Rightarrow> string \<rightharpoonup> string" where
  "disk_live s t = mem_live (dmem s) t"

text \<open>I/O errors are errors of the operating system, none of the store's sentinels.\<close>

definition env_ok :: "world \<Rightarrow> bool" where
  "env_ok w \<longleftrightarrow> (\<forall>i n e. ioAt w i = Some (n, e) \<longrightarrow> (\<exists>msg. e = ErrOther msg))"

lemma env_ok_cong: "ioAt w' = ioAt w \<Longrightarrow> env_ok w' = env_ok w"
  by (simp add: env_ok_def)

definition log_op :: "(world \<Rightarrow> 'a res \<times> world) \<Rightarrow> bool" where
  "log_op f \<longleftrightarrow> (\<forall>w x w'. f w = (x, w') \<longrightarrow> ioAt w' = ioAt w \<and> snapFile w' = snapFile w \<and>
     (env_ok w \<longrightarrow> x \<noteq> Inl ErrNotFound))"

lemma log_op_and_then:
  assumes "log_op f" "\<And>x. log_op (g x)"
  shows "log_op (and_then f g)"
  unfolding log_op_def
proof (intro allI impI)
  fix w x w'
  assume w: "and_then f g w = (x, w')"
  obtain y w1 where y: "f w = (y, w1)" by fastforce
  have 1: "ioAt w1 = ioAt w" "snapFile w1 = snapFile w" "env_ok w \<longrightarrow> y \<noteq> Inl ErrNotFound"
    using assms(1) y by (auto simp: log_op_def)
  show "ioAt w' = ioAt w \<and> snapFile w' = snapFile w \<and> (env_ok w \<longrightarrow> x \<noteq> Inl ErrNotFound)"
  proof (cases y)
    case (Inl e)
    then show ?thesis using 1 w y by (auto simp: and_then_def)
  next
    case (Inr z)
    then have "g z w1 = (x, w')" using w y by (simp add: and_then_def)
    then show ?thesis using assms(2) [of z] 1 env_ok_cong [OF 1(1)] unfolding log_op_def by metis
  qed
qed

lemma log_op_append [simp]: "log_op (wal_append c b)"
proof -
  have "log_op (file_Write b')" "log_op (seal ci b')" for b' ci
    by (auto simp: log_op_def file_Write_def seal_def Encrypt_def env_ok_def split: option.splits sum.splits)
  then show ?thesis
    by (auto simp: wal_append_def intro!: log_op_and_then split: option.split)
qed

lemma log_op_Sync [simp]: "log_op wal_Sync"
  by (auto simp: log_op_def wal_Sync_def file_Sync_def env_ok_def split: option.splits)

lemma log_op_append_reqs [simp]: "log_op (append_reqs c reqs)"
proof (induction reqs)
  case Nil
  then show ?case by (simp add: log_op_def)
next
  case (Cons req reqs)
  moreover have "log_op (append_req c req)"
    by (auto simp: append_req_def Append_rec_bytes log_op_def [of "\<lambda>w. (Inr (), w)"])
  ultimately have "log_op (and_then (append_req c req) (\<lambda>_. append_reqs c reqs))"
    by (intro log_op_and_then)
  then show ?case by (simp add: log_op_def)
qed

text \<open>Append, sync, continue: either an I/O error with memory untouched, or the continuation
  on the same memory.\<close>

lemma log_sync_cases:
  assumes "\<And>c. log_op (f c)"
  obtains e w where "and_then (on_wal f) (\<lambda>_. and_then (on_wal (\<lambda>c. wal_Sync)) (\<lambda>_. k)) s = (Inl e, s\<lparr>dworld := w\<rparr>)"
      "ioAt w = ioAt (dworld s)" "env_ok (dworld s) \<longrightarrow> e \<noteq> ErrNotFound"
  | w where "and_then (on_wal f) (\<lambda>_. and_then (on_wal (\<lambda>c. wal_Sync)) (\<lambda>_. k)) s = k (s\<lparr>dworld := w\<rparr>)"
      "ioAt w = ioAt (dworld s)"
proof -
  obtain x w1 where x: "f (dcipher s) (dworld s) = (x, w1)" by fastforce
  obtain y w2 where y: "wal_Sync w1 = (y, w2)" by fastforce
  have 1: "ioAt w1 = ioAt (dworld s)" "env_ok (dworld s) \<longrightarrow> x \<noteq> Inl ErrNotFound"
    using assms x unfolding log_op_def by blast+
  have 2: "ioAt w2 = ioAt w1" "env_ok w1 \<longrightarrow> y \<noteq> Inl ErrNotFound"
    using log_op_Sync y unfolding log_op_def by blast+
  show thesis
  proof (cases x)
    case (Inl e)
    then show thesis using that(1) [of e w1] 1 x by (simp add: and_then_def on_wal_def)
  next
    case (Inr u)
    note x' = x [unfolded Inr]
    show thesis
    proof (cases y)
      case (Inl e)
      then show thesis
        using that(1) [of e w2] 1 2 x' y env_ok_cong [OF 1(1)] by (simp add: and_then_def on_wal_def)
    next
      case (Inr u')
      then show thesis
        using that(2) [of w2] 1 2 x' y by (simp add: and_then_def on_wal_def)
    qed
  qed
qed

lemma and_then_return: "and_then m (\<lambda>_ s. (Inr (), s)) = m"
  by (auto simp: and_then_def fun_eq_iff split: prod.splits sum.splits)

lemma writeBatch_cases:
  assumes "batch \<noteq> []"
  obtains e w where "writeBatch batch s = (map (\<lambda>req. (req, Inl e)) batch, s\<lparr>dworld := w\<rparr>)"
      "ioAt w = ioAt (dworld s)"
  | w where "writeBatch batch s =
        (map (\<lambda>req. (req, Inr RNil)) batch, s\<lparr>dworld := w, dmem := fold apply_req batch (dmem s)\<rparr>)"
      "ioAt w = ioAt (dworld s)"
proof (rule log_sync_cases [of "\<lambda>c. append_reqs c batch" "\<lambda>s. (Inr (), s)" s])
  show "log_op (append_reqs c batch)" for c by simp
qed (use that assms in \<open>auto simp: and_then_return writeBatch_def\<close>)

lemma batched_mem:
  assumes "drop_result (submit clk req s) = (r, s')" "of_char (brOp req) < (4::nat)"
  shows "dmem s' = (case r of Inr _ \<Rightarrow> apply_req req (dmem s) | Inl _ \<Rightarrow> dmem s)"
    and "ioAt (dworld s') = ioAt (dworld s)"
proof -
  have "dmem s' = (case r of Inr _ \<Rightarrow> apply_req req (dmem s) | Inl _ \<Rightarrow> dmem s)
      \<and> ioAt (dworld s') = ioAt (dworld s)"
  proof (cases "dclosed s")
    case True
    with assms(1) show ?thesis by (auto simp: submit_def drop_result_def)
  next
    case False
    show ?thesis
      by (rule writeBatch_cases [of "[req]" s])
        (use assms False in \<open>auto simp: submit_batched drop_result_def\<close>)
  qed
  then show "dmem s' = (case r of Inr _ \<Rightarrow> apply_req req (dmem s) | Inl _ \<Rightarrow> dmem s)"
    "ioAt (dworld s') = ioAt (dworld s)" by auto
qed

lemma brOp_new_req [simp]: "brOp (new_req op k) = op"
  by (simp add: new_req_def)

lemma apply_req_simps [simp]:
  "apply_req ((new_req opPut k)\<lparr>brValue := v\<rparr>) m = mem_Put k v m"
  "apply_req (new_req opDelete k) m = mem_Delete k m"
  "apply_req (new_req opClear k) m = mem_Clear m"
  by (simp_all add: apply_req_def new_req_def)

lemma disk_Incr_mem:
  assumes "disk_Incr clk k s = (r, s')"
  shows "(\<exists>e. r = Inl e \<and> dmem s' = dmem s) \<or> mem_Incr (clk 0) k (dmem s) = (r, dmem s')"
    and "ioAt (dworld s') = ioAt (dworld s)"
proof -
  have "((\<exists>e. r = Inl e \<and> dmem s' = dmem s) \<or> mem_Incr (clk 0) k (dmem s) = (r, dmem s'))
      \<and> ioAt (dworld s') = ioAt (dworld s)"
  proof (cases "dclosed s")
    case True
    with assms show ?thesis by (auto simp: submit_def disk_Incr_def)
  next
    case False
    let ?k = "\<lambda>s1. case mem_Incr (clk 0) k (dmem s1) of
        (Inl e, m) \<Rightarrow> (Inl e, s1\<lparr>dmem := m\<rparr>) | (Inr v, m) \<Rightarrow> (Inr (RInt v), s1\<lparr>dmem := m\<rparr>)"
    have sub: "submit clk (new_req opIncr k) s =
        and_then (on_wal (\<lambda>c. AppendIncr c k)) (\<lambda>_. and_then (on_wal (\<lambda>c. wal_Sync)) (\<lambda>_. ?k)) s"
      using False by (simp add: submit_single new_req_def writeSingle_def)
    show ?thesis
      by (rule log_sync_cases [of "\<lambda>c. AppendIncr c k" ?k s])
        (use assms sub in \<open>auto simp: Append_rec_bytes disk_Incr_def split: disk_splits\<close>)
  qed
  then show "(\<exists>e. r = Inl e \<and> dmem s' = dmem s) \<or> mem_Incr (clk 0) k (dmem s) = (r, dmem s')"
    "ioAt (dworld s') = ioAt (dworld s)" by auto
qed

lemma mem_Get_errors: "mem_Get now now' k m = (Inl e, m') \<Longrightarrow> e = ErrNotFound"
  by (auto simp: mem_Get_def split: option.splits if_splits)

lemma disk_CAS_cases:
  assumes "disk_CAS (\<lambda>_. now) k old new s = (r, s')"
  shows "ioAt (dworld s') = ioAt (dworld s) \<and>
    (r = Inl ErrClosed \<and> dmem s' = dmem s \<or>
     (\<exists>m. mem_Get now now k (dmem s) = (Inl ErrNotFound, m) \<and> r = Inl ErrNotFound \<and> dmem s' = m) \<or>
     (\<exists>v m. mem_Get now now k (dmem s) = (Inr v, m) \<and> v \<noteq> old \<and> r = Inr False \<and> dmem s' = m) \<or>
     (\<exists>m e. mem_Get now now k (dmem s) = (Inr old, m) \<and> r = Inl e \<and>
        (env_ok (dworld s) \<longrightarrow> e \<noteq> ErrNotFound) \<and> dmem s' = m) \<or>
     (\<exists>m. mem_Get now now k (dmem s) = (Inr old, m) \<and> r = Inr True \<and> dmem s' = mem_Put k new m))"
proof (cases "dclosed s")
  case True
  with assms show ?thesis by (auto simp: submit_def disk_CAS_def)
next
  case False
  let ?req = "(new_req opCAS k)\<lparr>brOld := old, brValue := new\<rparr>"
  obtain g m where g: "mem_Get now now k (dmem s) = (g, m)" by fastforce
  have sub: "submit (\<lambda>_. now) ?req s = writeSingle (\<lambda>_. now) ?req s"
    using False by (simp add: submit_single new_req_def)
  show ?thesis
  proof (cases g)
    case (Inl e)
    then show ?thesis
      using assms g mem_Get_errors [of now now k "dmem s" e m] sub
      by (auto simp: disk_CAS_def writeSingle_def new_req_def)
  next
    case (Inr v)
    let ?k = "\<lambda>s1. (Inr (RBool True), s1\<lparr>dmem := mem_Put k new (dmem s1)\<rparr>)"
    show ?thesis
    proof (cases "v = old")
      case True
      show ?thesis
        by (rule log_sync_cases [of "\<lambda>c. AppendCAS c k old new" ?k "s\<lparr>dmem := m\<rparr>"])
          (use assms g Inr True sub in \<open>auto simp: disk_CAS_def writeSingle_def new_req_def Append_rec_bytes\<close>)
    next
      case ne: False
      then show ?thesis
        using assms g Inr sub by (auto simp: disk_CAS_def writeSingle_def new_req_def)
    qed
  qed
qed

lemma disk_Expire_cases:
  assumes "disk_Expire (\<lambda>_. now) k d s = (r, s')"
  shows "ioAt (dworld s') = ioAt (dworld s) \<and>
    (r = Inl ErrClosed \<and> dmem s' = dmem s \<or>
     (\<exists>m. mem_Get now now k (dmem s) = (Inl ErrNotFound, m) \<and> r = Inl ErrNotFound \<and> dmem s' = m) \<or>
     (\<exists>v m e. mem_Get now now k (dmem s) = (Inr v, m) \<and> r = Inl e \<and> dmem s' = m) \<or>
     (\<exists>v m. mem_Get now now k (dmem s) = (Inr v, m) \<and> mem_Expire now k d m = (r, dmem s')))"
proof (cases "dclosed s")
  case True
  with assms show ?thesis by (auto simp: submit_def disk_Expire_def drop_result_def)
next
  case False
  let ?req = "(new_req opExpire k)\<lparr>brExpiresAt := d\<rparr>"
  obtain g m where g: "mem_Get now now k (dmem s) = (g, m)" by fastforce
  have sub: "submit (\<lambda>_. now) ?req s = writeSingle (\<lambda>_. now) ?req s"
    using False by (simp add: submit_single new_req_def)
  show ?thesis
  proof (cases g)
    case (Inl e)
    then show ?thesis
      using assms g mem_Get_errors [of now now k "dmem s" e m] sub
      by (auto simp: disk_Expire_def drop_result_def writeSingle_def new_req_def)
  next
    case (Inr v)
    let ?k = "\<lambda>s1. case mem_Expire now k d (dmem s1) of
        (Inl e, m') \<Rightarrow> (Inl e, s1\<lparr>dmem := m'\<rparr>) | (Inr _, m') \<Rightarrow> (Inr RNil, s1\<lparr>dmem := m'\<rparr>)"
    have step: "writeSingle (\<lambda>_. now) ?req s =
        and_then (on_wal (\<lambda>c. AppendExpire c k d)) (\<lambda>_. and_then (on_wal (\<lambda>c. wal_Sync)) (\<lambda>_. ?k)) (s\<lparr>dmem := m\<rparr>)"
      using g Inr by (simp add: writeSingle_def new_req_def)
    show ?thesis
      by (rule log_sync_cases [of "\<lambda>c. AppendExpire c k d" ?k "s\<lparr>dmem := m\<rparr>"])
        (use assms g Inr sub step in \<open>auto simp: disk_Expire_def drop_result_def Append_rec_bytes split: disk_splits\<close>)
  qed
qed

lemma mem_Get_live:
  assumes "mem_Get now now k m = (r, m')"
  shows "r = (case mem_live m now k of None \<Rightarrow> Inl ErrNotFound | Some v \<Rightarrow> Inr v)"
    and "reached now t \<Longrightarrow> mem_live m' t = mem_live m t"
  using mem.get_result [of now k m r m'] mem.get_frame [of now k m r m'] assms by auto

lemma mem_live_writes [simp]:
  "mem_live (mem_Put k v m) t = (mem_live m t)(k \<mapsto> v)"
  "mem_live (mem_Delete k m) t = (mem_live m t)(k := None)"
  "mem_live (mem_Clear m) t = Map.empty"
  by (auto simp: mem_Put_def mem_Delete_def mem_Clear_def mem_live_def fun_eq_iff)

lemma disk_writes_mem:
  "disk_Put clk k v s = (r, s') \<Longrightarrow> dmem s' = (case r of Inr _ \<Rightarrow> mem_Put k v (dmem s) | Inl _ \<Rightarrow> dmem s)"
  "disk_Delete clk k s = (r, s') \<Longrightarrow> dmem s' = (case r of Inr _ \<Rightarrow> mem_Delete k (dmem s) | Inl _ \<Rightarrow> dmem s)"
  "disk_Clear clk s = (r, s') \<Longrightarrow> dmem s' = (case r of Inr _ \<Rightarrow> mem_Clear (dmem s) | Inl _ \<Rightarrow> dmem s)"
  using batched_mem(1) [of clk "(new_req opPut k)\<lparr>brValue := v\<rparr>" s r s']
    batched_mem(1) [of clk "new_req opDelete k" s r s'] batched_mem(1) [of clk "new_req opClear ''''" s r s']
  by (cases r; simp add: disk_Put_def disk_Delete_def disk_Clear_def)+

lemma disk_ops_env:
  "ioAt (dworld (snd (disk_Get now now' k s))) = ioAt (dworld s)"
  "ioAt (dworld (snd (disk_Put clk k v s))) = ioAt (dworld s)"
  "ioAt (dworld (snd (disk_Delete clk k s))) = ioAt (dworld s)"
  "ioAt (dworld (snd (disk_Clear clk s))) = ioAt (dworld s)"
  "ioAt (dworld (snd (disk_Incr clk k s))) = ioAt (dworld s)"
  "ioAt (dworld (snd (disk_CAS (\<lambda>_. now) k old new s))) = ioAt (dworld s)"
  "ioAt (dworld (snd (disk_Expire (\<lambda>_. now) k d s))) = ioAt (dworld s)"
proof -
  have b: "ioAt (dworld (snd (drop_result (submit clk req s)))) = ioAt (dworld s)"
    if "of_char (brOp req) < (4::nat)" for req
    using batched_mem(2) [OF prod.collapse [symmetric] that] .
  show "ioAt (dworld (snd (disk_Put clk k v s))) = ioAt (dworld s)"
    "ioAt (dworld (snd (disk_Delete clk k s))) = ioAt (dworld s)"
    "ioAt (dworld (snd (disk_Clear clk s))) = ioAt (dworld s)"
    unfolding disk_Put_def disk_Delete_def disk_Clear_def by (rule b, simp)+
  show "ioAt (dworld (snd (disk_Incr clk k s))) = ioAt (dworld s)"
    by (rule disk_Incr_mem(2) [OF prod.collapse [symmetric]])
  show "ioAt (dworld (snd (disk_CAS (\<lambda>_. now) k old new s))) = ioAt (dworld s)"
    using disk_CAS_cases [OF prod.collapse [symmetric]] by (rule conjunct1)
  show "ioAt (dworld (snd (disk_Expire (\<lambda>_. now) k d s))) = ioAt (dworld s)"
    using disk_Expire_cases [OF prod.collapse [symmetric]] by (rule conjunct1)
qed (auto simp: disk_Get_def split: prod.splits)

interpretation disk: kv_scan disk_live "\<lambda>s. env_ok (dworld s)"
    "\<lambda>now. disk_Get now now" "\<lambda>now. disk_Put (\<lambda>_. now)" "\<lambda>now. disk_Delete (\<lambda>_. now)"
    "\<lambda>now. disk_Clear (\<lambda>_. now)" "\<lambda>now. disk_Incr (\<lambda>_. now)" "\<lambda>now. disk_CAS (\<lambda>_. now)"
    "\<lambda>now. disk_Expire (\<lambda>_. now)" disk_Scan
proof (unfold_locales, goal_cases)
  case (1 s now k r s')
  then show ?case
    by (auto simp: disk_Get_def disk_live_def split: prod.splits dest!: mem_Get_live(1))
next
  case (2 s now k r s' t)
  then show ?case
    by (auto simp: disk_Get_def disk_live_def mem_Get_live(2) split: prod.splits)
next
  case (8 s now k n s')
  from disk_Incr_mem(1) [OF 8(2)] have "mem_Incr now k (dmem s) = (Inr n, dmem s')" by auto
  from mem.incr_ok [OF TrueI this] show ?case by (simp add: disk_live_def)
next
  case (9 s now k e s' t)
  from disk_Incr_mem(1) [OF 9(2)] 9(3) show ?case
    by (auto simp: disk_live_def dest: mem.incr_err [OF TrueI])
next
  case (10 s now k r s' t j)
  from disk_Incr_mem(1) [OF 10(2)] 10(3,4) show ?case
    by (auto simp: disk_live_def dest: mem.incr_frame [OF TrueI])
next
  case (11 s now k old new s' t)
  from disk_CAS_cases [OF 11(2)] 11(3) show ?case
    by (auto simp: disk_live_def dest: mem_Get_live(1) mem_Get_live(2) split: option.splits)
next
  case (12 s now k old new s' t)
  from disk_CAS_cases [OF 12(2)] 12(3) show ?case
    by (auto simp: disk_live_def mem_Get_live(2) dest: mem_Get_live(1) split: option.splits)
next
  case (13 s now k old new e s' t)
  from disk_CAS_cases [OF 13(2)] 13(3) show ?case
    by (auto simp: disk_live_def mem_Get_live(2))
next
  case (14 s now k old new s')
  from disk_CAS_cases [OF 14(2)] 14(1) show ?case
    by (auto simp: disk_live_def dest!: mem_Get_live(1) split: option.splits)
next
  case (15 s now k d u s' t)
  from disk_Expire_cases [OF 15(2)] obtain v m where
    m: "mem_Get now now k (dmem s) = (Inr v, m)" "mem_Expire now k d m = (Inr u, dmem s')" by auto
  with mem.expire_ok [OF TrueI m(2) 15(3,4)] 15(4) show ?case
    by (auto simp: disk_live_def mem_Get_live(2))
next
  case (16 s now k d e s' t)
  from disk_Expire_cases [OF 16(2)] 16(3) show ?case
    by (auto simp: disk_live_def mem_Get_live(2) dest: mem.expire_err [OF TrueI])
next
  case (25 s count now cursor pattern)
  then show ?case using mem_Scan_page [of count now cursor pattern "dmem s"] by (simp add: disk_live_def disk_Scan_def)
qed (auto simp: disk_live_def disk_writes_mem disk_Scan_def env_ok_cong [OF disk_ops_env(1)]
    env_ok_cong [OF disk_ops_env(2)] env_ok_cong [OF disk_ops_env(3)] env_ok_cong [OF disk_ops_env(4)]
    env_ok_cong [OF disk_ops_env(5)] env_ok_cong [OF disk_ops_env(6)] env_ok_cong [OF disk_ops_env(7)])

end
