(* ===== verification/Engines.thy ===== *)
theory Engines
  imports RaftTypes MemStore FakeEngine DiskStore
begin

text \<open>
  The implementations of \<open>storage.Engine\<close> as dictionaries of operations, the form in which the
  raft node and the HTTP server receive them.  An operation of the dictionary reads the clock
  once; where the code reads it again within one call, it reads the same value.
\<close>

definition mem_Close :: "memstore \<Rightarrow> unit res \<times> memstore" where
  "mem_Close m = (Inr (), m)"

definition fake_Close :: "fake_engine \<Rightarrow> unit res \<times> fake_engine" where
  "fake_Close f = (Inr (), f)"

definition mem_engine :: "memstore EngineOps" where
  "mem_engine =
     \<lparr>engGet = (\<lambda>now. mem_Get now now), engPut = (\<lambda>_ k v m. (Inr (), mem_Put k v m)),
      engDelete = (\<lambda>_ k m. (Inr (), mem_Delete k m)), engClear = (\<lambda>_ m. (Inr (), mem_Clear m)),
      engIncr = mem_Incr, engCAS = mem_CAS, engExpire = mem_Expire, engScan = mem_Scan, engClose = mem_Close\<rparr>"

definition fake_ops :: "fake_engine EngineOps" where
  "fake_ops =
     \<lparr>engGet = fake_Get, engPut = (\<lambda>_ k v f. (Inr (), fake_Put k v f)),
      engDelete = (\<lambda>_ k f. (Inr (), fake_Delete k f)), engClear = (\<lambda>_ f. (Inr (), fake_Clear f)),
      engIncr = fake_Incr, engCAS = fake_CAS, engExpire = fake_Expire, engScan = fake_Scan, engClose = fake_Close\<rparr>"

text \<open>The batching loop has nothing pending when the store is closed between operations.\<close>

definition disk_engine :: "DiskStore EngineOps" where
  "disk_engine =
     \<lparr>engGet = (\<lambda>now. disk_Get now now), engPut = (\<lambda>now. disk_Put (\<lambda>_. now)),
      engDelete = (\<lambda>now. disk_Delete (\<lambda>_. now)), engClear = (\<lambda>now. disk_Clear (\<lambda>_. now)),
      engIncr = (\<lambda>now. disk_Incr (\<lambda>_. now)), engCAS = (\<lambda>now. disk_CAS (\<lambda>_. now)),
      engExpire = (\<lambda>now. disk_Expire (\<lambda>_. now)), engScan = disk_Scan,
      engClose = (\<lambda>s. case disk_Close (start_loop s) of (r, b) \<Rightarrow> (r, lstore b))\<rparr>"

section \<open>The contract of a dictionary\<close>

locale engine_ops = kv_scan live inv "engGet eng" "engPut eng" "engDelete eng" "engClear eng" "engIncr eng"
    "engCAS eng" "engExpire eng" "engScan eng"
  for eng :: "'s EngineOps" and live :: "'s \<Rightarrow> int64 \<Rightarrow> string \<rightharpoonup> string" and inv :: "'s \<Rightarrow> bool"

interpretation mem_ops: engine_ops mem_engine mem_live "\<lambda>_. True"
  using mem.kv_scan_axioms by (simp add: engine_ops_def mem_engine_def)

interpretation fake_dict: engine_ops fake_ops fake_live fake_inv
  using fake.kv_scan_axioms by (simp add: engine_ops_def fake_ops_def)

interpretation disk_ops: engine_ops disk_engine disk_live "\<lambda>s. env_ok (dworld s)"
  using disk.kv_scan_axioms by (simp add: engine_ops_def disk_engine_def)

end
