(* ===== verification/Metrics.thy ===== *)
theory Metrics
  imports Strconv
begin

text \<open>
  pkg/api/metrics.go: the request counters and their Prometheus text.  Shown here: the counts
  per status code always add up to the number of requests.  The floating-point arithmetic of
  \<open>Duration.Seconds\<close> and its \<open>%f\<close> text are functions given to \<open>render\<close>.
\<close>

section \<open>Counters\<close>

record Metrics =
  startedAt :: int64
  totalReq :: uint64
  latencySumNs :: uint64
  latencyCount :: uint64
  totalKeys :: int64
  statuses :: "(int, uint64) fmap"

definition NewMetrics :: "int64 \<Rightarrow> Metrics" where
  "NewMetrics now =
     \<lparr>startedAt = now, totalReq = 0, latencySumNs = 0, latencyCount = 0, totalKeys = 0, statuses = fmempty\<rparr>"

definition Record :: "int \<Rightarrow> int64 \<Rightarrow> Metrics \<Rightarrow> Metrics" where
  "Record status d m =
     (let m1 = m\<lparr>totalReq := totalReq m + 1, latencySumNs := latencySumNs m + d, latencyCount := latencyCount m + 1\<rparr>;
          c = (case fmlookup (statuses m1) status of None \<Rightarrow> 0 | Some c \<Rightarrow> c)
      in m1\<lparr>statuses := fmupd status (c + 1) (statuses m1)\<rparr>)"

definition IncrKeys :: "Metrics \<Rightarrow> Metrics" where
  "IncrKeys m = m\<lparr>totalKeys := totalKeys m + 1\<rparr>"

definition DecrKeys :: "Metrics \<Rightarrow> Metrics" where
  "DecrKeys m = m\<lparr>totalKeys := totalKeys m + (- 1)\<rparr>"

definition TotalKeys :: "Metrics \<Rightarrow> int64" where
  "TotalKeys m = totalKeys m"

section \<open>The text\<close>

definition nl :: string where
  "nl = [CHR 0x0A]"

definition println :: "string \<Rightarrow> string" where
  "println s = s @ nl"

definition fmt_int :: "int \<Rightarrow> string" where
  "fmt_int i = (if i < 0 then CHR ''-'' # format_nat (nat (- i)) else format_nat (nat i))"

definition fmt_uint64 :: "uint64 \<Rightarrow> string" where
  "fmt_uint64 v = format_nat (unat v)"

definition status_line :: "int \<times> uint64 \<Rightarrow> string" where
  "status_line cv =
     (case cv of (code, c) \<Rightarrow>
        println (''kvstore_status_total{code='' @ [CHR 0x22] @ fmt_int code @ [CHR 0x22] @ ''} '' @ fmt_uint64 c))"

definition render ::
    "(int64 \<Rightarrow> string) \<Rightarrow> (int64 \<Rightarrow> int64) \<Rightarrow> int64 \<Rightarrow> Metrics \<Rightarrow> int64 \<Rightarrow> uint64 \<Rightarrow> string" where
  "render seconds_text seconds_int now m keyCount expiredCount =
     println ''# HELP kvstore_requests_total Total number of HTTP requests.'' @
     println ''# TYPE kvstore_requests_total counter'' @
     println (''kvstore_requests_total '' @ fmt_uint64 (totalReq m)) @
     println ''# HELP kvstore_status_total HTTP status code counts.'' @
     println ''# TYPE kvstore_status_total counter'' @
     concat (map status_line (sorted_list_of_fmap (statuses m))) @
     println ''# HELP kvstore_latency_seconds_total Cumulative request latency.'' @
     println ''# TYPE kvstore_latency_seconds_total counter'' @
     println (''kvstore_latency_seconds_total '' @ seconds_text (latencySumNs m)) @
     println ''# TYPE kvstore_latency_seconds_count counter'' @
     println (''kvstore_latency_seconds_count '' @ fmt_uint64 (latencyCount m)) @
     println ''# HELP kvstore_keys_total Number of keys in the store.'' @
     println ''# TYPE kvstore_keys_total gauge'' @
     println (''kvstore_keys_total '' @ FormatInt keyCount) @
     println ''# HELP kvstore_expired_keys_total Number of keys dropped by expiry.'' @
     println ''# TYPE kvstore_expired_keys_total counter'' @
     println (''kvstore_expired_keys_total '' @ fmt_uint64 expiredCount) @
     println ''# HELP kvstore_uptime_seconds Server uptime.'' @
     println ''# TYPE kvstore_uptime_seconds gauge'' @
     println (''kvstore_uptime_seconds '' @ FormatInt (seconds_int (now - startedAt m)))"

section \<open>The counts add up\<close>

definition fm_sum :: "('k, 'v :: comm_monoid_add) fmap \<Rightarrow> 'v" where
  "fm_sum m = (\<Sum>k \<in> fmdom' m. the (fmlookup m k))"

definition status_sum :: "Metrics \<Rightarrow> uint64" where
  "status_sum m = fm_sum (statuses m)"

definition metrics_ok :: "Metrics \<Rightarrow> bool" where
  "metrics_ok m \<longleftrightarrow> status_sum m = totalReq m \<and> latencyCount m = totalReq m"

lemma metrics_ok_new: "metrics_ok (NewMetrics now)"
  by (simp add: metrics_ok_def status_sum_def NewMetrics_def fm_sum_def)

lemma fm_sum_upd:
  fixes c :: "'v :: ab_group_add"
  shows "fm_sum (fmupd k c m) = fm_sum m - (case fmlookup m k of None \<Rightarrow> 0 | Some v \<Rightarrow> v) + c"
proof -
  let ?old = "case fmlookup m k of None \<Rightarrow> 0 | Some v \<Rightarrow> v"
  let ?D = "fmdom' m - {k}"
  have fin: "finite (fmdom' m)" by simp
  have "(\<Sum>x \<in> fmdom' (fmupd k c m). the (fmlookup (fmupd k c m) x)) = c + (\<Sum>x \<in> ?D. the (fmlookup (fmupd k c m) x))"
    using fin by (simp add: sum.insert_remove insert_Diff_if)
  moreover have "(\<Sum>x \<in> ?D. the (fmlookup (fmupd k c m) x)) = (\<Sum>x \<in> ?D. the (fmlookup m x))"
    by (rule sum.cong) auto
  moreover have "(\<Sum>x \<in> fmdom' m. the (fmlookup m x)) = ?old + (\<Sum>x \<in> ?D. the (fmlookup m x))"
  proof (cases "k \<in> fmdom' m")
    case True
    then show ?thesis using fin by (auto simp: sum.remove fmlookup_dom'_iff)
  next
    case False
    then show ?thesis by (simp add: fmdom'_notD)
  qed
  ultimately show ?thesis unfolding fm_sum_def by (simp only:) (simp add: algebra_simps)
qed

lemma metrics_ok_Record: "metrics_ok m \<Longrightarrow> metrics_ok (Record status d m)"
  by (simp add: metrics_ok_def status_sum_def Record_def Let_def fm_sum_upd split: option.splits)

lemma metrics_ok_keys [simp]: "metrics_ok (IncrKeys m) = metrics_ok m" "metrics_ok (DecrKeys m) = metrics_ok m"
  by (simp_all add: metrics_ok_def status_sum_def IncrKeys_def DecrKeys_def)

end
