(* ===== verification/Api.thy ===== *)
theory Api
  imports Engines Json Metrics
begin

text \<open>
  pkg/api: handlers.go, middleware.go and server.go.  An exchange is the state a request runs
  on: what has been written to the response, the server, and the panic that unwinds, if any.
  A handler is a function on exchanges; the middleware wraps handlers as the code does, and
  \<open>Handler\<close> is the whole stack with \<open>net/http\<close>'s router.  Log output is not modelled; the path
  of a request is given as its segments, cleaned and unescaped as the router does it.
\<close>

section \<open>Requests, responses, the server\<close>

record http_req =
  rqMethod :: string
  rqPath :: "string list"
  rqKey :: string
  rqURI :: string
  rqQuery :: "string \<Rightarrow> string"
  rqBody :: "string res"

text \<open>\<open>Size\<close> and \<open>ExpiredCount\<close> are there when the engine's type has them.\<close>

record 's Server =
  svEngine :: "'s EngineOps"
  svStore :: 's
  svSize :: "(int64 \<Rightarrow> 's \<Rightarrow> nat) option"
  svExpired :: "('s \<Rightarrow> uint64) option"
  svMetrics :: Metrics

definition NewServer ::
    "'s EngineOps \<Rightarrow> 's \<Rightarrow> (int64 \<Rightarrow> 's \<Rightarrow> nat) option \<Rightarrow> ('s \<Rightarrow> uint64) option \<Rightarrow> int64 \<Rightarrow> 's Server" where
  "NewServer eng st sz expired now =
     \<lparr>svEngine = eng, svStore = st, svSize = sz, svExpired = expired, svMetrics = NewMetrics now\<rparr>"

text \<open>\<open>xStatus\<close> and \<open>xLogged\<close> are zero until the header is written; \<open>xLogged\<close> is the status
  \<open>responseWriter\<close> captures.\<close>

record 's exchange =
  xStatus :: int
  xLogged :: int
  xHeader :: "(string, string) fmap"
  xBody :: string
  xPanic :: "string option"
  xServer :: "'s Server"

type_synonym 's handler = "http_req \<Rightarrow> 's exchange \<Rightarrow> 's exchange"

definition new_exchange :: "'s Server \<Rightarrow> 's exchange" where
  "new_exchange sv = \<lparr>xStatus = 0, xLogged = 0, xHeader = fmempty, xBody = '''', xPanic = None, xServer = sv\<rparr>"

definition set_header :: "string \<Rightarrow> string \<Rightarrow> 's exchange \<Rightarrow> 's exchange" where
  "set_header k v x = x\<lparr>xHeader := fmupd k v (xHeader x)\<rparr>"

definition WriteHeader :: "int \<Rightarrow> 's exchange \<Rightarrow> 's exchange" where
  "WriteHeader code x = x\<lparr>xLogged := code, xStatus := (if xStatus x = 0 then code else xStatus x)\<rparr>"

definition write_body :: "string \<Rightarrow> 's exchange \<Rightarrow> 's exchange" where
  "write_body b x =
     x\<lparr>xLogged := (if xLogged x = 0 then 200 else xLogged x),
       xStatus := (if xStatus x = 0 then 200 else xStatus x), xBody := xBody x @ b\<rparr>"

definition http_Error :: "string \<Rightarrow> int \<Rightarrow> 's exchange \<Rightarrow> 's exchange" where
  "http_Error msg code x =
     write_body (println msg)
       (WriteHeader code
         (set_header ''X-Content-Type-Options'' ''nosniff''
           (set_header ''Content-Type'' ''text/plain; charset=utf-8'' x)))"

text \<open>The requests redirected here are writes, for which \<open>http.Redirect\<close> sends no body.\<close>

definition http_Redirect :: "string \<Rightarrow> int \<Rightarrow> 's exchange \<Rightarrow> 's exchange" where
  "http_Redirect url code x = WriteHeader code (set_header ''Location'' url x)"

definition writeJSON :: "int \<Rightarrow> json \<Rightarrow> 's exchange \<Rightarrow> 's exchange" where
  "writeJSON status payload x =
     write_body (println (json_text payload))
       (WriteHeader status (set_header ''Content-Type'' ''application/json'' x))"

section \<open>Errors\<close>

fun Error_text :: "kv_error \<Rightarrow> string" where
  "Error_text ErrNotFound = ''key not found''"
| "Error_text ErrClosed = ''store closed''"
| "Error_text ErrNotNumeric = ''value is not a base-10 integer''"
| "Error_text ErrOverflow = ''value overflows int64''"
| "Error_text ErrInvalidCursor = ''invalid scan cursor''"
| "Error_text (NotLeaderError addr) = NotLeaderError_Error addr"
| "Error_text ErrDecrypt = ''at-rest decrypt failed: wrong key or corrupt data''"
| "Error_text EOF = ''EOF''"
| "Error_text ErrUnexpectedEOF = ''unexpected EOF''"
| "Error_text (ErrOther m) = m"
| "Error_text (Wrap m e) = m @ '': '' @ Error_text e"
| "Error_text (Panic m) = m"

text \<open>\<open>errors.As\<close> for \<open>NotLeaderError\<close>.\<close>

fun as_not_leader :: "kv_error \<Rightarrow> string option" where
  "as_not_leader (NotLeaderError addr) = Some addr"
| "as_not_leader (Wrap m e) = as_not_leader e"
| "as_not_leader _ = None"

definition error_json :: "string \<Rightarrow> json" where
  "error_json msg = JObj [(''error'', JStr msg)]"

definition ok_json :: "string \<Rightarrow> json" where
  "ok_json key = JObj [(''key'', JStr key), (''ok'', JStr ''true'')]"

definition MaxBytesError :: kv_error where
  "MaxBytesError = ErrOther ''http: request body too large''"

definition is_panic :: "'a res \<Rightarrow> string option" where
  "is_panic r = (case r of Inl (Panic m) \<Rightarrow> Some m | _ \<Rightarrow> None)"

text \<open>A call of the engine: the new store is kept; a panic unwinds, any other outcome goes on.\<close>

definition call_engine :: "('s \<Rightarrow> 'a res \<times> 's) \<Rightarrow> ('a res \<Rightarrow> 's exchange \<Rightarrow> 's exchange) \<Rightarrow> 's exchange \<Rightarrow> 's exchange" where
  "call_engine f k x =
     (case f (svStore (xServer x)) of
        (r, st) \<Rightarrow>
          let x1 = x\<lparr>xServer := (xServer x)\<lparr>svStore := st\<rparr>\<rparr>
          in case is_panic r of Some m \<Rightarrow> x1\<lparr>xPanic := Some m\<rparr> | None \<Rightarrow> k r x1)"

definition on_metrics :: "(Metrics \<Rightarrow> Metrics) \<Rightarrow> 's exchange \<Rightarrow> 's exchange" where
  "on_metrics f x = x\<lparr>xServer := (xServer x)\<lparr>svMetrics := f (svMetrics (xServer x))\<rparr>\<rparr>"

abbreviation (input) eng_of :: "'s exchange \<Rightarrow> 's EngineOps" where
  "eng_of x \<equiv> svEngine (xServer x)"

section \<open>Handlers\<close>

definition handleGet :: "int64 \<Rightarrow> 's handler" where
  "handleGet now r x =
     call_engine (engGet (eng_of x) now (rqKey r)) (\<lambda>res x.
       case res of
         Inl e \<Rightarrow>
           if errors_Is e ErrNotFound then http_Error ''key not found'' 404 x
           else writeJSON 500 (error_json (Error_text e)) x
       | Inr value \<Rightarrow> write_body value (WriteHeader 200 (set_header ''Content-Type'' ''text/plain'' x))) x"

definition handleWriteError :: "http_req \<Rightarrow> kv_error \<Rightarrow> 's exchange \<Rightarrow> 's exchange option" where
  "handleWriteError r err x =
     (case as_not_leader err of
        None \<Rightarrow> None
      | Some addr \<Rightarrow>
          Some (if addr = '''' then http_Error ''no leader elected'' 503 x
                else http_Redirect (addr @ rqURI r) 307 x))"

text \<open>What every write handler does with an error that is not its own.\<close>

definition write_failed :: "http_req \<Rightarrow> kv_error \<Rightarrow> 's exchange \<Rightarrow> 's exchange" where
  "write_failed r err x =
     (case handleWriteError r err x of
        Some x' \<Rightarrow> x'
      | None \<Rightarrow> writeJSON 500 (error_json (Error_text err)) x)"

definition read_failed :: "kv_error \<Rightarrow> 's exchange \<Rightarrow> 's exchange" where
  "read_failed e x =
     (if e = MaxBytesError then http_Error ''request body too large'' 413 x
      else writeJSON 400 (error_json ''failed to read body'') x)"

definition handlePut :: "int64 \<Rightarrow> 's handler" where
  "handlePut now r x =
     (case rqBody r of
        Inl e \<Rightarrow> read_failed e x
      | Inr body \<Rightarrow>
          call_engine (engGet (eng_of x) now (rqKey r)) (\<lambda>got x.
            let x1 = (case got of
                        Inl e \<Rightarrow> if errors_Is e ErrNotFound then on_metrics IncrKeys x else x
                      | Inr _ \<Rightarrow> x)
            in call_engine (engPut (eng_of x) now (rqKey r) body) (\<lambda>res x.
                 case res of
                   Inl e \<Rightarrow> write_failed r e x
                 | Inr _ \<Rightarrow> writeJSON 200 (ok_json (rqKey r)) x) x1) x)"

definition handleDelete :: "int64 \<Rightarrow> 's handler" where
  "handleDelete now r x =
     call_engine (engGet (eng_of x) now (rqKey r)) (\<lambda>got x.
       let x1 = (case got of Inl e \<Rightarrow> x | Inr _ \<Rightarrow> on_metrics DecrKeys x)
       in call_engine (engDelete (eng_of x) now (rqKey r)) (\<lambda>res x.
            case res of
              Inl e \<Rightarrow> write_failed r e x
            | Inr _ \<Rightarrow> WriteHeader 200 x) x1) x"

definition maxTTL :: int64 where
  "maxTTL = 10 * 365 * 24 * 3600 * 1000000000"

definition handleExpire :: "int64 \<Rightarrow> 's handler" where
  "handleExpire now r x =
     (let ttlStr = rqQuery r ''ttl''
      in if ttlStr = '''' then writeJSON 400 (error_json ''missing ttl query parameter'') x
         else case ParseInt ttlStr of
                None \<Rightarrow> writeJSON 400 (error_json ''ttl must be a positive duration in nanoseconds'') x
              | Some ttl \<Rightarrow>
                  if sint ttl \<le> 0 \<or> sint ttl > sint maxTTL
                  then writeJSON 400 (error_json ''ttl must be a positive duration in nanoseconds'') x
                  else call_engine (engExpire (eng_of x) now (rqKey r) (now + ttl)) (\<lambda>res x.
                         case res of
                           Inl e \<Rightarrow>
                             if errors_Is e ErrNotFound then http_Error ''key not found'' 404 x
                             else write_failed r e x
                         | Inr _ \<Rightarrow> writeJSON 200 (ok_json (rqKey r)) x) x)"

definition handleIncr :: "int64 \<Rightarrow> 's handler" where
  "handleIncr now r x =
     call_engine (engIncr (eng_of x) now (rqKey r)) (\<lambda>res x.
       case res of
         Inl e \<Rightarrow>
           if errors_Is e ErrNotNumeric then writeJSON 422 (error_json ''value is not a base-10 integer'') x
           else if errors_Is e ErrOverflow then writeJSON 422 (error_json ''value overflows int64'') x
           else write_failed r e x
       | Inr v \<Rightarrow> writeJSON 200 (JObj [(''key'', JStr (rqKey r)), (''value'', JNum (FormatInt v))]) x) x"

record cas_body =
  cbOld :: string
  cbNew :: string

definition dec_cas_body :: "json \<Rightarrow> cas_body \<Rightarrow> cas_body option" where
  "dec_cas_body = dec_struct
     [(''old'', \<lambda>j c. map_option (\<lambda>v. c\<lparr>cbOld := v\<rparr>) (dec_string j (cbOld c))),
      (''new'', \<lambda>j c. map_option (\<lambda>v. c\<lparr>cbNew := v\<rparr>) (dec_string j (cbNew c)))]"

definition unmarshal_cas :: "string \<Rightarrow> cas_body option" where
  "unmarshal_cas body =
     (case json_parse body of
        None \<Rightarrow> None
      | Some j \<Rightarrow> dec_cas_body j \<lparr>cbOld = '''', cbNew = ''''\<rparr>)"

definition handleCAS :: "int64 \<Rightarrow> 's handler" where
  "handleCAS now r x =
     (case rqBody r of
        Inl e \<Rightarrow> read_failed e x
      | Inr body \<Rightarrow>
          case unmarshal_cas body of
            None \<Rightarrow> writeJSON 400 (error_json ''body must be JSON with old and new fields'') x
          | Some c \<Rightarrow>
              call_engine (engCAS (eng_of x) now (rqKey r) (cbOld c) (cbNew c)) (\<lambda>res x.
                case res of
                  Inl e \<Rightarrow>
                    if errors_Is e ErrNotFound then http_Error ''key not found'' 404 x
                    else write_failed r e x
                | Inr ok \<Rightarrow>
                    if \<not> ok then writeJSON 409 (error_json ''cas mismatch'') x
                    else writeJSON 200 (ok_json (rqKey r)) x) x)"

definition defaultCount :: int where
  "defaultCount = 100"

definition maxCount :: int where
  "maxCount = 1000"

definition maxCursorLen :: nat where
  "maxCursorLen = 4096"

definition maxPatternLen :: nat where
  "maxPatternLen = 256"

definition item_json :: "KeyValue \<Rightarrow> json" where
  "item_json kv = JObj [(''key'', JStr (kvKey kv)), (''value'', JStr (kvValue kv))]"

text \<open>\<open>None\<close>: the count parameter is refused.\<close>

definition scan_count :: "string \<Rightarrow> int option" where
  "scan_count cs =
     (if cs = '''' then Some defaultCount
      else case ParseInt cs of
             None \<Rightarrow> None
           | Some n \<Rightarrow> if sint n < 1 \<or> sint n > maxCount then None else Some (sint n))"

definition handleScan :: "int64 \<Rightarrow> 's handler" where
  "handleScan now r x =
     (let cursor = rqQuery r ''cursor''; pattern = rqQuery r ''pattern''
      in if length cursor > maxCursorLen then writeJSON 400 (error_json ''cursor too long'') x
         else case scan_count (rqQuery r ''count'') of
                None \<Rightarrow> writeJSON 400 (error_json ''count must be between 1 and 1000'') x
              | Some count \<Rightarrow>
                  if length pattern > maxPatternLen then writeJSON 400 (error_json ''pattern too long'') x
                  else call_engine (\<lambda>st. (engScan (eng_of x) now cursor count pattern st, st)) (\<lambda>res x.
                         case res of
                           Inl e \<Rightarrow> writeJSON 500 (error_json (Error_text e)) x
                         | Inr (items, next_cursor) \<Rightarrow>
                             writeJSON 200 (JObj [(''cursor'', JStr next_cursor),
                               (''items'', JArr (map item_json items))]) x) x)"

section \<open>Metrics\<close>

definition keyCount :: "int64 \<Rightarrow> 's Server \<Rightarrow> int64" where
  "keyCount now sv =
     (case svSize sv of Some sz \<Rightarrow> of_nat (sz now (svStore sv)) | None \<Rightarrow> TotalKeys (svMetrics sv))"

definition expiredCount :: "'s Server \<Rightarrow> uint64" where
  "expiredCount sv = (case svExpired sv of Some f \<Rightarrow> f (svStore sv) | None \<Rightarrow> 0)"

definition handleMetrics :: "(int64 \<Rightarrow> string) \<Rightarrow> (int64 \<Rightarrow> int64) \<Rightarrow> int64 \<Rightarrow> 's handler" where
  "handleMetrics seconds_text seconds_int now r x =
     write_body (render seconds_text seconds_int now (svMetrics (xServer x)) (keyCount now (xServer x))
         (expiredCount (xServer x)))
       (set_header ''Content-Type'' ''text/plain; version=0.0.4; charset=utf-8'' x)"

section \<open>Middleware\<close>

definition maxBodyBytes :: nat where
  "maxBodyBytes = 1048576"

definition limitBody :: "'s handler \<Rightarrow> 's handler" where
  "limitBody next r =
     next (case rqBody r of
             Inr b \<Rightarrow> if length b > maxBodyBytes then r\<lparr>rqBody := Inl MaxBytesError\<rparr> else r
           | Inl _ \<Rightarrow> r)"

text \<open>The pattern \<open>^[a-zA-Z0-9:]+$\<close>.\<close>

definition key_char :: "char \<Rightarrow> bool" where
  "key_char c \<longleftrightarrow>
     CHR ''a'' \<le> c \<and> c \<le> CHR ''z'' \<or> CHR ''A'' \<le> c \<and> c \<le> CHR ''Z'' \<or>
     CHR ''0'' \<le> c \<and> c \<le> CHR ''9'' \<or> c = CHR '':''"

definition keyPattern :: "string \<Rightarrow> bool" where
  "keyPattern k \<longleftrightarrow> k \<noteq> [] \<and> list_all key_char k"

definition validateKey :: "'s handler \<Rightarrow> 's handler" where
  "validateKey next r x =
     (if \<not> keyPattern (rqKey r) then http_Error ''key must contain only alphanumeric characters'' 400 x
      else next r x)"

text \<open>\<open>d\<close> is the time the request takes.  A panic passes through before \<open>Record\<close>.\<close>

definition logRequests :: "int64 \<Rightarrow> 's handler \<Rightarrow> 's handler" where
  "logRequests d next r x =
     (let x1 = next r (x\<lparr>xLogged := 0\<rparr>)
      in case xPanic x1 of
           Some _ \<Rightarrow> x1
         | None \<Rightarrow> on_metrics (Record (if xLogged x1 = 0 then 200 else xLogged x1) d) x1)"

definition recoverPanic :: "'s handler \<Rightarrow> 's handler" where
  "recoverPanic next r x =
     (let x1 = next r x
      in case xPanic x1 of
           None \<Rightarrow> x1
         | Some _ \<Rightarrow> http_Error ''internal server error'' 500 (x1\<lparr>xPanic := None\<rparr>))"

definition cors :: "'s handler \<Rightarrow> 's handler" where
  "cors next r x =
     (let x1 = set_header ''Access-Control-Max-Age'' ''600''
            (set_header ''Access-Control-Allow-Headers'' ''Content-Type''
              (set_header ''Access-Control-Allow-Methods'' ''GET, PUT, DELETE, POST, OPTIONS''
                (set_header ''Access-Control-Allow-Origin'' ''*'' x)))
      in if rqMethod r = ''OPTIONS'' then WriteHeader 204 x1 else next r x1)"

section \<open>The router\<close>

text \<open>What the patterns of \<open>Handler\<close> give for a path: the key and, per method, the handler.  A
  \<open>GET\<close> pattern also serves \<open>HEAD\<close>; a wildcard does not match an empty segment.\<close>

datatype route = RGet | RPut | RDelete | RExpire | RIncr | RCAS | RScan | RMetrics

definition routes_of :: "string list \<Rightarrow> string \<times> (string \<times> route) list" where
  "routes_of path =
     (case path of
        [a] \<Rightarrow>
          if a = ''kv'' then ('''', [(''GET'', RScan), (''HEAD'', RScan)])
          else if a = ''metrics'' then ('''', [(''GET'', RMetrics), (''HEAD'', RMetrics)])
          else ('''', [])
      | [a, k] \<Rightarrow>
          if a = ''kv'' \<and> k \<noteq> '''' then (k, [(''DELETE'', RDelete), (''GET'', RGet), (''HEAD'', RGet), (''PUT'', RPut)])
          else ('''', [])
      | [a, k, b] \<Rightarrow>
          if a = ''kv'' \<and> k \<noteq> '''' \<and> b = ''expire'' then (k, [(''PUT'', RExpire)])
          else if a = ''kv'' \<and> k \<noteq> '''' \<and> b = ''incr'' then (k, [(''POST'', RIncr)])
          else if a = ''kv'' \<and> k \<noteq> '''' \<and> b = ''cas'' then (k, [(''PUT'', RCAS)])
          else ('''', [])
      | _ \<Rightarrow> ('''', []))"

record clocks =
  ckNow :: int64
  ckElapsed :: int64
  ckSecondsText :: "int64 \<Rightarrow> string"
  ckSecondsInt :: "int64 \<Rightarrow> int64"

definition serve_route :: "clocks \<Rightarrow> route \<Rightarrow> 's handler" where
  "serve_route ck rt =
     (case rt of
        RGet \<Rightarrow> validateKey (handleGet (ckNow ck))
      | RPut \<Rightarrow> validateKey (limitBody (handlePut (ckNow ck)))
      | RDelete \<Rightarrow> validateKey (handleDelete (ckNow ck))
      | RExpire \<Rightarrow> validateKey (handleExpire (ckNow ck))
      | RIncr \<Rightarrow> validateKey (handleIncr (ckNow ck))
      | RCAS \<Rightarrow> validateKey (limitBody (handleCAS (ckNow ck)))
      | RScan \<Rightarrow> handleScan (ckNow ck)
      | RMetrics \<Rightarrow> handleMetrics (ckSecondsText ck) (ckSecondsInt ck) (ckNow ck))"

fun join_comma :: "string list \<Rightarrow> string" where
  "join_comma [] = ''''"
| "join_comma [s] = s"
| "join_comma (s # ss) = s @ '', '' @ join_comma ss"

definition mux :: "clocks \<Rightarrow> 's handler" where
  "mux ck r x =
     (case routes_of (rqPath r) of
        (k, rts) \<Rightarrow>
          (case map_of rts (rqMethod r) of
             Some rt \<Rightarrow> serve_route ck rt (r\<lparr>rqKey := k\<rparr>) x
           | None \<Rightarrow>
               if rts = [] then http_Error ''404 page not found'' 404 x
               else http_Error ''Method Not Allowed'' 405 (set_header ''Allow'' (join_comma (map fst rts)) x)))"

definition Handler :: "clocks \<Rightarrow> 's handler" where
  "Handler ck = cors (recoverPanic (logRequests (ckElapsed ck) (mux ck)))"

definition serve :: "clocks \<Rightarrow> http_req \<Rightarrow> 's Server \<Rightarrow> 's exchange" where
  "serve ck r sv = Handler ck r (new_exchange sv)"

end
