(* ===== verification/ApiFacts.thy ===== *)
theory ApiFacts
  imports Api
begin

text \<open>
  What the HTTP layer promises: the status of every write tells what the engine did, reads
  return what was written, panics become 500s, and the counters add up.
\<close>

section \<open>The writers\<close>

named_theorems writer_simps \<open>the fields of an exchange after a response writer\<close>

lemma set_header_fields [simp, writer_simps]:
  "xStatus (set_header k v x) = xStatus x" "xLogged (set_header k v x) = xLogged x" "xBody (set_header k v x) = xBody x"
  "xPanic (set_header k v x) = xPanic x" "xServer (set_header k v x) = xServer x"
  by (simp_all add: set_header_def)

lemma WriteHeader_fields [simp, writer_simps]:
  "xStatus (WriteHeader c x) = (if xStatus x = 0 then c else xStatus x)" "xLogged (WriteHeader c x) = c"
  "xBody (WriteHeader c x) = xBody x" "xPanic (WriteHeader c x) = xPanic x" "xServer (WriteHeader c x) = xServer x"
  "xHeader (WriteHeader c x) = xHeader x"
  by (simp_all add: WriteHeader_def)

lemma write_body_fields [simp, writer_simps]:
  "xStatus (write_body b x) = (if xStatus x = 0 then 200 else xStatus x)"
  "xLogged (write_body b x) = (if xLogged x = 0 then 200 else xLogged x)"
  "xBody (write_body b x) = xBody x @ b" "xPanic (write_body b x) = xPanic x" "xServer (write_body b x) = xServer x"
  "xHeader (write_body b x) = xHeader x"
  by (simp_all add: write_body_def)

lemma on_metrics_fields [simp, writer_simps]:
  "xStatus (on_metrics f x) = xStatus x" "xLogged (on_metrics f x) = xLogged x" "xBody (on_metrics f x) = xBody x"
  "xPanic (on_metrics f x) = xPanic x" "xHeader (on_metrics f x) = xHeader x"
  "svStore (xServer (on_metrics f x)) = svStore (xServer x)" "svEngine (xServer (on_metrics f x)) = svEngine (xServer x)"
  "svMetrics (xServer (on_metrics f x)) = f (svMetrics (xServer x))"
  by (simp_all add: on_metrics_def)

lemma responses [simp, writer_simps]:
  "c \<noteq> 0 \<Longrightarrow> xStatus (http_Error m c x) = (if xStatus x = 0 then c else xStatus x)"
  "c \<noteq> 0 \<Longrightarrow> xStatus (writeJSON c j x) = (if xStatus x = 0 then c else xStatus x)"
  "xStatus (http_Redirect u c x) = (if xStatus x = 0 then c else xStatus x)"
  "xPanic (http_Error m c x) = xPanic x" "xPanic (writeJSON c j x) = xPanic x" "xPanic (http_Redirect u c x) = xPanic x"
  "xServer (http_Error m c x) = xServer x" "xServer (writeJSON c j x) = xServer x" "xServer (http_Redirect u c x) = xServer x"
  by (simp_all add: http_Error_def writeJSON_def http_Redirect_def)

section \<open>The stack\<close>

text \<open>The exchange a handler gets: nothing written, the CORS headers set.\<close>

definition entered :: "'s Server \<Rightarrow> 's exchange" where
  "entered sv =
     set_header ''Access-Control-Max-Age'' ''600''
       (set_header ''Access-Control-Allow-Headers'' ''Content-Type''
         (set_header ''Access-Control-Allow-Methods'' ''GET, PUT, DELETE, POST, OPTIONS''
           (set_header ''Access-Control-Allow-Origin'' ''*'' (new_exchange sv))))"

lemma entered_fields [simp]:
  "xStatus (entered sv) = 0" "xLogged (entered sv) = 0" "xBody (entered sv) = ''''" "xPanic (entered sv) = None"
  "xServer (entered sv) = sv" "entered sv\<lparr>xLogged := 0\<rparr> = entered sv"
  by (simp_all add: entered_def new_exchange_def set_header_def)

lemma serve_eq:
  fixes ck :: clocks and sv :: "'s Server"
  assumes "rqMethod r \<noteq> ''OPTIONS''"
  defines "x \<equiv> mux ck r (entered sv)"
  shows "serve ck r sv =
    (case xPanic x of
       None \<Rightarrow> on_metrics (Record (if xLogged x = 0 then 200 else xLogged x) (ckElapsed ck)) x
     | Some _ \<Rightarrow> http_Error ''internal server error'' 500 (x\<lparr>xPanic := None\<rparr>))"
  using assms entered_fields(6) [of sv]
  by (simp add: serve_def Handler_def cors_def recoverPanic_def logRequests_def x_def entered_def [symmetric] Let_def
      split: option.splits)

lemma serve_fields:
  fixes ck :: clocks and sv :: "'s Server"
  assumes "rqMethod r \<noteq> ''OPTIONS''"
  defines "x \<equiv> mux ck r (entered sv)"
  shows "svStore (xServer (serve ck r sv)) = svStore (xServer x)" "svEngine (xServer (serve ck r sv)) = svEngine (xServer x)"
    and "xPanic x = None \<Longrightarrow> xStatus (serve ck r sv) = xStatus x \<and> xBody (serve ck r sv) = xBody x \<and> xHeader (serve ck r sv) = xHeader x"
    and "xPanic x \<noteq> None \<Longrightarrow> xStatus x = 0 \<Longrightarrow> xStatus (serve ck r sv) = 500"
  using assms by (auto simp: serve_eq split: option.splits)

text \<open>The routes of a valid key.\<close>

lemma mux_key:
  assumes "k \<noteq> ''''" "map_of (snd (routes_of (rqPath r))) (rqMethod r) = Some rt" "fst (routes_of (rqPath r)) = k"
  shows "mux ck r x = serve_route ck rt (r\<lparr>rqKey := k\<rparr>) x"
  using assms by (auto simp: mux_def split: prod.splits)

lemma call_engine_eq:
  assumes "f (svStore (xServer x)) = (r, st)"
  shows "call_engine f k x =
    (case is_panic r of Some m \<Rightarrow> x\<lparr>xServer := (xServer x)\<lparr>svStore := st\<rparr>, xPanic := Some m\<rparr>
     | None \<Rightarrow> k r (x\<lparr>xServer := (xServer x)\<lparr>svStore := st\<rparr>\<rparr>))"
  using assms by (simp add: call_engine_def Let_def)

lemma call_engine_entered:
  "f (svStore sv) = (r, st) \<Longrightarrow> is_panic r = None \<Longrightarrow>
   call_engine f k (entered sv) = k r ((entered sv)\<lparr>xServer := sv\<lparr>svStore := st\<rparr>\<rparr>)"
  by (simp add: call_engine_eq)

text \<open>The status of a write the engine refuses.\<close>

definition refused_status :: "kv_error \<Rightarrow> int" where
  "refused_status e =
     (case e of Panic _ \<Rightarrow> 500
      | _ \<Rightarrow> (case as_not_leader e of None \<Rightarrow> 500 | Some a \<Rightarrow> if a = '''' then 503 else 307))"

lemma write_failed_fields [simp]:
  "xPanic (write_failed r e x) = xPanic x" "xServer (write_failed r e x) = xServer x"
  "xStatus x = 0 \<Longrightarrow> is_panic (Inl e :: unit res) = None \<Longrightarrow> xStatus (write_failed r e x) = refused_status e"
  by (auto simp: write_failed_def handleWriteError_def refused_status_def is_panic_def split: option.splits kv_error.splits)

text \<open>A handler that ends in a call of the engine, answering an error with \<open>write_failed\<close> unless
  it has an answer of its own.\<close>

lemma serve_write:
  fixes ck :: clocks and sv :: "'s Server"
  assumes "rqMethod r \<noteq> ''OPTIONS''" "mux ck r (entered sv) = call_engine f k x1" "f (svStore (xServer x1)) = (p, st)"
    and "xStatus x1 = 0" "xPanic x1 = None" "svEngine (xServer x1) = svEngine sv"
    and "\<And>x. xPanic (k p x) = xPanic x" "\<And>x. xServer (k p x) = xServer x"
    and "\<And>x. is_panic p = None \<Longrightarrow> xStatus x = 0 \<Longrightarrow> xStatus (k p x) = st_ok"
  shows "svStore (xServer (serve ck r sv)) = st" "svEngine (xServer (serve ck r sv)) = svEngine sv"
    and "xStatus (serve ck r sv) = (if is_panic p = None then st_ok else 500)"
proof -
  note x = assms(2) [unfolded call_engine_eq [of f, OF assms(3)]]
  show "svStore (xServer (serve ck r sv)) = st" "svEngine (xServer (serve ck r sv)) = svEngine sv"
    using assms(4-8) by (cases "is_panic p"; simp add: serve_fields [OF assms(1)] x)+
  show "xStatus (serve ck r sv) = (if is_panic p = None then st_ok else 500)"
  proof (cases "is_panic p")
    case None
    then show ?thesis using serve_fields(3) [OF assms(1), of ck sv] assms(4,5,7,9) by (simp add: x)
  next
    case (Some m)
    then show ?thesis using serve_fields(4) [OF assms(1), of ck sv] assms(4) by (simp add: x)
  qed
qed

lemma refused_panic: "is_panic (Inl e) = Some m \<Longrightarrow> refused_status e = 500"
  by (auto simp: is_panic_def refused_status_def split: kv_error.splits)

lemma serve_put:
  fixes ck :: clocks and sv :: "'s Server"
  assumes "rqMethod r = ''PUT''" "rqPath r = [''kv'', k]" "keyPattern k" "rqBody r = Inr b" "length b \<le> maxBodyBytes"
    and "engGet (svEngine sv) (ckNow ck) k (svStore sv) = (g, st1)" "is_panic g = None"
    and "engPut (svEngine sv) (ckNow ck) k b st1 = (p, st2)"
  shows "svStore (xServer (serve ck r sv)) = st2" "svEngine (xServer (serve ck r sv)) = svEngine sv"
    and "xStatus (serve ck r sv) = (case p of Inr _ \<Rightarrow> 200 | Inl e \<Rightarrow> refused_status e)"
proof -
  define r' where "r' = r\<lparr>rqKey := k\<rparr>"
  define y where "y = (entered sv)\<lparr>xServer := sv\<lparr>svStore := st1\<rparr>\<rparr>"
  define x1 where "x1 = (case g of Inl e \<Rightarrow> if errors_Is e ErrNotFound then on_metrics IncrKeys y else y | Inr _ \<Rightarrow> y)"
  have r': "rqKey r' = k" "rqBody r' = Inr b" by (simp_all add: r'_def assms(4))
  have k: "k \<noteq> ''''" using assms(3) by (auto simp: keyPattern_def)
  have got: "call_engine (engGet (svEngine sv) (ckNow ck) k) c (entered sv) = c g y" for c
    using call_engine_entered [where f = "engGet (svEngine sv) (ckNow ck) k", OF assms(6,7)] by (simp add: y_def)
  have "mux ck r (entered sv) = handlePut (ckNow ck) r' (entered sv)"
    using assms(2-5) k by (simp add: r'_def mux_def routes_of_def assms(1) serve_route_def validateKey_def limitBody_def)
  also have "\<dots> = call_engine (engPut (svEngine sv) (ckNow ck) k b) (\<lambda>res x.
      case res of Inl e \<Rightarrow> write_failed r' e x | Inr _ \<Rightarrow> writeJSON 200 (ok_json (rqKey r')) x) x1"
    by (cases g) (simp_all add: handlePut_def r' x1_def got Let_def y_def)
  finally have m: "mux ck r (entered sv) = \<dots>" .
  have x1: "xStatus x1 = 0" "xPanic x1 = None" "svEngine (xServer x1) = svEngine sv" "svStore (xServer x1) = st1"
    by (auto simp: x1_def y_def split: sum.splits)
  note w = serve_write [OF _ m, where p = p and st = st2 and st_ok = "case p of Inr _ \<Rightarrow> 200 | Inl e \<Rightarrow> refused_status e"]
  show "svStore (xServer (serve ck r sv)) = st2" "svEngine (xServer (serve ck r sv)) = svEngine sv"
    by (rule w; use x1 assms(1,8) in \<open>auto split: sum.splits simp: is_panic_def\<close>)+
  have "xStatus (serve ck r sv) = (if is_panic p = None then case p of Inr _ \<Rightarrow> 200 | Inl e \<Rightarrow> refused_status e else 500)"
    by (rule w) (use x1 assms(1,8) in \<open>auto split: sum.splits simp: is_panic_def\<close>)
  then show "xStatus (serve ck r sv) = (case p of Inr _ \<Rightarrow> 200 | Inl e \<Rightarrow> refused_status e)"
    using refused_panic by (cases p) (auto simp: is_panic_def split: if_splits)
qed

text \<open>A handler whose first and only call is the operation \<open>f\<close>.\<close>

lemma serve_one_call:
  fixes ck :: clocks and sv :: "'s Server"
  assumes "rqMethod r \<noteq> ''OPTIONS''" "mux ck r (entered sv) = call_engine f k (entered sv)" "f (svStore sv) = (p, st)"
    and "\<And>x. xPanic (k p x) = xPanic x" "\<And>x. xServer (k p x) = xServer x"
    and "\<And>x. is_panic p = None \<Longrightarrow> xStatus x = 0 \<Longrightarrow> xStatus (k p x) = st_ok"
  shows "svStore (xServer (serve ck r sv)) = st" "svEngine (xServer (serve ck r sv)) = svEngine sv"
    and "xStatus (serve ck r sv) = (if is_panic p = None then st_ok else 500)"
proof -
  note w = serve_write [OF assms(1,2), of p st st_ok]
  show "svStore (xServer (serve ck r sv)) = st" "svEngine (xServer (serve ck r sv)) = svEngine sv"
    "xStatus (serve ck r sv) = (if is_panic p = None then st_ok else 500)"
    by (rule w; use assms in simp)+
qed

lemma serve_get:
  fixes ck :: clocks and sv :: "'s Server"
  assumes "rqMethod r = ''GET''" "rqPath r = [''kv'', k]" "keyPattern k"
    and "engGet (svEngine sv) (ckNow ck) k (svStore sv) = (Inr v, st)"
  shows "xStatus (serve ck r sv) = 200" "xBody (serve ck r sv) = v"
proof -
  have k: "k \<noteq> ''''" using assms(3) by (auto simp: keyPattern_def)
  have m: "mux ck r (entered sv) = handleGet (ckNow ck) (r\<lparr>rqKey := k\<rparr>) (entered sv)"
    using assms(2,3) k by (simp add: mux_def routes_of_def assms(1) serve_route_def validateKey_def)
  let ?y = "(entered sv)\<lparr>xServer := sv\<lparr>svStore := st\<rparr>\<rparr>"
  have "handleGet (ckNow ck) (r\<lparr>rqKey := k\<rparr>) (entered sv) =
      write_body v (WriteHeader 200 (set_header ''Content-Type'' ''text/plain'' ?y))"
    using call_engine_entered [where f = "engGet (svEngine sv) (ckNow ck) k", OF assms(4)]
    by (simp add: handleGet_def is_panic_def)
  with m show "xStatus (serve ck r sv) = 200" "xBody (serve ck r sv) = v"
    using serve_fields(3) [of r ck sv] assms(1) by simp_all
qed

lemma serve_cas:
  fixes ck :: clocks and sv :: "'s Server"
  assumes "rqMethod r = ''PUT''" "rqPath r = [''kv'', k, ''cas'']" "keyPattern k" "rqBody r = Inr b" "length b \<le> maxBodyBytes"
    and "unmarshal_cas b = Some c" "engCAS (svEngine sv) (ckNow ck) k (cbOld c) (cbNew c) (svStore sv) = (p, st)"
  shows "svStore (xServer (serve ck r sv)) = st" "svEngine (xServer (serve ck r sv)) = svEngine sv"
    and "xStatus (serve ck r sv) =
      (case p of Inr ok \<Rightarrow> if ok then 200 else 409 | Inl e \<Rightarrow> if errors_Is e ErrNotFound then 404 else refused_status e)"
proof -
  define r' where "r' = r\<lparr>rqKey := k\<rparr>"
  have r': "rqKey r' = k" "rqBody r' = Inr b" by (simp_all add: r'_def assms(4))
  have k: "k \<noteq> ''''" using assms(3) by (auto simp: keyPattern_def)
  have "mux ck r (entered sv) = handleCAS (ckNow ck) r' (entered sv)"
    using assms(2-5) k by (simp add: r'_def mux_def routes_of_def assms(1) serve_route_def validateKey_def limitBody_def)
  also have "\<dots> = call_engine (engCAS (svEngine sv) (ckNow ck) k (cbOld c) (cbNew c)) (\<lambda>res x.
      case res of
        Inl e \<Rightarrow> if errors_Is e ErrNotFound then http_Error ''key not found'' 404 x else write_failed r' e x
      | Inr ok \<Rightarrow> if \<not> ok then writeJSON 409 (error_json ''cas mismatch'') x else writeJSON 200 (ok_json (rqKey r')) x) (entered sv)"
    by (simp add: handleCAS_def r' assms(6))
  finally have m: "mux ck r (entered sv) = \<dots>" .
  let ?s = "case p of Inr ok \<Rightarrow> if ok then 200 else 409 | Inl e \<Rightarrow> if errors_Is e ErrNotFound then 404 else refused_status e"
  note w = serve_one_call [OF _ m, where p = p and st = st and st_ok = ?s]
  show "svStore (xServer (serve ck r sv)) = st" "svEngine (xServer (serve ck r sv)) = svEngine sv"
    by (rule w; use assms(1,7) in \<open>auto split: sum.splits simp: is_panic_def\<close>)+
  have "xStatus (serve ck r sv) = (if is_panic p = None then ?s else 500)"
    by (rule w) (use assms(1,7) in \<open>auto split: sum.splits simp: is_panic_def\<close>)
  then show "xStatus (serve ck r sv) = ?s"
    using refused_panic by (cases p) (auto simp: is_panic_def split: if_splits kv_error.splits)
qed

context engine_ops
begin

text \<open>A \<open>PUT\<close> answered with 200 is what every later \<open>GET\<close> returns.\<close>

lemma http_put_get:
  assumes "svEngine sv = eng" "inv (svStore sv)" "rqMethod r = ''PUT''" "rqPath r = [''kv'', k]" "keyPattern k"
    and "rqBody r = Inr b" "length b \<le> maxBodyBytes" "xStatus (serve ck r sv) = 200"
    and "rqMethod g = ''GET''" "rqPath g = [''kv'', k]" "reached (ckNow ck) (ckNow ck')"
  shows "xStatus (serve ck' g (xServer (serve ck r sv))) = 200 \<and> xBody (serve ck' g (xServer (serve ck r sv))) = b"
proof -
  obtain q st1 where get: "engGet eng (ckNow ck) k (svStore sv) = (q, st1)" by fastforce
  obtain p st2 where put: "engPut eng (ckNow ck) k b st1 = (p, st2)" by fastforce
  have "is_panic q = None" using get_result [OF assms(2) get] by (auto simp: is_panic_def split: option.splits)
  note w = serve_put [OF assms(3-7), of sv ck, unfolded assms(1), OF get this put]
  have "p = Inr ()"
  proof (cases p)
    case (Inl e)
    then have "refused_status e = 200" using w(3) assms(8) by simp
    then show ?thesis by (auto simp: refused_status_def split: kv_error.splits option.splits if_splits)
  qed simp
  moreover have "inv st1" using inv_get [OF assms(2), of "ckNow ck" k] get by simp
  ultimately have "fst (engGet eng (ckNow ck') k st2) = Inr b" using read_your_write put assms(11) by blast
  then show ?thesis using serve_get [OF assms(9,10,5), of "xServer (serve ck r sv)" ck'] w(1,2)
    by (metis prod.collapse)
qed

text \<open>The status of a compare-and-swap tells what happened to the key.\<close>

lemma http_cas_status:
  fixes ck :: clocks
  assumes "svEngine sv = eng" "inv (svStore sv)" "rqMethod r = ''PUT''" "rqPath r = [''kv'', k, ''cas'']" "keyPattern k"
    and "rqBody r = Inr b" "length b \<le> maxBodyBytes" "unmarshal_cas b = Some c"
  defines "st \<equiv> svStore sv" and "st' \<equiv> svStore (xServer (serve ck r sv))" and "now \<equiv> ckNow ck"
  shows "xStatus (serve ck r sv) = 200 \<Longrightarrow> live st now k = Some (cbOld c) \<and> live st' now = (live st now)(k \<mapsto> cbNew c)"
    and "xStatus (serve ck r sv) = 409 \<Longrightarrow> (\<exists>v. live st now k = Some v \<and> v \<noteq> cbOld c) \<and> live st' now = live st now"
    and "xStatus (serve ck r sv) \<noteq> 200 \<Longrightarrow> live st' now = live st now"
proof -
  obtain p s' where cas: "engCAS eng now k (cbOld c) (cbNew c) st = (p, s')" by fastforce
  note w = serve_cas [OF assms(3-8), of sv ck, unfolded assms(1), OF cas [unfolded st_def now_def]]
  have s': "st' = s'" using w(1) by (simp add: st'_def)
  have i: "inv st" using assms(2) by (simp add: st_def)
  have e: "refused_status x \<notin> {200, 409}" for x
    by (auto simp: refused_status_def split: kv_error.splits option.splits if_splits)
  show "xStatus (serve ck r sv) = 200 \<Longrightarrow> live st now k = Some (cbOld c) \<and> live st' now = (live st now)(k \<mapsto> cbNew c)"
    using w(3) e cas_swapped [OF i, of now k "cbOld c" "cbNew c" s' now] cas by (auto simp: s' split: sum.splits if_splits)
  show "xStatus (serve ck r sv) = 409 \<Longrightarrow> (\<exists>v. live st now k = Some v \<and> v \<noteq> cbOld c) \<and> live st' now = live st now"
    using w(3) e cas_mismatch [OF i, of now k "cbOld c" "cbNew c" s' now] cas by (auto simp: s' split: sum.splits if_splits)
  show "xStatus (serve ck r sv) \<noteq> 200 \<Longrightarrow> live st' now = live st now"
    using w(3) cas_mismatch [OF i, of now k "cbOld c" "cbNew c" s' now] cas_err [OF i, of now k "cbOld c" "cbNew c" _ s' now] cas
    by (auto simp: s' split: sum.splits if_splits)
qed

end

section \<open>The counters\<close>

definition counts_ok :: "'s exchange \<Rightarrow> bool" where
  "counts_ok x \<longleftrightarrow> metrics_ok (svMetrics (xServer x))"

lemma counts_ok_writers [simp]:
  "counts_ok (set_header a b x) = counts_ok x" "counts_ok (WriteHeader c x) = counts_ok x" "counts_ok (write_body s x) = counts_ok x"
  "counts_ok (http_Error m c x) = counts_ok x" "counts_ok (writeJSON c j x) = counts_ok x"
  "counts_ok (write_failed r e x) = counts_ok x" "counts_ok (read_failed e x) = counts_ok x"
  "counts_ok (on_metrics IncrKeys x) = counts_ok x" "counts_ok (on_metrics DecrKeys x) = counts_ok x"
  "counts_ok (x\<lparr>xPanic := p\<rparr>) = counts_ok x" "counts_ok (x\<lparr>xLogged := l\<rparr>) = counts_ok x"
  by (simp_all add: counts_ok_def read_failed_def)

lemma counts_ok_call:
  assumes "counts_ok x" "\<And>res y. counts_ok y \<Longrightarrow> counts_ok (k res y)"
  shows "counts_ok (call_engine f k x)"
proof -
  obtain r st where f: "f (svStore (xServer x)) = (r, st)" by fastforce
  have "counts_ok (x\<lparr>xServer := (xServer x)\<lparr>svStore := st\<rparr>\<rparr>)" using assms(1) by (simp add: counts_ok_def)
  with assms(2) show ?thesis by (auto simp: call_engine_eq [of f x, OF f] counts_ok_def split: option.splits)
qed

lemma counts_ok_route: "counts_ok x \<Longrightarrow> counts_ok (serve_route ck rt r x)"
  by (cases rt)
    (auto simp: serve_route_def validateKey_def limitBody_def handleGet_def handlePut_def handleDelete_def handleExpire_def
      handleIncr_def handleCAS_def handleScan_def handleMetrics_def Let_def intro!: counts_ok_call
      split: sum.splits option.splits prod.splits)

lemma counts_ok_mux: "counts_ok x \<Longrightarrow> counts_ok (mux ck r x)"
  by (auto simp: mux_def counts_ok_route split: prod.splits option.splits)

lemma serve_metrics:
  assumes "metrics_ok (svMetrics sv)"
  shows "metrics_ok (svMetrics (xServer (serve ck r sv)))"
proof -
  have e: "counts_ok (entered sv)" using assms by (simp add: counts_ok_def)
  have "counts_ok (serve ck r sv)"
  proof (cases "rqMethod r = ''OPTIONS''")
    case True
    then show ?thesis using e by (simp add: serve_def Handler_def cors_def entered_def [symmetric])
  next
    case False
    have "counts_ok (on_metrics (Record s d) x)" if "counts_ok x" for s d and x :: "'a exchange"
      using that metrics_ok_Record by (simp add: counts_ok_def)
    then show ?thesis using counts_ok_mux [OF e, of ck r] by (auto simp: serve_eq [OF False] split: option.splits)
  qed
  then show ?thesis by (simp add: counts_ok_def)
qed

fun serve_all :: "(clocks \<times> http_req) list \<Rightarrow> 's Server \<Rightarrow> 's Server" where
  "serve_all [] sv = sv"
| "serve_all ((ck, r) # rs) sv = serve_all rs (xServer (serve ck r sv))"

lemma serve_all_metrics: "metrics_ok (svMetrics sv) \<Longrightarrow> metrics_ok (svMetrics (serve_all rs sv))"
  by (induction rs arbitrary: sv) (auto simp: serve_metrics)

end
