(* ===== verification/Durability.thy ===== *)
theory Durability
  imports DiskStore
begin

text \<open>
  What survives a crash of the \<open>DiskStore\<close>.  First, for every environment: a successful reply
  is given only after the record is in the log and the log is synced.  Second, while the
  environment reports no I/O error and no deadline is passed: after any sequence of
  requests, timer ticks, sweeps and compactions, opening the files again gives the memory
  the store had.  Last, the limits of recovery: replay over a snapshot that already holds
  the log, and replay after a deadline has passed.
\<close>

section \<open>Logged records\<close>

text \<open>\<open>logged c w rs w'\<close>: from \<open>w\<close> to \<open>w'\<close> exactly the records \<open>rs\<close> were appended.\<close>

definition logged :: "WAL \<Rightarrow> world \<Rightarrow> wal_record list \<Rightarrow> world \<Rightarrow> bool" where
  "logged c w rs w' \<longleftrightarrow>
     (case c of
        None \<Rightarrow> walFile w' = walFile w @ recs_bytes rs
      | Some ci \<Rightarrow> \<exists>fs. map snd fs = rs \<and> (\<forall>f \<in> set fs. \<exists>i. nonceAt w i = Inr (fst f)) \<and>
                     walFile w' = walFile w @ concat (map (frame_bytes ci) fs)) \<and>
     ioAt w' = ioAt w \<and> nonceAt w' = nonceAt w \<and> snapFile w' = snapFile w"

lemma logged_Nil: "logged c w [] w' \<longleftrightarrow> walFile w' = walFile w \<and>
    ioAt w' = ioAt w \<and> nonceAt w' = nonceAt w \<and> snapFile w' = snapFile w"
  by (auto simp: logged_def split: option.splits)

lemma logged_trans: "logged c w rs w1 \<Longrightarrow> logged c w1 rs' w2 \<Longrightarrow> logged c w (rs @ rs') w2"
  by (auto simp: logged_def split: option.splits)
    (metis (no_types, lifting) Un_iff append_assoc concat_append map_append set_append)

lemma file_Write_ok:
  "file_Write b w = (Inr u, w') \<Longrightarrow> w' = w\<lparr>walFile := walFile w @ b, ioCnt := ioCnt w + 1\<rparr>"
  by (auto simp: file_Write_def split: option.splits)

lemma wal_append_logged:
  assumes "wal_append c (rec_bytes r) w = (Inr u, w')"
  shows "logged c w [r] w'"
proof (cases c)
  case None
  with assms show ?thesis by (auto simp: wal_append_def logged_def dest!: file_Write_ok)
next
  case (Some ci)
  from assms Some obtain sealed w1 where
    s: "seal ci (rec_bytes r) w = (Inr sealed, w1)"
    and w': "walFile w' = walFile w1 @ AppendUint32 [] (of_nat (length sealed)) @ sealed"
      "ioAt w' = ioAt w1" "nonceAt w' = nonceAt w1" "snapFile w' = snapFile w1"
    by (auto simp: wal_append_def and_then_Inr dest!: file_Write_ok)
  from s obtain n where n: "nonceAt w (nonceCnt w) = Inr n"
      "sealed = n @ aSeal (aead ci) n (rec_bytes r)" "w1 = w\<lparr>nonceCnt := nonceCnt w + 1\<rparr>"
    by (auto simp: seal_def Encrypt_def split: sum.splits)
  have "walFile w' = walFile w @ frame_bytes ci (n, r)"
    using w' n by (simp add: frame_bytes_def AppendUint32_def Let_def)
  then show ?thesis
    using w' n Some by (auto simp: logged_def intro!: exI [of _ "[(n, r)]"])
qed

section \<open>A successful reply is durable\<close>

definition req_recs :: "batchRequest \<Rightarrow> wal_record list" where
  "req_recs req =
     (if brOp req = opPut then [RecPut (brKey req) (brValue req)]
      else if brOp req = opDelete then [RecDelete (brKey req)]
      else if brOp req = opClear then [RecClear]
      else if brOp req = opIncr then [RecIncr (brKey req)]
      else if brOp req = opCAS then [RecCAS (brKey req) (brOld req) (brValue req)]
      else if brOp req = opExpire then [RecExpire (brKey req) (brExpiresAt req)]
      else [])"

definition fully_synced :: "world \<Rightarrow> bool" where
  "fully_synced w \<longleftrightarrow> walSynced w = length (walFile w)"

lemma append_req_logged:
  assumes "append_req c req w = (Inr u, w')" "of_char (brOp req) < (4::nat)"
  shows "logged c w (req_recs req) w'"
proof -
  have "brOp req \<noteq> opIncr" "brOp req \<noteq> opCAS" "brOp req \<noteq> opExpire" using assms(2) by auto
  with assms show ?thesis
    by (auto simp: append_req_def Append_rec_bytes req_recs_def logged_Nil wal_append_logged split: if_splits)
qed

lemma append_reqs_logged:
  assumes "append_reqs c reqs w = (Inr u, w')" "\<forall>req \<in> set reqs. of_char (brOp req) < (4::nat)"
  shows "logged c w (concat (map req_recs reqs)) w'"
  using assms
proof (induction reqs arbitrary: w)
  case Nil
  then show ?case by (simp add: logged_Nil)
next
  case (Cons req reqs)
  then show ?case by (auto simp: and_then_Inr intro: logged_trans append_req_logged)
qed

lemma file_Sync_ok:
  "wal_Sync w = (Inr u, w') \<Longrightarrow> w' = w\<lparr>walSynced := length (walFile w), ioCnt := ioCnt w + 1\<rparr>"
  by (auto simp: wal_Sync_def file_Sync_def split: option.splits)

lemma logged_sync: "logged c w rs (w'\<lparr>walSynced := n, ioCnt := i\<rparr>) = logged c w rs w'"
  by (simp add: logged_def split: option.split)

lemma writeBatch_ack:
  assumes "writeBatch batch s = (rs, s')" "(req, Inr x) \<in> set rs"
    and "\<forall>req \<in> set batch. of_char (brOp req) < (4::nat)"
  shows "logged (dcipher s) (dworld s) (concat (map req_recs batch)) (dworld s')"
    and "fully_synced (dworld s')" and "dmem s' = fold apply_req batch (dmem s)"
proof -
  have ne: "batch \<noteq> []" using assms by (auto simp: writeBatch_def)
  obtain w1 w2 u u' where "append_reqs (dcipher s) batch (dworld s) = (Inr u, w1)" "wal_Sync w1 = (Inr u', w2)"
      "dworld s' = w2" "dmem s' = fold apply_req batch (dmem s)"
    using assms ne
    by (auto simp: writeBatch_def and_then_def on_wal_def split: prod.splits sum.splits)
  then show "logged (dcipher s) (dworld s) (concat (map req_recs batch)) (dworld s')"
    "fully_synced (dworld s')" "dmem s' = fold apply_req batch (dmem s)"
    using append_reqs_logged assms(3) by (auto simp: logged_sync fully_synced_def dest!: file_Sync_ok)
qed

lemma writeSingle_ack:
  assumes "writeSingle clk req s = (Inr x, s')" "x \<noteq> RBool False"
  shows "logged (dcipher s) (dworld s) (req_recs req) (dworld s')" and "fully_synced (dworld s')"
proof -
  have "logged (dcipher s) (dworld s) (req_recs req) (dworld s') \<and> fully_synced (dworld s')"
    using assms
    by (auto simp: writeSingle_def and_then_Inr on_wal_def req_recs_def Append_rec_bytes fully_synced_def
        logged_sync split: if_splits prod.splits sum.splits dest!: file_Sync_ok wal_append_logged)
  then show "logged (dcipher s) (dworld s) (req_recs req) (dworld s')" "fully_synced (dworld s')" by auto
qed

section \<open>Replay while no deadline has passed\<close>

text \<open>The effect of a record on the data when nothing in it is expired.\<close>

fun rec_eff :: "wal_record \<Rightarrow> (string, entry) fmap \<Rightarrow> (string, entry) fmap" where
  "rec_eff (RecPut k v) d = fmupd k \<lparr>eValue = v, eExp = 0\<rparr> d"
| "rec_eff (RecDelete k) d = fmdrop k d"
| "rec_eff RecClear d = fmempty"
| "rec_eff (RecIncr k) d =
     (case fmlookup d k of
        None \<Rightarrow> fmupd k \<lparr>eValue = ''1'', eExp = 0\<rparr> d
      | Some e \<Rightarrow>
          (case ParseInt (eValue e) of
             None \<Rightarrow> d
           | Some v \<Rightarrow> if v = MaxInt64 then d else fmupd k \<lparr>eValue = FormatInt (v + 1), eExp = 0\<rparr> d))"
| "rec_eff (RecCAS k old new) d =
     (case fmlookup d k of
        None \<Rightarrow> d
      | Some e \<Rightarrow> if eValue e = old then fmupd k \<lparr>eValue = new, eExp = 0\<rparr> d else d)"
| "rec_eff (RecExpire k t) d =
     (case fmlookup d k of
        None \<Rightarrow> d
      | Some e \<Rightarrow> fmupd k \<lparr>eValue = eValue e, eExp = t\<rparr> d)"

fun rec_deadlines :: "wal_record \<Rightarrow> int64 set" where
  "rec_deadlines (RecExpire k t) = {t}"
| "rec_deadlines _ = {}"

definition rec_within :: "int64 set \<Rightarrow> wal_record \<Rightarrow> bool" where
  "rec_within D r \<longleftrightarrow> rec_deadlines r \<subseteq> D"

text \<open>\<open>D\<close> is the set of deadlines in play, none of them reached at \<open>t\<close>.\<close>

definition unreached :: "int64 set \<Rightarrow> int64 \<Rightarrow> bool" where
  "unreached D t \<longleftrightarrow> (\<forall>d \<in> D. d \<noteq> 0 \<longrightarrow> \<not> reached d t)"

definition calm :: "int64 set \<Rightarrow> (string, entry) fmap \<Rightarrow> bool" where
  "calm D d \<longleftrightarrow> (\<forall>k e. fmlookup d k = Some e \<longrightarrow> eExp e = 0 \<or> eExp e \<in> D)"

lemma calm_not_expired:
  assumes "calm D d" "unreached D t" "fmlookup d k = Some e"
  shows "\<not> entryExpired e t"
  using assms by (auto simp: calm_def unreached_def entryExpired_def reached_def)

lemma calm_rec_eff: "calm D d \<Longrightarrow> rec_within D r \<Longrightarrow> calm D (rec_eff r d)"
  by (cases r) (auto simp: calm_def rec_within_def split: option.splits if_splits)

lemma calm_recs:
  "calm D d \<Longrightarrow> \<forall>r \<in> set rs. rec_within D r \<Longrightarrow> calm D (fold rec_eff rs d)"
  by (induction rs arbitrary: d) (auto simp: calm_rec_eff)

lemma rec_apply_calm:
  assumes "calm D (mdata m)" "unreached D t"
  shows "mdata (rec_apply t r m) = rec_eff r (mdata m)"
  using calm_not_expired [OF assms]
  by (cases r)
    (auto simp: mem_Put_def mem_Delete_def mem_Clear_def mem_Incr_def mem_CAS_def mem_Expire_def Let_def
      split: option.splits)

lemma recs_apply_calm:
  assumes "calm D (mdata m)" "\<forall>r \<in> set rs. rec_within D r" "\<And>i. unreached D (clk i)"
  shows "mdata (recs_apply clk i rs m) = fold rec_eff rs (mdata m)"
  using assms(1,2)
proof (induction rs arbitrary: i m)
  case (Cons r rs)
  note eff = rec_apply_calm [OF Cons.prems(1) assms(3), of i r]
  have "calm D (mdata (rec_apply (clk i) r m))"
    unfolding eff using Cons.prems by (intro calm_rec_eff) auto
  with Cons eff show ?case by simp
qed simp

section \<open>The invariant of the running store\<close>

definition quiet :: "world \<Rightarrow> bool" where
  "quiet w \<longleftrightarrow> ioAt w = (\<lambda>_. None) \<and> (\<forall>i. \<exists>n. nonceAt w i = Inr n \<and> length n = atRestNonceSize)"

definition cipher_ok :: "WAL \<Rightarrow> bool" where
  "cipher_ok c \<longleftrightarrow> (\<forall>ci. c = Some ci \<longrightarrow> aead_ok (aead ci))"

text \<open>A record the log's reader accepts.\<close>

definition loggable :: "WAL \<Rightarrow> wal_record \<Rightarrow> bool" where
  "loggable c r \<longleftrightarrow> rec_ok r \<and> (c \<noteq> None \<longrightarrow> length (rec_bytes r) + 28 \<le> maxRecordField * 2 + 64)"

definition wal_image :: "WAL \<Rightarrow> wal_record list \<Rightarrow> bytes \<Rightarrow> bool" where
  "wal_image c rs file \<longleftrightarrow>
     (case c of
        None \<Rightarrow> file = recs_bytes rs \<and> list_all rec_ok rs
      | Some ci \<Rightarrow> \<exists>fs. map snd fs = rs \<and> list_all frame_ok fs \<and>
                     file = walEncryptedMagic # concat (map (frame_bytes ci) fs))"

lemma wal_image_logged:
  assumes "wal_image c rs (walFile w)" "logged c w rs' w'" "quiet w" "\<forall>r \<in> set rs'. loggable c r"
  shows "wal_image c (rs @ rs') (walFile w')"
proof (cases c)
  case None
  with assms show ?thesis
    by (auto simp: wal_image_def logged_def loggable_def list_all_iff)
next
  case (Some ci)
  with assms obtain fs fs' where fs: "map snd fs = rs" "list_all frame_ok fs"
      "walFile w = walEncryptedMagic # concat (map (frame_bytes ci) fs)"
    and fs': "map snd fs' = rs'" "\<forall>f \<in> set fs'. \<exists>i. nonceAt w i = Inr (fst f)"
      "walFile w' = walFile w @ concat (map (frame_bytes ci) fs')"
    by (auto simp: wal_image_def logged_def)
  have "frame_ok f" if "f \<in> set fs'" for f
  proof -
    from fs'(2) that obtain i where "nonceAt w i = Inr (fst f)" by blast
    then have "length (fst f) = atRestNonceSize" using assms(3) unfolding quiet_def by (metis sum.inject(2))
    moreover have "loggable c (snd f)" using assms(4) fs'(1) that by force
    ultimately show ?thesis using Some by (auto simp: frame_ok_def loggable_def)
  qed
  then have "list_all frame_ok (fs @ fs')" using fs(2) by (auto simp: list_all_iff)
  then show ?thesis using Some fs fs' by (auto simp: wal_image_def intro!: exI [of _ "fs @ fs'"])
qed

lemma Replay_image:
  assumes "wal_image c rs file" "cipher_ok c"
  shows "Replay c clk file m = (Inr (), recs_apply clk 0 rs m)"
  using assms
  by (auto simp: Replay_def wal_image_def cipher_ok_def replayPlain_recs replayEncrypted_recs split: option.splits)

lemma quiet_logged: "logged c w rs w' \<Longrightarrow> quiet w \<Longrightarrow> quiet w'"
  by (simp add: logged_def quiet_def)

lemma quiet_append:
  assumes "quiet w"
  obtains w' where "wal_append c (rec_bytes r) w = (Inr (), w')" "logged c w [r] w'"
proof -
  obtain n where "nonceAt w (nonceCnt w) = Inr n" using assms by (auto simp: quiet_def)
  then have "\<exists>w'. wal_append c (rec_bytes r) w = (Inr (), w')"
    using assms
    by (auto simp: wal_append_def and_then_def seal_def Encrypt_def file_Write_def quiet_def split: option.split)
  with wal_append_logged that show thesis by blast
qed

lemma quiet_append_reqs:
  assumes "quiet w" "\<forall>req \<in> set reqs. of_char (brOp req) < (4::nat)"
  shows "\<exists>w'. append_reqs c reqs w = (Inr (), w')"
  using assms
proof (induction reqs arbitrary: w)
  case (Cons req reqs)
  have "\<exists>w1. append_req c req w = (Inr (), w1)"
    using quiet_append [OF Cons.prems(1)] unfolding append_req_def Append_rec_bytes by (auto, metis+)
  then obtain w1 where w1: "append_req c req w = (Inr (), w1)" by blast
  have "quiet w1" using append_req_logged [OF w1] Cons.prems by (auto intro: quiet_logged)
  with Cons w1 show ?case by (auto simp: and_then_def)
qed simp

lemma quiet_sync:
  "quiet w \<Longrightarrow> wal_Sync w = (Inr (), w\<lparr>walSynced := length (walFile w), ioCnt := ioCnt w + 1\<rparr>)"
  by (simp add: wal_Sync_def file_Sync_def quiet_def)

text \<open>\<open>advances rs s s'\<close>: the step logged exactly \<open>rs\<close>, synced them, and memory follows.\<close>

definition advances :: "wal_record list \<Rightarrow> DiskStore \<Rightarrow> DiskStore \<Rightarrow> bool" where
  "advances rs s s' \<longleftrightarrow> dcipher s' = dcipher s \<and> logged (dcipher s) (dworld s) rs (dworld s') \<and>
     (fully_synced (dworld s) \<longrightarrow> fully_synced (dworld s')) \<and>
     mdata (dmem s') = fold rec_eff rs (mdata (dmem s))"

lemma advances_same:
  assumes "mdata (dmem s') = mdata (dmem s)" "dworld s' = dworld s" "dcipher s' = dcipher s"
  shows "advances [] s s'"
  using assms by (simp add: advances_def logged_Nil)

lemma mdata_apply_req:
  "of_char (brOp req) < (4::nat) \<Longrightarrow> mdata (apply_req req m) = fold rec_eff (req_recs req) (mdata m)"
  by (auto simp: apply_req_def req_recs_def mem_Put_def mem_Delete_def mem_Clear_def)

lemma mdata_apply_reqs:
  "\<forall>req \<in> set reqs. of_char (brOp req) < (4::nat) \<Longrightarrow>
   mdata (fold apply_req reqs m) = fold rec_eff (concat (map req_recs reqs)) (mdata m)"
  by (induction reqs arbitrary: m) (auto simp: mdata_apply_req)

lemma writeBatch_advances:
  assumes "quiet (dworld s)" "\<forall>req \<in> set batch. of_char (brOp req) < (4::nat)"
  shows "advances (concat (map req_recs batch)) s (snd (writeBatch batch s))"
proof (cases "batch = []")
  case True
  then show ?thesis by (simp add: writeBatch_def advances_same)
next
  case False
  obtain w1 where w1: "append_reqs (dcipher s) batch (dworld s) = (Inr (), w1)"
    using quiet_append_reqs [OF assms] by blast
  note lg = append_reqs_logged [OF w1 assms(2)]
  then have "quiet w1" using assms(1) by (rule quiet_logged)
  then show ?thesis
    using False w1 lg mdata_apply_reqs [OF assms(2), of "dmem s"]
    by (simp add: writeBatch_def and_then_def on_wal_def quiet_sync advances_def logged_sync fully_synced_def)
qed

lemma mem_Get_calm:
  assumes "calm D (mdata m)" "unreached D t"
  shows "mem_Get t t' k m =
    (case fmlookup (mdata m) k of None \<Rightarrow> (Inl ErrNotFound, m) | Some e \<Rightarrow> (Inr (eValue e), m))"
  using calm_not_expired [OF assms] by (auto simp: mem_Get_def split: option.split)

lemma writeSingle_advances:
  assumes "quiet (dworld s)" "calm D (mdata (dmem s))" "\<And>i. unreached D (clk i)"
  shows "\<exists>rs. set rs \<subseteq> set (req_recs req) \<and> advances rs s (snd (writeSingle clk req s))"
proof -
  have app: "\<exists>w'. wal_append (dcipher s) (rec_bytes r) (dworld s) = (Inr (), w') \<and>
      logged (dcipher s) (dworld s) [r] w' \<and> quiet w'" for r
    using quiet_append [OF assms(1), of "dcipher s" r] quiet_logged assms(1) by metis
  note get = mem_Get_calm [OF assms(2) assms(3)]
  note eff = rec_apply_calm [OF assms(2) assms(3)]
  show ?thesis
  proof (cases "brOp req = opIncr")
    case True
    obtain w' where "wal_append (dcipher s) (rec_bytes (RecIncr (brKey req))) (dworld s) = (Inr (), w')"
        "logged (dcipher s) (dworld s) [RecIncr (brKey req)] w'" "quiet w'" using app by blast
    with True eff [of 0 "RecIncr (brKey req)"] show ?thesis
      by (intro exI [of _ "[RecIncr (brKey req)]"])
        (auto simp: writeSingle_def req_recs_def Append_rec_bytes and_then_def on_wal_def quiet_sync advances_def
          logged_sync fully_synced_def split: prod.splits sum.splits)
  next
    case not_incr: False
    show ?thesis
    proof (cases "brOp req = opCAS")
      case True
      let ?r = "RecCAS (brKey req) (brOld req) (brValue req)"
      obtain w' where w': "wal_append (dcipher s) (rec_bytes ?r) (dworld s) = (Inr (), w')"
          "logged (dcipher s) (dworld s) [?r] w'" "quiet w'" using app by blast
      show ?thesis
      proof (cases "\<exists>e. fmlookup (mdata (dmem s)) (brKey req) = Some e \<and> eValue e = brOld req")
        case match: True
        with True w' show ?thesis
          by (intro exI [of _ "[?r]"])
            (auto simp: writeSingle_def req_recs_def Append_rec_bytes and_then_def on_wal_def quiet_sync advances_def
              logged_sync fully_synced_def get mem_Put_def)
      next
        case mismatch: False
        with True show ?thesis
          by (intro exI [of _ "[]"]) (auto simp: writeSingle_def get split: option.splits intro!: advances_same)
      qed
    next
      case not_cas: False
      show ?thesis
      proof (cases "brOp req = opExpire \<and> fmlookup (mdata (dmem s)) (brKey req) \<noteq> None")
        case True
        let ?r = "RecExpire (brKey req) (brExpiresAt req)"
        obtain w' where "wal_append (dcipher s) (rec_bytes ?r) (dworld s) = (Inr (), w')"
            "logged (dcipher s) (dworld s) [?r] w'" "quiet w'" using app by blast
        with True eff [of 2 ?r] show ?thesis
          by (intro exI [of _ "[?r]"])
            (auto simp: writeSingle_def req_recs_def Append_rec_bytes and_then_def on_wal_def quiet_sync advances_def
              logged_sync fully_synced_def get split: prod.splits sum.splits)
      next
        case False
        with not_incr not_cas show ?thesis
          by (intro exI [of _ "[]"]) (auto simp: writeSingle_def get intro!: advances_same)
      qed
    qed
  qed
qed

text \<open>Text fields that survive the JSON of a snapshot.\<close>

fun rec_utf8 :: "wal_record \<Rightarrow> bool" where
  "rec_utf8 (RecPut k v) = (valid_utf8 k \<and> valid_utf8 v)"
| "rec_utf8 (RecIncr k) = valid_utf8 k"
| "rec_utf8 (RecCAS k old new) = (valid_utf8 k \<and> valid_utf8 new)"
| "rec_utf8 _ = True"

lemma valid_utf8_FormatInt: "valid_utf8 (FormatInt n)"
proof (rule valid_utf8_ascii)
  have "list_all (\<lambda>c. byte_of c < 128) (format_nat k)" for k
    using format_nat_digits [of k] by (auto simp: list_all_iff is_digit_def byte_of_def)
  then show "list_all (\<lambda>c. byte_of c < 128) (FormatInt n)" by (simp add: FormatInt_def byte_of_def)
qed

lemma utf8_rec_eff:
  assumes "utf8_data d" "rec_utf8 r"
  shows "utf8_data (rec_eff r d)"
proof -
  have "valid_utf8 ''1''" by (rule valid_utf8_ascii) (simp add: byte_of_def)
  with assms show ?thesis
    by (cases r) (auto simp: utf8_data_def valid_utf8_FormatInt split: option.splits if_splits)
qed

lemma utf8_recs: "utf8_data d \<Longrightarrow> \<forall>r \<in> set rs. rec_utf8 r \<Longrightarrow> utf8_data (fold rec_eff rs d)"
  by (induction rs arbitrary: d) (auto simp: utf8_rec_eff)

definition snap_holds :: "WAL \<Rightarrow> bytes option \<Rightarrow> (string, entry) fmap \<Rightarrow> bool" where
  "snap_holds c file d \<longleftrightarrow> utf8_data d \<and>
     (case file of
        None \<Rightarrow> d = fmempty
      | Some data \<Rightarrow>
          (case c of
             None \<Rightarrow> data = marshal_snapshot d
           | Some ci \<Rightarrow> \<exists>sealed. data = snapshotMagic @ sealed \<and> Decrypt ci sealed = Inr (marshal_snapshot d)))"

lemma marshal_not_magic: "take (length snapshotMagic) (marshal_snapshot d) \<noteq> snapshotMagic"
  by (simp add: marshal_snapshot_def snapshotFile_json_def snapshotMagic_def)

lemma io_call_quiet:
  "ioAt w (ioCnt w) = None \<Longrightarrow> io_call msg eff w = (Inr (), eff (w\<lparr>ioCnt := ioCnt w + 1\<rparr>))"
  by (simp add: io_call_def wrap_err_def io_raw_def)

text \<open>Calls that change no file only move the environment on.\<close>

definition same_files :: "world \<Rightarrow> world \<Rightarrow> bool" where
  "same_files w w' \<longleftrightarrow> (\<exists>k. w' = w\<lparr>ioCnt := k\<rparr>)"

lemma same_files_simps:
  assumes "same_files w w'"
  shows "walFile w' = walFile w" "walSynced w' = walSynced w" "snapFile w' = snapFile w" "quiet w' = quiet w"
    "fully_synced w' = fully_synced w"
  using assms by (auto simp: same_files_def quiet_def fully_synced_def)

lemma same_files_trans: "same_files w w1 \<Longrightarrow> same_files w1 w2 \<Longrightarrow> same_files w w2"
  by (auto simp: same_files_def)

lemma io_id_quiet:
  assumes "quiet w"
  shows "\<exists>w'. io_call msg id w = (Inr (), w') \<and> same_files w w'"
  using assms by (auto simp: io_call_quiet quiet_def same_files_def)

lemma loadSnapshot_holds:
  assumes "quiet (dworld s)" "snap_holds (dcipher s) (snapFile (dworld s)) d" "mdata (dmem s) = fmempty"
  shows "\<exists>w'. loadSnapshot s = (Inr (), s\<lparr>dmem := (dmem s)\<lparr>mdata := d\<rparr>, dworld := w'\<rparr>) \<and> same_files (dworld s) w'"
proof -
  obtain w' where "io_call ''read snapshot'' id (dworld s) = (Inr (), w')" "same_files (dworld s) w'"
    using io_id_quiet [OF assms(1)] by blast
  with assms(2,3) show ?thesis
    by (intro exI [of _ w'], cases s, cases "dmem s")
      (auto simp: loadSnapshot_def fillSnapshot_def and_then_def on_wal_def snap_holds_def same_files_simps
        decode_marshal_snapshot marshal_not_magic Let_def split: option.splits)
qed

lemma open_replay_quiet:
  assumes "quiet w"
  shows "\<exists>w'. open_replay c w = (Inr (), w') \<and> same_files w w'"
  using assms by (auto simp: open_replay_def and_then_def io_call_quiet quiet_def same_files_def split: option.splits)

definition disk_inv :: "int64 set \<Rightarrow> DiskStore \<Rightarrow> bool" where
  "disk_inv D s \<longleftrightarrow> quiet (dworld s) \<and> cipher_ok (dcipher s) \<and> fully_synced (dworld s) \<and>
     (\<exists>d rs. snap_holds (dcipher s) (snapFile (dworld s)) d \<and> calm D d \<and>
        wal_image (dcipher s) rs (walFile (dworld s)) \<and>
        (\<forall>r \<in> set rs. rec_within D r \<and> rec_utf8 r) \<and>
        mdata (dmem s) = fold rec_eff rs d)"

lemma disk_inv_calm:
  assumes "disk_inv D s"
  shows "calm D (mdata (dmem s))" and "utf8_data (mdata (dmem s))"
  using assms by (auto simp: disk_inv_def snap_holds_def intro!: calm_recs utf8_recs)

definition rec_good :: "int64 set \<Rightarrow> WAL \<Rightarrow> wal_record \<Rightarrow> bool" where
  "rec_good D c r \<longleftrightarrow> loggable c r \<and> rec_within D r \<and> rec_utf8 r"

lemma disk_inv_advances:
  assumes "disk_inv D s" "advances rs s s'" "\<forall>r \<in> set rs. rec_good D (dcipher s) r"
  shows "disk_inv D s'"
proof -
  from assms(1) obtain d rs0 where inv: "quiet (dworld s)" "cipher_ok (dcipher s)" "fully_synced (dworld s)"
      "snap_holds (dcipher s) (snapFile (dworld s)) d" "calm D d"
      "wal_image (dcipher s) rs0 (walFile (dworld s))"
      "\<forall>r \<in> set rs0. rec_within D r \<and> rec_utf8 r" "mdata (dmem s) = fold rec_eff rs0 d"
    by (auto simp: disk_inv_def)
  have adv: "dcipher s' = dcipher s" "logged (dcipher s) (dworld s) rs (dworld s')"
      "fully_synced (dworld s')" "mdata (dmem s') = fold rec_eff rs (mdata (dmem s))"
    using assms(2) inv(3) by (auto simp: advances_def)
  have "wal_image (dcipher s) (rs0 @ rs) (walFile (dworld s'))"
    using wal_image_logged [OF inv(6) adv(2) inv(1)] assms(3) by (auto simp: rec_good_def)
  moreover have "snapFile (dworld s') = snapFile (dworld s)" using adv(2) by (simp add: logged_def)
  moreover have "quiet (dworld s')" using adv(2) inv(1) by (rule quiet_logged)
  ultimately show ?thesis
    unfolding disk_inv_def using inv adv assms(3)
    by (auto simp: rec_good_def intro!: exI [of _ d] exI [of _ "rs0 @ rs"])
qed

lemma disk_inv_same_data:
  assumes "disk_inv D s" "mdata (dmem s') = mdata (dmem s)" "dworld s' = dworld s" "dcipher s' = dcipher s"
  shows "disk_inv D s'"
  using assms by (simp add: disk_inv_def)

section \<open>Compaction\<close>

lemma atomicWriteFile_quiet:
  "quiet w \<Longrightarrow> atomicWriteFile data w = (Inr (), w\<lparr>snapFile := Some data, ioCnt := ioCnt w + 7\<rparr>)"
  by (simp add: atomicWriteFile_def and_then_def io_call_quiet quiet_def)

lemma saveSnapshot_quiet:
  assumes "quiet (dworld s)" "cipher_ok (dcipher s)" "utf8_data (mdata (dmem s))"
  obtains w where "saveSnapshot s = (Inr (), s\<lparr>dworld := w\<rparr>)"
    "snap_holds (dcipher s) (snapFile w) (mdata (dmem s))" "quiet w"
    "walFile w = walFile (dworld s)" "walSynced w = walSynced (dworld s)"
proof (cases "dcipher s")
  case None
  then show thesis
    using that [of "(dworld s)\<lparr>snapFile := Some (marshal_snapshot (mdata (dmem s))), ioCnt := ioCnt (dworld s) + 7\<rparr>"] assms
    by (simp add: saveSnapshot_def on_wal_def atomicWriteFile_quiet Let_def snap_holds_def quiet_def)
next
  case (Some c)
  obtain n where n: "nonceAt (dworld s) (nonceCnt (dworld s)) = Inr n" "length n = atRestNonceSize"
    using assms(1) by (auto simp: quiet_def)
  let ?data = "marshal_snapshot (mdata (dmem s))"
  have "Decrypt c (n @ aSeal (aead c) n ?data) = Inr ?data"
    using Decrypt_Encrypt(1) [of c n ?data] assms(2) n Some by (simp add: Encrypt_def cipher_ok_def)
  moreover have "quiet (dworld s\<lparr>nonceCnt := i\<rparr>)" for i using assms(1) by (simp add: quiet_def)
  ultimately show thesis
    using that Some n assms
    by (auto simp: saveSnapshot_def on_wal_def and_then_def wrap_err_def seal_def Encrypt_def
        atomicWriteFile_quiet snap_holds_def quiet_def Let_def)
qed

lemma Truncate_quiet:
  assumes "quiet w"
  obtains w' where "wal_Truncate c w = (Inr (), w')" "wal_image c [] (walFile w')" "fully_synced w'"
    "snapFile w' = snapFile w" "quiet w'"
proof (cases c)
  case None
  then show thesis
    using that [of "w\<lparr>walFile := [], walSynced := 0, ioCnt := ioCnt w + 1\<rparr>"] assms
    by (simp add: wal_Truncate_def os_Truncate_def and_then_def quiet_def wal_image_def fully_synced_def)
next
  case (Some ci)
  then show thesis
    using that [of "w\<lparr>walFile := [walEncryptedMagic], walSynced := 1, ioCnt := ioCnt w + 3\<rparr>"] assms
    by (simp add: wal_Truncate_def os_Truncate_def and_then_def file_Write_def file_Sync_def quiet_def
        wal_image_def fully_synced_def numeral_3_eq_3)
qed

text \<open>Saving a snapshot and emptying the log, on any memory whose text survives JSON.\<close>

lemma compactLocked_inv:
  assumes "quiet (dworld s)" "cipher_ok (dcipher s)" "utf8_data (mdata (dmem s))" "calm D (mdata (dmem s))"
  shows "\<exists>s'. compactLocked s = (Inr (), s') \<and> disk_inv D s' \<and> dmem s' = dmem s"
proof -
  obtain w where w: "saveSnapshot s = (Inr (), s\<lparr>dworld := w\<rparr>)"
    "snap_holds (dcipher s) (snapFile w) (mdata (dmem s))" "quiet w"
    using saveSnapshot_quiet [OF assms(1-3)] .
  obtain w' where w': "wal_Truncate (dcipher s) w = (Inr (), w')" "wal_image (dcipher s) [] (walFile w')"
    "fully_synced w'" "snapFile w' = snapFile w" "quiet w'"
    using Truncate_quiet [OF w(3)] .
  have "disk_inv D (s\<lparr>dworld := w'\<rparr>)"
    unfolding disk_inv_def using w w' assms
    by (auto intro!: exI [of _ "mdata (dmem s)"] exI [of _ "[]"])
  then show ?thesis
    using w w' by (simp add: compactLocked_def and_then_def on_wal_def)
qed

section \<open>Every event keeps the invariant\<close>

datatype store_event =
    EvBatch batch_event
  | EvGet string int64 int64
  | EvExpireTick int64
  | EvSnapshotTick
  | EvCompact
  | EvRestore bytes

fun store_step :: "store_event \<Rightarrow> batch_loop \<Rightarrow> batch_loop" where
  "store_step (EvBatch ev) l = batchLoop_step ev l"
| "store_step (EvGet k now now') l = l\<lparr>lstore := snd (disk_Get now now' k (lstore l))\<rparr>"
| "store_step (EvExpireTick now) l = l\<lparr>lstore := expireLoop_tick now (lstore l)\<rparr>"
| "store_step EvSnapshotTick l = l\<lparr>lstore := snapshotLoop_tick (lstore l)\<rparr>"
| "store_step EvCompact l = l\<lparr>lstore := snd (compact (lstore l))\<rparr>"
| "store_step (EvRestore data) l = l\<lparr>lstore := snd (RestoreSnapshot data (lstore l))\<rparr>"

definition req_good :: "int64 set \<Rightarrow> WAL \<Rightarrow> batchRequest \<Rightarrow> bool" where
  "req_good D c req \<longleftrightarrow> (\<forall>r \<in> set (req_recs req). rec_good D c r)"

fun event_good :: "int64 set \<Rightarrow> WAL \<Rightarrow> store_event \<Rightarrow> bool" where
  "event_good D c (EvBatch (Recv req clk)) = (req_good D c req \<and> (\<forall>i. unreached D (clk i)))"
| "event_good D c (EvGet k now now') = unreached D now"
| "event_good D c (EvExpireTick now) = unreached D now"
| "event_good D c (EvRestore data) =
     (\<forall>d. decodeSnapshot data fmempty = Inr d \<longrightarrow> utf8_data d \<and> calm D d)"
| "event_good D c _ = True"

definition loop_inv :: "int64 set \<Rightarrow> WAL \<Rightarrow> batch_loop \<Rightarrow> bool" where
  "loop_inv D c l \<longleftrightarrow> disk_inv D (lstore l) \<and> dcipher (lstore l) = c \<and>
     (\<forall>req \<in> set (lbatch l). of_char (brOp req) < (4::nat) \<and> req_good D c req)"

lemma start_loop_inv: "disk_inv D s \<Longrightarrow> loop_inv D (dcipher s) (start_loop s)"
  by (simp add: loop_inv_def start_loop_def)

lemma flush_inv:
  assumes "loop_inv D c l"
  shows "loop_inv D c (flush l)"
proof -
  have l: "quiet (dworld (lstore l))" "\<forall>req \<in> set (lbatch l). of_char (brOp req) < (4::nat)"
    using assms by (auto simp: loop_inv_def disk_inv_def)
  note adv = writeBatch_advances [OF l]
  have "disk_inv D (snd (writeBatch (lbatch l) (lstore l)))"
    using assms by (intro disk_inv_advances [OF _ adv]) (auto simp: loop_inv_def req_good_def)
  moreover have "dcipher (snd (writeBatch (lbatch l) (lstore l))) = c"
    using adv assms by (simp add: advances_def loop_inv_def)
  ultimately show ?thesis by (auto simp: loop_inv_def flush_def split: prod.splits)
qed

lemma batchLoop_inv:
  assumes "loop_inv D c l" "event_good D c (EvBatch ev)"
  shows "loop_inv D c (batchLoop_step ev l)"
proof (cases "ldone l")
  case True
  then show ?thesis using assms by (simp add: batchLoop_step_def)
next
  case False
  note fl = flush_inv [OF assms(1)]
  show ?thesis
  proof (cases ev)
    case (Recv req clk)
    show ?thesis
    proof (cases "of_char (brOp req) < (4::nat)")
      case True
      have "loop_inv D c (l\<lparr>lbatch := lbatch l @ [req], ltimer := True\<rparr>)"
        using assms Recv True by (auto simp: loop_inv_def)
      then show ?thesis using flush_inv Recv True False by (simp add: batchLoop_step_def Let_def)
    next
      case single: False
      let ?s = "lstore (flush l)"
      have s: "quiet (dworld ?s)" "calm D (mdata (dmem ?s))" "disk_inv D ?s" "dcipher ?s = c"
        using fl disk_inv_calm by (auto simp: loop_inv_def disk_inv_def)
      obtain rs where rs: "set rs \<subseteq> set (req_recs req)" "advances rs ?s (snd (writeSingle clk req ?s))"
        using writeSingle_advances [OF s(1,2), of clk req] assms(2) Recv by auto
      have "disk_inv D (snd (writeSingle clk req ?s))"
        using rs assms(2) Recv s(4) by (intro disk_inv_advances [OF s(3) rs(2)]) (auto simp: req_good_def)
      moreover have "dcipher (snd (writeSingle clk req ?s)) = c" using rs(2) s(4) by (simp add: advances_def)
      ultimately show ?thesis
        using Recv single False fl by (auto simp: batchLoop_step_def loop_inv_def Let_def split: prod.splits)
    qed
  next
    case TimerFired
    then show ?thesis using assms(1) fl False by (simp add: batchLoop_step_def)
  next
    case ChanClosed
    then show ?thesis using fl False by (simp add: batchLoop_step_def loop_inv_def)
  qed
qed

lemma sweep_calm:
  assumes "calm D (mdata m)" "unreached D now"
  shows "mdata (snd (mem_SweepExpired now m)) = mdata m"
proof (rule fmap_ext)
  fix k
  obtain n m' where m': "mem_SweepExpired now m = (n, m')" by fastforce
  show "fmlookup (mdata (snd (mem_SweepExpired now m))) k = fmlookup (mdata m) k"
    using mem_SweepExpired_spec(1) [OF m', of k] calm_not_expired [OF assms]
    by (auto simp: m' split: option.splits)
qed

lemma compact_loop_inv:
  assumes "quiet (dworld s)" "cipher_ok (dcipher s)" "utf8_data (mdata (dmem s))" "calm D (mdata (dmem s))"
  shows "disk_inv D (snd (compactLocked s))" and "dcipher (snd (compactLocked s)) = dcipher s"
    and "mdata (dmem (snd (compactLocked s))) = mdata (dmem s)"
proof -
  show "disk_inv D (snd (compactLocked s))" "mdata (dmem (snd (compactLocked s))) = mdata (dmem s)"
    using compactLocked_inv [OF assms] by auto
  obtain w where "saveSnapshot s = (Inr (), s\<lparr>dworld := w\<rparr>)" using saveSnapshot_quiet [OF assms(1-3)] .
  then show "dcipher (snd (compactLocked s)) = dcipher s"
    by (auto simp: compactLocked_def and_then_def on_wal_def split: prod.splits)
qed

lemma compactIfNeeded_inv:
  assumes "disk_inv D s"
  shows "disk_inv D (snd (compactIfNeeded s))" "dcipher (snd (compactIfNeeded s)) = dcipher s"
proof -
  define s1 where "s1 = s\<lparr>dworld := (dworld s)\<lparr>ioCnt := ioCnt (dworld s) + 1\<rparr>\<rparr>"
  have s1: "disk_inv D s1" "dcipher s1 = dcipher s"
    using assms by (auto simp: s1_def disk_inv_def quiet_def fully_synced_def)
  have "compactIfNeeded s = (if length (walFile (dworld s1)) < snapshotThreshold then (Inr (), s1) else compact s1)"
    using assms by (simp add: compactIfNeeded_def and_then_def on_wal_def io_raw_def disk_inv_def quiet_def s1_def)
  then show "disk_inv D (snd (compactIfNeeded s))" "dcipher (snd (compactIfNeeded s)) = dcipher s"
    using s1 compact_loop_inv [of s1 D] disk_inv_calm [OF s1(1)] by (simp_all add: compact_def disk_inv_def)
qed

lemma store_step_inv:
  assumes "loop_inv D c l" "event_good D c ev"
  shows "loop_inv D c (store_step ev l)"
proof -
  let ?s = "lstore l"
  have s: "disk_inv D ?s" "quiet (dworld ?s)" "cipher_ok (dcipher ?s)" "dcipher ?s = c"
    using assms(1) by (auto simp: loop_inv_def disk_inv_def)
  note calm = disk_inv_calm [OF s(1)]
  have put: "loop_inv D c (l\<lparr>lstore := s'\<rparr>)" if "disk_inv D s'" "dcipher s' = dcipher ?s" for s'
    using assms(1) that by (simp add: loop_inv_def)
  note comp = compact_loop_inv [OF s(2,3) calm(2,1)]
  show ?thesis
  proof (cases ev)
    case (EvBatch bev)
    then show ?thesis using batchLoop_inv assms by simp
  next
    case (EvGet k now now')
    then have "snd (disk_Get now now' k ?s) = ?s"
      using mem_Get_calm [OF calm(1)] assms(2) by (auto simp: disk_Get_def split: option.splits prod.splits)
    then show ?thesis using EvGet assms(1) by simp
  next
    case (EvExpireTick now)
    then have "disk_inv D (expireLoop_tick now ?s)"
      using assms(2) by (intro disk_inv_same_data [OF s(1)]) (simp_all add: expireLoop_tick_def sweep_calm [OF calm(1)])
    then show ?thesis using EvExpireTick put by (simp add: expireLoop_tick_def)
  next
    case EvSnapshotTick
    then show ?thesis
      using put compactIfNeeded_inv [OF s(1)] by (simp add: snapshotLoop_tick_def)
  next
    case EvCompact
    then show ?thesis using put comp by (simp add: compact_def)
  next
    case (EvRestore data)
    show ?thesis
    proof (cases "decodeSnapshot data fmempty")
      case (Inl e)
      then show ?thesis using EvRestore assms(1) by (simp add: RestoreSnapshot_def)
    next
      case (Inr d)
      let ?s' = "?s\<lparr>dmem := (dmem ?s)\<lparr>mdata := d\<rparr>\<rparr>"
      have "quiet (dworld ?s')" "cipher_ok (dcipher ?s')" "utf8_data (mdata (dmem ?s'))" "calm D (mdata (dmem ?s'))"
        using s assms(2) EvRestore Inr by auto
      note comp' = compact_loop_inv [OF this]
      then show ?thesis
        using put EvRestore Inr by (simp add: RestoreSnapshot_def compactLocked_def)
    qed
  qed
qed

lemma store_run_inv:
  "loop_inv D c l \<Longrightarrow> list_all (event_good D c) evs \<Longrightarrow> loop_inv D c (fold store_step evs l)"
  by (induction evs arbitrary: l) (auto simp: store_step_inv)

section \<open>Recovery\<close>

text \<open>Power loss keeps the synced part of the log.  A truncation counts as stable when it returns; one
  that is undone leaves the state of \<open>crash_before_truncate\<close> below.\<close>

definition power_loss :: "world \<Rightarrow> world" where
  "power_loss w = w\<lparr>walFile := take (walSynced w) (walFile w)\<rparr>"

lemma OpenWAL_image:
  assumes "quiet w" "wal_image c rs (walFile w)"
  shows "\<exists>w'. (case c of Some ci \<Rightarrow> OpenWALEncrypted ci | None \<Rightarrow> OpenWAL) w = (Inr c, w') \<and> same_files w w'"
  using assms
  by (auto simp: wal_image_def OpenWALEncrypted_def OpenWAL_def and_then_def io_call_quiet quiet_def same_files_def
      split: option.splits)

lemma open_steps:
  assumes "quiet w" "(case c of Some ci \<Rightarrow> OpenWALEncrypted ci | None \<Rightarrow> OpenWAL) (w\<lparr>ioCnt := ioCnt w + 1\<rparr>) = (Inr c, w1)"
    and "quiet w1" "snap_holds c (snapFile w1) d"
  shows "\<exists>w'. openDiskStore c clk w =
      (case Replay c clk (walFile w1) (NewMemStore\<lparr>mdata := d\<rparr>) of
         (Inl e, m) \<Rightarrow> (Inl e, w')
       | (Inr _, m) \<Rightarrow> (Inr \<lparr>dmem = m, dcipher = c, dworld = w', dclosed = False\<rparr>, w')) \<and> same_files w1 w'"
proof -
  let ?s0 = "\<lparr>dmem = NewMemStore, dcipher = c, dworld = w1, dclosed = False\<rparr>"
  obtain w2 where w2: "loadSnapshot ?s0 = (Inr (), ?s0\<lparr>dmem := NewMemStore\<lparr>mdata := d\<rparr>, dworld := w2\<rparr>)" "same_files w1 w2"
    using loadSnapshot_holds [of ?s0 d] assms(3,4) by (auto simp: NewMemStore_def)
  obtain w3 where w3: "open_replay c w2 = (Inr (), w3)" "same_files w2 w3"
    using open_replay_quiet [of w2] assms(3) same_files_simps(4) [OF w2(2)] by blast
  have f: "walFile w3 = walFile w1" "same_files w1 w3"
    using same_files_trans [OF w2(2) w3(2)] by (simp_all add: same_files_simps)
  show ?thesis
    using assms(1,2) w2(1) w3(1) f
    by (intro exI [of _ w3])
      (simp add: openDiskStore_def and_then_def io_call_quiet quiet_def replay_file_def split: prod.splits sum.splits)
qed

lemma open_image:
  assumes "quiet w" "cipher_ok c" "fully_synced w" "snap_holds c (snapFile w) d" "calm D d"
    and "wal_image c rs (walFile w)" "\<forall>r \<in> set rs. rec_within D r \<and> rec_utf8 r"
    and "\<And>i. unreached D (clk i)"
  shows "\<exists>s'. openDiskStore c clk (power_loss w) = (Inr s', dworld s') \<and>
    mdata (dmem s') = fold rec_eff rs d \<and> disk_inv D s' \<and> dcipher s' = c"
proof -
  let ?w = "w\<lparr>ioCnt := ioCnt w + 1\<rparr>" and ?m0 = "NewMemStore\<lparr>mdata := d\<rparr>"
  have loss: "power_loss w = w" using assms(3) by (simp add: power_loss_def fully_synced_def)
  have "same_files w ?w" by (auto simp: same_files_def)
  note w = same_files_simps [OF this]
  obtain w1 where w1: "(case c of Some ci \<Rightarrow> OpenWALEncrypted ci | None \<Rightarrow> OpenWAL) ?w = (Inr c, w1)" "same_files ?w w1"
    using OpenWAL_image [of ?w c rs] assms(1,6) w by auto
  note f1 = same_files_simps [OF w1(2), unfolded w]
  obtain w' where w': "openDiskStore c clk w = (Inr \<lparr>dmem = recs_apply clk 0 rs ?m0, dcipher = c, dworld = w', dclosed = False\<rparr>, w')"
      "same_files w1 w'"
    using open_steps [OF assms(1) w1(1), of d clk] assms(1,4) f1 Replay_image [OF assms(6,2), of clk ?m0] by auto
  note f = same_files_simps [OF w'(2), unfolded f1]
  have "mdata (recs_apply clk 0 rs ?m0) = fold rec_eff rs d"
    using recs_apply_calm [of D ?m0 rs clk 0] assms(5,7,8) by simp
  with w'(1) loss f assms show ?thesis by (auto simp: disk_inv_def)
qed

lemma recovery:
  assumes "disk_inv D s" "\<And>i. unreached D (clk i)"
  shows "\<exists>s'. openDiskStore (dcipher s) clk (power_loss (dworld s)) = (Inr s', dworld s') \<and>
    mdata (dmem s') = mdata (dmem s) \<and> disk_inv D s' \<and> dcipher s' = dcipher s"
  using assms open_image [of "dworld s" "dcipher s" _ D _ clk] by (auto simp: disk_inv_def)

text \<open>A fresh directory opens as an empty store.\<close>

lemma open_fresh:
  assumes "quiet w" "cipher_ok c" "walFile w = []" "walSynced w = 0" "snapFile w = None"
  shows "\<exists>s. openDiskStore c clk w = (Inr s, dworld s) \<and> disk_inv D s \<and> mdata (dmem s) = fmempty \<and>
    dcipher s = c \<and> \<not> dclosed s"
proof -
  obtain w1 where w1: "(case c of Some ci \<Rightarrow> OpenWALEncrypted ci | None \<Rightarrow> OpenWAL) (w\<lparr>ioCnt := ioCnt w + 1\<rparr>) = (Inr c, w1)"
      "wal_image c [] (walFile w1)" "snapFile w1 = None" "quiet w1" "fully_synced w1"
  proof (cases c)
    case None
    then show thesis
      using that [of "w\<lparr>ioCnt := ioCnt w + 2\<rparr>"] assms
      by (simp add: OpenWAL_def and_then_def io_call_quiet wal_image_def quiet_def fully_synced_def)
  next
    case (Some ci)
    then show thesis
      using that [of "w\<lparr>walFile := [walEncryptedMagic], walSynced := 1, ioCnt := ioCnt w + 5\<rparr>"] assms
      by (simp add: OpenWALEncrypted_def OpenWAL_def and_then_def io_call_quiet wrap_err_def file_Write_def file_Sync_def
          wal_image_def quiet_def fully_synced_def eval_nat_numeral)
  qed
  have fresh: "NewMemStore\<lparr>mdata := fmempty\<rparr> = NewMemStore" by (simp add: NewMemStore_def)
  have snap: "snap_holds c (snapFile w1) fmempty" using w1(3) by (simp add: snap_holds_def utf8_data_def)
  obtain w' where w': "openDiskStore c clk w = (Inr \<lparr>dmem = NewMemStore, dcipher = c, dworld = w', dclosed = False\<rparr>, w')"
      "same_files w1 w'"
    using open_steps [OF assms(1) w1(1,4) snap, of clk] Replay_image [OF w1(2) assms(2), of clk NewMemStore] by (auto simp: fresh)
  note f = same_files_simps [OF w'(2)]
  have "disk_inv D \<lparr>dmem = NewMemStore, dcipher = c, dworld = w', dclosed = False\<rparr>"
    unfolding disk_inv_def using w1 f assms(2)
    by (auto simp: snap_holds_def utf8_data_def calm_def NewMemStore_def intro!: exI [of _ "[]"])
  with w'(1) show ?thesis by (auto simp: NewMemStore_def)
qed

text \<open>Whatever fails on the way, opening loses nothing: the snapshot is left as it is, and the log
  too, except that an empty one may get the magic byte.\<close>

lemma io_call_cases: "io_call msg id w = (r, w') \<Longrightarrow> same_files w w'"
  by (auto simp: io_call_def wrap_err_def io_raw_def same_files_def split: option.splits)

lemma loadSnapshot_files: "loadSnapshot s = (r, s') \<Longrightarrow> same_files (dworld s) (dworld s')"
  by (auto simp: loadSnapshot_def fillSnapshot_def and_then_def on_wal_def Let_def
      split: option.splits sum.splits prod.splits if_splits dest: io_call_cases)

lemma replay_file_files: "replay_file c clk m w = (r, w') \<Longrightarrow> same_files w w'"
  by (auto simp: replay_file_def open_replay_def and_then_def
      split: option.splits sum.splits prod.splits dest!: io_call_cases intro: same_files_trans)

lemma OpenWAL_files:
  assumes "(case c of Some ci \<Rightarrow> OpenWALEncrypted ci | None \<Rightarrow> OpenWAL) w = (r, w')"
  shows "snapFile w' = snapFile w \<and>
    (walFile w' = walFile w \<or> walFile w = [] \<and> walFile w' = [walEncryptedMagic])"
proof -
  have "take n [walEncryptedMagic] = [] \<or> take n [walEncryptedMagic] = [walEncryptedMagic]" for n by (cases n) auto
  then show ?thesis
    using assms
    by (auto simp: OpenWALEncrypted_def OpenWAL_def and_then_def wrap_err_def file_Write_def file_Sync_def
        split: option.splits sum.splits prod.splits if_splits dest!: io_call_cases simp: same_files_simps)
qed

lemma open_keeps_files:
  assumes "openDiskStore c clk w = (r, w')"
  shows "snapFile w' = snapFile w \<and>
    (walFile w' = walFile w \<or> walFile w = [] \<and> walFile w' = [walEncryptedMagic])"
  using assms
  by (auto simp: openDiskStore_def and_then_def same_files_simps split: sum.splits prod.splits
      dest!: io_call_cases OpenWAL_files loadSnapshot_files replay_file_files)

section \<open>A crash inside compaction\<close>

text \<open>Between the rename of the snapshot and the truncation of the log, recovery replays the
  whole log over data that already contains it.\<close>

lemma crash_before_truncate:
  assumes "disk_inv D s" "\<And>i. unreached D (clk i)" "wal_image (dcipher s) rs (walFile (dworld s))"
    and "\<forall>r \<in> set rs. rec_within D r \<and> rec_utf8 r"
  shows "\<exists>s1 s'. saveSnapshot s = (Inr (), s1) \<and>
    openDiskStore (dcipher s) clk (power_loss (dworld s1)) = (Inr s', dworld s') \<and>
    mdata (dmem s') = fold rec_eff rs (mdata (dmem s))"
proof -
  have s: "quiet (dworld s)" "cipher_ok (dcipher s)" "fully_synced (dworld s)"
    using assms(1) by (auto simp: disk_inv_def)
  note calm = disk_inv_calm [OF assms(1)]
  obtain w where w: "saveSnapshot s = (Inr (), s\<lparr>dworld := w\<rparr>)"
    "snap_holds (dcipher s) (snapFile w) (mdata (dmem s))" "quiet w"
    "walFile w = walFile (dworld s)" "walSynced w = walSynced (dworld s)"
    using saveSnapshot_quiet [OF s(1,2) calm(2)] .
  have "\<exists>s'. openDiskStore (dcipher s) clk (power_loss w) = (Inr s', dworld s') \<and>
      mdata (dmem s') = fold rec_eff rs (mdata (dmem s)) \<and> disk_inv D s' \<and> dcipher s' = dcipher s"
    using w s assms by (intro open_image [OF _ _ _ _ calm(1)]) (auto simp: fully_synced_def)
  with w show ?thesis by auto
qed

text \<open>Writes that do not read survive being applied twice.\<close>

fun blind :: "wal_record \<Rightarrow> bool" where
  "blind (RecPut k v) = True"
| "blind (RecDelete k) = True"
| "blind RecClear = True"
| "blind _ = False"

fun last_write :: "wal_record list \<Rightarrow> string \<Rightarrow> entry option option" where
  "last_write [] k = None"
| "last_write (r # rs) k =
     (case last_write rs k of
        Some x \<Rightarrow> Some x
      | None \<Rightarrow>
          (case r of
             RecPut j v \<Rightarrow> if j = k then Some (Some \<lparr>eValue = v, eExp = 0\<rparr>) else None
           | RecDelete j \<Rightarrow> if j = k then Some None else None
           | RecClear \<Rightarrow> Some None
           | _ \<Rightarrow> None))"

lemma blind_last_write:
  "list_all blind rs \<Longrightarrow> fmlookup (fold rec_eff rs d) k =
     (case last_write rs k of None \<Rightarrow> fmlookup d k | Some x \<Rightarrow> x)"
proof (induction rs arbitrary: d)
  case (Cons r rs)
  then show ?case by (cases r) (auto split: option.split)
qed simp

lemma blind_idempotent:
  assumes "list_all blind rs"
  shows "fold rec_eff rs (fold rec_eff rs d) = fold rec_eff rs d"
  by (rule fmap_ext) (simp add: blind_last_write [OF assms] split: option.split)

end
