(* ===== verification/ApiDisk.thy ===== *)
theory ApiDisk
  imports ApiFacts Durability
begin

text \<open>
  The HTTP API over the disk store: a \<open>PUT\<close> answered with 200 is on disk, so a server opened
  on the files after a power loss answers the \<open>GET\<close> with the same bytes.
\<close>

lemma keyPattern_utf8: "keyPattern k \<Longrightarrow> valid_utf8 k"
  by (rule valid_utf8_ascii)
    (auto simp: keyPattern_def key_char_def list_all_iff byte_of_def less_eq_char_def of_char_def)

lemma put_rec_good:
  assumes "keyPattern k" "length k \<le> maxRecordField" "length b \<le> maxBodyBytes" "valid_utf8 b"
  shows "rec_good D c (RecPut k b)"
  using assms keyPattern_utf8 [OF assms(1)]
  by (simp add: rec_good_def loggable_def rec_within_def field_ok_def maxRecordField_def maxBodyBytes_def rec_bytes_def)

text \<open>An accepted \<open>Put\<close> keeps the invariant of the running store.\<close>

lemma disk_Put_inv:
  assumes "disk_inv D s" "disk_Put clk k b s = (Inr (), s')" "rec_good D (dcipher s) (RecPut k b)"
  shows "disk_inv D s'" "fmlookup (mdata (dmem s')) k = Some \<lparr>eValue = b, eExp = 0\<rparr>" "dcipher s' = dcipher s"
proof -
  let ?req = "(new_req opPut k)\<lparr>brValue := b\<rparr>"
  have op: "\<forall>req \<in> set [?req]. of_char (brOp req) < (4::nat)" by (simp add: new_req_def opPut_def)
  have "\<not> dclosed s" using assms(2) by (auto simp: disk_Put_def submit_def drop_result_def)
  then have s': "s' = snd (writeBatch [?req] s)"
    using assms(2) op by (auto simp: disk_Put_def submit_batched drop_result_def split: prod.splits sum.splits)
  have adv: "advances [RecPut k b] s s'"
    using writeBatch_advances [OF _ op] assms(1) by (simp add: s' disk_inv_def req_recs_def new_req_def)
  show "disk_inv D s'" using disk_inv_advances [OF assms(1) adv] assms(3) by simp
  show "fmlookup (mdata (dmem s')) k = Some \<lparr>eValue = b, eExp = 0\<rparr>" "dcipher s' = dcipher s"
    using adv by (simp_all add: advances_def)
qed

lemma disk_Put_quiet:
  assumes "quiet (dworld s)" "\<not> dclosed s"
  shows "\<exists>s'. disk_Put clk k v s = (Inr (), s')"
proof -
  let ?req = "(new_req opPut k)\<lparr>brValue := v\<rparr>"
  have op: "\<forall>req \<in> set [?req]. of_char (brOp req) < (4::nat)" by (simp add: new_req_def opPut_def)
  obtain w1 where w1: "append_reqs (dcipher s) [?req] (dworld s) = (Inr (), w1)" using quiet_append_reqs [OF assms(1) op] by blast
  have "quiet w1" using append_reqs_logged [OF w1 op] assms(1) by (rule quiet_logged)
  then show ?thesis
    using w1 assms(2) op
    by (simp add: disk_Put_def submit_batched drop_result_def writeBatch_def and_then_def on_wal_def quiet_sync del: append_reqs.simps)
qed

lemma disk_Get_calm:
  assumes "disk_inv D s" "unreached D t"
  shows "disk_Get t t' k s = (case fmlookup (mdata (dmem s)) k of None \<Rightarrow> (Inl ErrNotFound, s) | Some e \<Rightarrow> (Inr (eValue e), s))"
  using mem_Get_calm [OF disk_inv_calm(1) [OF assms(1)] assms(2)] by (simp add: disk_Get_def split: option.split)

lemma http_put_crash:
  assumes "svEngine sv = disk_engine" "disk_inv D (svStore sv)"
    and "rqMethod r = ''PUT''" "rqPath r = [''kv'', k]" "keyPattern k" "length k \<le> maxRecordField"
    and "rqBody r = Inr b" "length b \<le> maxBodyBytes" "valid_utf8 b" "xStatus (serve ck r sv) = 200"
    and "unreached D (ckNow ck)" "\<And>i. unreached D (clk i)" "unreached D (ckNow ck')"
    and "rqMethod g = ''GET''" "rqPath g = [''kv'', k]"
  shows "\<exists>s'. openDiskStore (dcipher (svStore sv)) clk (power_loss (dworld (svStore (xServer (serve ck r sv))))) = (Inr s', dworld s') \<and>
    (let x = serve ck' g (NewServer disk_engine s' sz ex t) in xStatus x = 200 \<and> xBody x = b)"
proof -
  let ?s = "svStore sv"
  obtain q st1 where get: "engGet (svEngine sv) (ckNow ck) k ?s = (q, st1)" by fastforce
  then have q: "st1 = ?s" "is_panic q = None"
    using disk_Get_calm [OF assms(2,11), of "ckNow ck" k]
    by (auto simp: assms(1) disk_engine_def is_panic_def split: option.splits)
  obtain p st2 where put: "engPut (svEngine sv) (ckNow ck) k b st1 = (p, st2)" by fastforce
  note w = serve_put [OF assms(3-5,7,8) get q(2) put]
  have "p = Inr ()"
  proof (cases p)
    case (Inl e)
    then have "refused_status e = 200" using w(3) assms(10) by simp
    then show ?thesis by (auto simp: refused_status_def split: kv_error.splits option.splits if_splits)
  qed simp
  then have "disk_Put (\<lambda>_. ckNow ck) k b ?s = (Inr (), st2)" using put q(1) by (simp add: assms(1) disk_engine_def)
  note st2 = disk_Put_inv [OF assms(2) this put_rec_good [OF assms(5,6,8,9)]]
  obtain s' where s': "openDiskStore (dcipher st2) clk (power_loss (dworld st2)) = (Inr s', dworld s')"
      "mdata (dmem s') = mdata (dmem st2)" "disk_inv D s'"
    using recovery [OF st2(1), of clk] assms(12) by blast
  have "disk_Get (ckNow ck') (ckNow ck') k s' = (Inr b, s')"
    using disk_Get_calm [OF s'(3) assms(13), of "ckNow ck'" k] st2(2) s'(2) by simp
  then have "engGet (svEngine (NewServer disk_engine s' sz ex t)) (ckNow ck') k (svStore (NewServer disk_engine s' sz ex t)) = (Inr b, s')"
    by (simp add: NewServer_def disk_engine_def)
  from serve_get [OF assms(14,15,5) this] s'(1) st2(3) w(1) show ?thesis by (auto simp: Let_def)
qed

end
