(* ===== verification/RaftFollower.thy ===== *)
theory RaftFollower
  imports RaftTypes
begin

text \<open>
  The receiving side of raft: pkg/raft/follower.go, the handlers of pkg/raft/node.go, and
  \<open>CompactLog\<close> and \<open>HandleInstallSnapshot\<close> of pkg/raft/snapshot.go.  A handler is its
  critical section followed by \<open>persist\<close>, as the code runs them.  Shown here: terms never
  decrease, a vote is given once per term and only to a candidate whose log is at least as
  fresh, an accepted \<open>AppendEntries\<close> leaves exactly the sender's prefix in the log, the
  commit index is monotone, and an acknowledged vote or log change is on disk.
\<close>

section \<open>Log matching\<close>

definition checkPrevLog :: "int \<Rightarrow> int \<Rightarrow> ('s, 'd) Node \<Rightarrow> bool" where
  "checkPrevLog prevLogIndex prevLogTerm n =
     (if prevLogIndex > lastLogIndex n then False
      else if prevLogIndex > 0 \<and> logTermAt n prevLogIndex \<noteq> prevLogTerm then False
      else True)"

fun merge_loop :: "Entry list \<Rightarrow> int \<Rightarrow> bool \<Rightarrow> ('s, 'd) Node \<Rightarrow> bool \<times> ('s, 'd) Node" where
  "merge_loop [] idx changed n = (changed, n)"
| "merge_loop (e # es) idx changed n =
     (if idx \<le> lastIncludedIndex n then merge_loop es (idx + 1) changed n
      else if idx \<le> lastLogIndex n then
        (if logTermAt n idx = entTerm e then merge_loop es (idx + 1) changed n
         else (True, n\<lparr>nlog := take (nat (idx - lastIncludedIndex n - 1)) (nlog n) @ e # es\<rparr>))
      else (True, n\<lparr>nlog := nlog n @ e # es\<rparr>))"

definition mergeEntries :: "AppendEntriesRequest \<Rightarrow> ('s, 'd) Node \<Rightarrow> bool \<times> ('s, 'd) Node" where
  "mergeEntries req n =
     (let endIdx = aqPrevLogIndex req + int (length (aqEntries req));
          keep = (if endIdx - lastIncludedIndex n < 0 then 0 else endIdx - lastIncludedIndex n);
          (changed, n1) = (if endIdx < lastLogIndex n then (True, n\<lparr>nlog := take (nat keep) (nlog n)\<rparr>)
                           else (False, n))
      in merge_loop (aqEntries req) (aqPrevLogIndex req + 1) changed n1)"

section \<open>Handlers\<close>

text \<open>The critical section of \<open>HandleRequestVote\<close>; the flag says a vote was granted.\<close>

definition decide_vote :: "VoteRequest \<Rightarrow> ('s, 'd) Node \<Rightarrow> (VoteResponse \<times> bool) \<times> ('s, 'd) Node" where
  "decide_vote req n =
     (if vqTerm req < nterm n then ((\<lparr>vrTerm = nterm n, vrVoteGranted = False\<rparr>, False), n)
      else
        let n1 = (if vqTerm req > nterm n then becomeFollower (vqTerm req) None n else n);
            notVotedYet = (votedFor n1 = None \<or> votedFor n1 = Some (vqCandidateID req));
            logFresh = (vqLastLogTerm req > lastLogTerm n1 \<or>
              vqLastLogTerm req = lastLogTerm n1 \<and> vqLastLogIndex req \<ge> lastLogIndex n1)
        in if notVotedYet \<and> logFresh then
             ((\<lparr>vrTerm = nterm n1, vrVoteGranted = True\<rparr>, True),
              resetElectionTimer (n1\<lparr>votedFor := Some (vqCandidateID req), dirty := True\<rparr>))
           else ((\<lparr>vrTerm = nterm n1, vrVoteGranted = False\<rparr>, False), n1))"

definition HandleRequestVote :: "VoteRequest \<Rightarrow> ('s, 'd) Node \<Rightarrow> VoteResponse \<times> ('s, 'd) Node" where
  "HandleRequestVote req n =
     (case decide_vote req n of
        ((resp, granted), n1) \<Rightarrow>
          if granted then
            (case persist n1 of
               (Inl e, n2) \<Rightarrow> (\<lparr>vrTerm = nterm n2, vrVoteGranted = False\<rparr>, n2)
             | (Inr _, n2) \<Rightarrow> (resp, n2))
          else (resp, n1))"

definition follow :: "int \<Rightarrow> string \<Rightarrow> ('s, 'd) Node \<Rightarrow> ('s, 'd) Node" where
  "follow t leader n =
     resetElectionTimer
       (if t > nterm n \<or> role n \<noteq> RoleFollower then becomeFollower t (Some leader) n
        else n\<lparr>leaderID := Some leader\<rparr>)"

text \<open>The critical section of \<open>HandleAppendEntries\<close>; the flag is \<open>changed\<close>.\<close>

definition accept_entries ::
    "AppendEntriesRequest \<Rightarrow> ('s, 'd) Node \<Rightarrow> (AppendEntriesResponse \<times> bool) \<times> ('s, 'd) Node" where
  "accept_entries req n =
     (if aqTerm req < nterm n then ((\<lparr>arTerm = nterm n, arSuccess = False\<rparr>, False), n)
      else
        let n1 = follow (aqTerm req) (aqLeaderID req) n
        in if \<not> checkPrevLog (aqPrevLogIndex req) (aqPrevLogTerm req) n1
           then ((\<lparr>arTerm = nterm n1, arSuccess = False\<rparr>, False), n1)
           else
             let (changed, n2) = mergeEntries req n1;
                 n3 = (if changed then n2\<lparr>dirty := True\<rparr> else n2);
                 advance = (aqLeaderCommit req > commitIndex n3);
                 last = lastLogIndex n3;
                 n4 = (if advance
                       then n3\<lparr>commitIndex := (if aqLeaderCommit req < last then aqLeaderCommit req else last),
                               dirty := True\<rparr>
                       else n3)
             in ((\<lparr>arTerm = nterm n4, arSuccess = True\<rparr>, changed \<or> advance), n4))"

definition HandleAppendEntries ::
    "AppendEntriesRequest \<Rightarrow> ('s, 'd) Node \<Rightarrow> AppendEntriesResponse \<times> ('s, 'd) Node" where
  "HandleAppendEntries req n =
     (case accept_entries req n of
        ((resp, changed), n1) \<Rightarrow>
          if changed then
            (case persist n1 of
               (Inl e, n2) \<Rightarrow> (\<lparr>arTerm = nterm n2, arSuccess = False\<rparr>, n2)
             | (Inr _, n2) \<Rightarrow> (resp, n2))
          else (resp, n1))"

definition CompactLog :: "int \<Rightarrow> int \<Rightarrow> ('s, 'd) Node \<Rightarrow> ('s, 'd) Node" where
  "CompactLog li lt n =
     (if li \<le> lastIncludedIndex n then n
      else
        let (lt', log') = (if li \<ge> lastLogIndex n then (lastLogTerm n, [])
                           else (lt, drop (nat (li - lastIncludedIndex n)) (nlog n)))
        in n\<lparr>nlog := log', lastIncludedIndex := li, lastIncludedTerm := lt',
             commitIndex := (if commitIndex n < li then li else commitIndex n),
             lastApplied := (if lastApplied n < li then li else lastApplied n), dirty := True\<rparr>)"

text \<open>The critical section of \<open>HandleInstallSnapshot\<close>; the flag is \<open>installed\<close>.\<close>

definition accept_snapshot ::
    "InstallSnapshotRequest \<Rightarrow> ('s, 'd) Node \<Rightarrow> (InstallSnapshotResponse \<times> bool) \<times> ('s, 'd) Node" where
  "accept_snapshot req n =
     (let n1 = follow (iqTerm req) (iqLeaderID req) n;
          installed = (iqLastIncludedIndex req > lastApplied n1);
          d = iqLastIncludedIndex req - lastIncludedIndex n1;
          d' = (if d > int (length (nlog n1)) then int (length (nlog n1)) else d);
          n2 = (if installed
                then n1\<lparr>nlog := drop (nat d') (nlog n1),
                        lastIncludedIndex := iqLastIncludedIndex req, lastIncludedTerm := iqLastIncludedTerm req,
                        commitIndex := (if commitIndex n1 < iqLastIncludedIndex req then iqLastIncludedIndex req
                                        else commitIndex n1),
                        lastApplied := (if lastApplied n1 < iqLastIncludedIndex req then iqLastIncludedIndex req
                                        else lastApplied n1), dirty := True\<rparr>
                else n1)
      in ((\<lparr>irTerm = nterm n2, irSuccess = True\<rparr>, installed), n2))"

text \<open>The whole handler: the sink's error and the persist error are only logged.\<close>

definition HandleInstallSnapshot ::
    "InstallSnapshotRequest \<Rightarrow> ('s, 'd) Node \<Rightarrow> InstallSnapshotResponse \<times> ('s, 'd) Node" where
  "HandleInstallSnapshot req n =
     (if iqTerm req < nterm n then (\<lparr>irTerm = nterm n, irSuccess = False\<rparr>, n)
      else
        case accept_snapshot req n of
          ((resp, installed), n1) \<Rightarrow>
            let n2 = (case snapshotSink n1 of
                        Some sink \<Rightarrow> if installed then n1\<lparr>store := snd (sink (iqData req) (store n1))\<rparr> else n1
                      | None \<Rightarrow> n1)
            in (resp, snd (persist n2)))"

section \<open>Merging leaves the sender's prefix\<close>

text \<open>Replacing the log from index \<open>idx\<close> on by \<open>es\<close>.\<close>

definition splice :: "int \<Rightarrow> Entry list \<Rightarrow> ('s, 'd) Node \<Rightarrow> ('s, 'd) Node" where
  "splice idx es n = n\<lparr>nlog := take (nat (idx - lastIncludedIndex n - 1)) (nlog n) @ es\<rparr>"

lemma splice_entryAt:
  assumes "lastIncludedIndex n < idx" "idx \<le> lastLogIndex n + 1"
  shows "lastLogIndex (splice idx es n) = idx - 1 + int (length es)"
    and "k < idx \<Longrightarrow> entryAt (splice idx es n) k = entryAt n k"
    and "j < length es \<Longrightarrow> entryAt (splice idx es n) (idx + int j) = Some (es ! j)"
proof -
  let ?p = "nat (idx - lastIncludedIndex n - 1)"
  have p: "?p \<le> length (nlog n)" "int ?p = idx - lastIncludedIndex n - 1"
    using assms by (auto simp: lastLogIndex_def)
  show last: "lastLogIndex (splice idx es n) = idx - 1 + int (length es)"
    using p by (simp add: splice_def lastLogIndex_def)
  show "k < idx \<Longrightarrow> entryAt (splice idx es n) k = entryAt n k"
    using p last assms(2) by (auto simp: entryAt_eq splice_def nth_append lastLogIndex_def)
  assume j: "j < length es"
  then have "nat (idx + int j - lastIncludedIndex n - 1) = ?p + j" using assms(1) by arith
  then show "entryAt (splice idx es n) (idx + int j) = Some (es ! j)"
    using j p last assms(1) by (auto simp: entryAt_eq splice_def nth_append)
qed

text \<open>The loop skips what is compacted or already there, and splices in the rest.\<close>

definition present :: "('s, 'd) Node \<Rightarrow> int \<Rightarrow> Entry \<Rightarrow> bool" where
  "present n k e \<longleftrightarrow> k \<le> lastIncludedIndex n \<or> k \<le> lastLogIndex n \<and> logTermAt n k = entTerm e"

lemma merge_loop_splice:
  assumes "idx \<le> lastLogIndex n + 1"
  shows "\<exists>p \<le> length es. (\<forall>j < p. present n (idx + int j) (es ! j)) \<and>
    (if p = length es then merge_loop es idx c n = (c, n)
     else \<not> present n (idx + int p) (es ! p) \<and> idx + int p \<le> lastLogIndex n + 1 \<and>
          merge_loop es idx c n = (True, splice (idx + int p) (drop p es) n))"
  using assms
proof (induction es idx c n rule: merge_loop.induct)
  case (1 idx changed n)
  then show ?case by simp
next
  case (2 e es idx changed n)
  show ?case
  proof (cases "present n idx e")
    case True
    then have step: "merge_loop (e # es) idx changed n = merge_loop es (idx + 1) changed n"
      by (auto simp: present_def)
    have bound: "idx + 1 \<le> lastLogIndex n + 1"
      using True by (auto simp: present_def lastLogIndex_def)
    have "\<exists>p \<le> length es. (\<forall>j < p. present n (idx + 1 + int j) (es ! j)) \<and>
        (if p = length es then merge_loop es (idx + 1) changed n = (changed, n)
         else \<not> present n (idx + 1 + int p) (es ! p) \<and> idx + 1 + int p \<le> lastLogIndex n + 1 \<and>
              merge_loop es (idx + 1) changed n = (True, splice (idx + 1 + int p) (drop p es) n))"
      using True bound 2(1) 2(2) by (cases "idx \<le> lastIncludedIndex n") (auto simp: present_def)
    then obtain p where p: "p \<le> length es" "\<forall>j < p. present n (idx + 1 + int j) (es ! j)"
        "if p = length es then merge_loop es (idx + 1) changed n = (changed, n)
         else \<not> present n (idx + 1 + int p) (es ! p) \<and> idx + 1 + int p \<le> lastLogIndex n + 1 \<and>
              merge_loop es (idx + 1) changed n = (True, splice (idx + 1 + int p) (drop p es) n)"
      by blast
    have "present n (idx + int j) ((e # es) ! j)" if "j < Suc p" for j
      using that True p(2) by (cases j) (auto simp: add.commute add.left_commute)
    with p step show ?thesis
      by (intro exI [of _ "Suc p"]) (auto simp: add.commute add.left_commute split: if_splits)
  next
    case False
    then have "merge_loop (e # es) idx changed n = (True, splice idx (e # es) n)"
      using 2(3) by (auto simp: present_def splice_def lastLogIndex_def)
    with False 2(3) show ?thesis by (intro exI [of _ 0]) simp
  qed
qed

lemma splice_fields [simp]:
  "lastIncludedIndex (splice i es n) = lastIncludedIndex n" "lastIncludedTerm (splice i es n) = lastIncludedTerm n"
  "nterm (splice i es n) = nterm n" "votedFor (splice i es n) = votedFor n" "role (splice i es n) = role n"
  "commitIndex (splice i es n) = commitIndex n" "lastApplied (splice i es n) = lastApplied n"
  "dirty (splice i es n) = dirty n" "raftStore (splice i es n) = raftStore n" "rdisk (splice i es n) = rdisk n"
  "store (splice i es n) = store n" "nid (splice i es n) = nid n"
  by (simp_all add: splice_def)

text \<open>The first step of \<open>mergeEntries\<close> only drops what lies behind the sender's last entry.\<close>

lemma mergeEntries_cut:
  assumes "0 \<le> lastIncludedIndex n" "0 \<le> aqPrevLogIndex req" "aqPrevLogIndex req \<le> lastLogIndex n"
  obtains n1 c where "mergeEntries req n = merge_loop (aqEntries req) (aqPrevLogIndex req + 1) c n1"
    "n1 = n\<lparr>nlog := nlog n1\<rparr>" "\<not> c \<Longrightarrow> n1 = n"
    "lastIncludedIndex n1 = lastIncludedIndex n" "aqPrevLogIndex req \<le> lastLogIndex n1"
    "lastLogIndex n1 \<le> max (lastIncludedIndex n) (aqPrevLogIndex req + int (length (aqEntries req)))"
    "\<And>k. k \<le> aqPrevLogIndex req + int (length (aqEntries req)) \<Longrightarrow> entryAt n1 k = entryAt n k"
proof -
  let ?endIdx = "aqPrevLogIndex req + int (length (aqEntries req))"
  let ?keep = "if ?endIdx - lastIncludedIndex n < 0 then 0 else ?endIdx - lastIncludedIndex n"
  let ?n1 = "n\<lparr>nlog := take (nat ?keep) (nlog n)\<rparr>"
  show thesis
  proof (cases "?endIdx < lastLogIndex n")
    case True
    show thesis
    proof (rule that [of True ?n1])
      show "entryAt ?n1 k = entryAt n k" if "k \<le> ?endIdx" for k
        using that True by (auto simp: entryAt_eq lastLogIndex_def)
    qed (use True assms in \<open>auto simp: mergeEntries_def Let_def lastLogIndex_def\<close>)
  next
    case False
    show thesis
      by (rule that [of False n]) (use False assms in \<open>auto simp: mergeEntries_def Let_def\<close>)
  qed
qed

text \<open>An accepted request: what \<open>mergeEntries\<close> leaves at every index.\<close>

lemma mergeEntries_spec:
  fixes req and n :: "('s, 'd) Node"
  assumes "0 \<le> lastIncludedIndex n" "0 \<le> aqPrevLogIndex req" "aqPrevLogIndex req \<le> lastLogIndex n"
  defines "n' \<equiv> snd (mergeEntries req n)" and "prev \<equiv> aqPrevLogIndex req" and "es \<equiv> aqEntries req"
  shows "lastLogIndex n' = max (lastIncludedIndex n) (prev + int (length es))"
    and "k \<le> prev \<Longrightarrow> entryAt n' k = entryAt n k"
    and "j < length es \<Longrightarrow> lastIncludedIndex n < prev + 1 + int j \<Longrightarrow>
      \<exists>e. entryAt n' (prev + 1 + int j) = Some e \<and> entTerm e = entTerm (es ! j) \<and>
          (e = es ! j \<or> entryAt n (prev + 1 + int j) = Some e)"
    and "n' = n\<lparr>nlog := nlog n'\<rparr>" and "\<not> fst (mergeEntries req n) \<Longrightarrow> n' = n"
proof -
  obtain n1 c where n1: "mergeEntries req n = merge_loop es (prev + 1) c n1"
      "n1 = n\<lparr>nlog := nlog n1\<rparr>" "\<not> c \<Longrightarrow> n1 = n"
      "lastIncludedIndex n1 = lastIncludedIndex n" "prev \<le> lastLogIndex n1"
      "lastLogIndex n1 \<le> max (lastIncludedIndex n) (prev + int (length es))"
      "\<And>k. k \<le> prev + int (length es) \<Longrightarrow> entryAt n1 k = entryAt n k"
    using mergeEntries_cut [OF assms(1-3)] unfolding prev_def es_def by metis
  obtain p where p: "p \<le> length es" "\<forall>j < p. present n1 (prev + 1 + int j) (es ! j)"
      "if p = length es then merge_loop es (prev + 1) c n1 = (c, n1)
       else \<not> present n1 (prev + 1 + int p) (es ! p) \<and> prev + 1 + int p \<le> lastLogIndex n1 + 1 \<and>
            merge_loop es (prev + 1) c n1 = (True, splice (prev + 1 + int p) (drop p es) n1)"
    using merge_loop_splice [of "prev + 1" n1 es c] n1(5) by auto
  have kept: "\<exists>e. entryAt n1 (prev + 1 + int j) = Some e \<and> entTerm e = entTerm (es ! j) \<and>
      entryAt n (prev + 1 + int j) = Some e"
    if h: "j < p" "lastIncludedIndex n < prev + 1 + int j" for j
  proof -
    have "present n1 (prev + 1 + int j) (es ! j)" using p(2) h(1) by simp
    then obtain e where "entryAt n1 (prev + 1 + int j) = Some e" "entTerm e = entTerm (es ! j)"
      using h n1(4) assms(1) logTermAt_entry [of n1 "prev + 1 + int j"]
      by (auto simp: present_def entryAt_eq)
    moreover have "entryAt n1 (prev + 1 + int j) = entryAt n (prev + 1 + int j)"
      using h p(1) by (intro n1(7)) auto
    ultimately show ?thesis by simp
  qed
  have upd: "n1\<lparr>nlog := l\<rparr> = n\<lparr>nlog := l\<rparr>" for l by (subst n1(2)) simp
  show "n' = n\<lparr>nlog := nlog n'\<rparr>"
  proof (cases "p = length es")
    case True
    then show ?thesis using p(3) n1(1,2) by (simp add: n'_def)
  next
    case False
    then show ?thesis using p(3) n1(1) by (simp add: n'_def splice_def upd)
  qed
  show "\<not> fst (mergeEntries req n) \<Longrightarrow> n' = n"
    using p(3) n1(1,3) by (auto simp: n'_def split: if_splits)
  have spliced: "lastIncludedIndex n1 < prev + 1 + int p" "prev + 1 + int p \<le> lastLogIndex n1 + 1"
      "n' = splice (prev + 1 + int p) (drop p es) n1" if "p \<noteq> length es"
    using that p(3) n1(1) by (auto simp: n'_def present_def split: if_splits)
  have whole: "n' = n1" if "p = length es" using that p(3) n1(1) by (simp add: n'_def)
  show "k \<le> prev \<Longrightarrow> entryAt n' k = entryAt n k"
    using n1(7) [of k] splice_entryAt(2) [OF spliced(1,2), of k] spliced(3) whole by (cases "p = length es") auto
  show "lastLogIndex n' = max (lastIncludedIndex n) (prev + int (length es))"
  proof (cases "p = length es")
    case True
    have "prev + int (length es) \<le> max (lastIncludedIndex n) (lastLogIndex n1)"
    proof (cases es rule: rev_cases)
      case (snoc es' e)
      then have "present n1 (prev + 1 + int (length es')) e" using p(2) True by auto
      then show ?thesis using snoc n1(4) by (auto simp: present_def)
    qed (use n1(5) in simp)
    moreover have "lastIncludedIndex n \<le> lastLogIndex n1" using n1(4) by (simp add: lastLogIndex_def)
    ultimately show ?thesis using whole [OF True] n1(6) by simp
  next
    case False
    then show ?thesis using splice_entryAt(1) [OF spliced(1,2) [OF False]] spliced n1(4) p(1) by (simp add: max_def)
  qed
  assume j: "j < length es" "lastIncludedIndex n < prev + 1 + int j"
  show "\<exists>e. entryAt n' (prev + 1 + int j) = Some e \<and> entTerm e = entTerm (es ! j) \<and>
          (e = es ! j \<or> entryAt n (prev + 1 + int j) = Some e)"
  proof (cases "j < p")
    case True
    then have "entryAt n' (prev + 1 + int j) = entryAt n1 (prev + 1 + int j)"
      using splice_entryAt(2) [OF spliced(1,2), of "prev + 1 + int j"] spliced(3) whole by (cases "p = length es") auto
    then show ?thesis using kept [OF True j(2)] by auto
  next
    case False
    then have "p \<noteq> length es" using j by simp
    then have "entryAt n' (prev + 1 + int p + int (j - p)) = Some (drop p es ! (j - p))"
      unfolding spliced(3) [OF \<open>p \<noteq> length es\<close>] using j p(1) False by (intro splice_entryAt(3) [OF spliced(1,2)]) auto
    then show ?thesis using False j by (simp add: of_nat_diff add.assoc)
  qed
qed

section \<open>Terms and votes\<close>

lemma follow_fields [simp]:
  "nlog (follow t l n) = nlog n" "lastIncludedIndex (follow t l n) = lastIncludedIndex n"
  "lastIncludedTerm (follow t l n) = lastIncludedTerm n" "commitIndex (follow t l n) = commitIndex n"
  "lastApplied (follow t l n) = lastApplied n" "raftStore (follow t l n) = raftStore n"
  "rdisk (follow t l n) = rdisk n" "role (follow t l n) = RoleFollower" "store (follow t l n) = store n"
  "nid (follow t l n) = nid n" "entryAt (follow t l n) = entryAt n" "lastLogIndex (follow t l n) = lastLogIndex n"
  by (auto simp: follow_def becomeFollower_def resetElectionTimer_def fun_eq_iff entryAt_eq lastLogIndex_def)

lemma follow_term:
  assumes "nterm n \<le> t"
  shows "nterm (follow t l n) = t"
    and "votedFor (follow t l n) = (if t > nterm n \<or> role n \<noteq> RoleFollower then None else votedFor n)"
  using assms by (auto simp: follow_def becomeFollower_def resetElectionTimer_def)

lemma mergeEntries_fields:
  "n' = n\<lparr>nlog := l\<rparr> \<Longrightarrow> nterm n' = nterm n \<and> votedFor n' = votedFor n \<and> role n' = role n \<and>
     commitIndex n' = commitIndex n \<and> lastApplied n' = lastApplied n \<and> raftStore n' = raftStore n \<and>
     rdisk n' = rdisk n \<and> dirty n' = dirty n \<and> lastIncludedIndex n' = lastIncludedIndex n \<and>
     lastIncludedTerm n' = lastIncludedTerm n \<and> store n' = store n"
  by simp

lemma merge_loop_same: "\<exists>l. snd (merge_loop es idx c n) = n\<lparr>nlog := l\<rparr>"
proof (induction es idx c n rule: merge_loop.induct)
  case (1 idx changed n)
  show ?case by (intro exI [of _ "nlog n"]) simp
qed auto

lemma mergeEntries_same: "\<exists>l. snd (mergeEntries req n) = n\<lparr>nlog := l\<rparr>"
proof -
  have "\<exists>l. snd (merge_loop es idx c (n\<lparr>nlog := l0\<rparr>)) = n\<lparr>nlog := l\<rparr>" for es idx c l0
    using merge_loop_same [of es idx c "n\<lparr>nlog := l0\<rparr>"] by simp
  then show ?thesis using merge_loop_same by (auto simp: mergeEntries_def Let_def)
qed

text \<open>The node after a request was accepted: the merged log and the new commit index.\<close>

definition accepted :: "AppendEntriesRequest \<Rightarrow> ('s, 'd) Node \<Rightarrow> ('s, 'd) Node" where
  "accepted req n1 =
     (let m = mergeEntries req n1; n2 = snd m; adv = (aqLeaderCommit req > commitIndex n1)
      in n2\<lparr>dirty := dirty n1 \<or> fst m \<or> adv,
            commitIndex := (if adv then min (aqLeaderCommit req) (lastLogIndex n2) else commitIndex n1)\<rparr>)"

lemma accept_entries_eq:
  "accept_entries req n =
     (if aqTerm req < nterm n then ((\<lparr>arTerm = nterm n, arSuccess = False\<rparr>, False), n)
      else let n1 = follow (aqTerm req) (aqLeaderID req) n
           in if \<not> checkPrevLog (aqPrevLogIndex req) (aqPrevLogTerm req) n1
              then ((\<lparr>arTerm = aqTerm req, arSuccess = False\<rparr>, False), n1)
              else ((\<lparr>arTerm = aqTerm req, arSuccess = True\<rparr>,
                     fst (mergeEntries req n1) \<or> aqLeaderCommit req > commitIndex n1), accepted req n1))"
proof (cases "aqTerm req < nterm n")
  case False
  define n1 where "n1 = follow (aqTerm req) (aqLeaderID req) n"
  have t: "nterm n1 = aqTerm req" using False by (simp add: n1_def follow_term)
  obtain ch n2 where m: "mergeEntries req n1 = (ch, n2)" by fastforce
  obtain l where "n2 = n1\<lparr>nlog := l\<rparr>" using mergeEntries_same [of req n1] m by auto
  with False t m show ?thesis
    by (simp add: accept_entries_def Let_def accepted_def min_def lastLogIndex_def flip: n1_def)
qed (simp add: accept_entries_def)

lemma accepted_fields [simp]:
  "nterm (accepted req n) = nterm n" "role (accepted req n) = role n" "votedFor (accepted req n) = votedFor n"
  "raftStore (accepted req n) = raftStore n" "rdisk (accepted req n) = rdisk n"
  "lastIncludedIndex (accepted req n) = lastIncludedIndex n" "lastIncludedTerm (accepted req n) = lastIncludedTerm n"
  "lastApplied (accepted req n) = lastApplied n" "nlog (accepted req n) = nlog (snd (mergeEntries req n))"
  "lastLogIndex (accepted req n) = lastLogIndex (snd (mergeEntries req n))"
  "entryAt (accepted req n) = entryAt (snd (mergeEntries req n))" "store (accepted req n) = store n"
proof -
  obtain l where l: "snd (mergeEntries req n) = n\<lparr>nlog := l\<rparr>" using mergeEntries_same by blast
  show "nterm (accepted req n) = nterm n" "role (accepted req n) = role n" "votedFor (accepted req n) = votedFor n"
    "raftStore (accepted req n) = raftStore n" "rdisk (accepted req n) = rdisk n"
    "lastIncludedIndex (accepted req n) = lastIncludedIndex n" "lastIncludedTerm (accepted req n) = lastIncludedTerm n"
    "lastApplied (accepted req n) = lastApplied n" "nlog (accepted req n) = nlog (snd (mergeEntries req n))"
    "store (accepted req n) = store n"
    by (simp_all add: accepted_def Let_def l)
  show "lastLogIndex (accepted req n) = lastLogIndex (snd (mergeEntries req n))"
    by (simp add: accepted_def Let_def lastLogIndex_def)
  show "entryAt (accepted req n) = entryAt (snd (mergeEntries req n))"
    by (rule entryAt_cong) (simp_all add: accepted_def Let_def)
qed

text \<open>Messages that reach a node from outside.\<close>

datatype inbound =
    InVote VoteRequest
  | InAppend AppendEntriesRequest
  | InSnapshot InstallSnapshotRequest
  | InCompact int int

fun handle :: "inbound \<Rightarrow> ('s, 'd) Node \<Rightarrow> ('s, 'd) Node" where
  "handle (InVote req) n = snd (HandleRequestVote req n)"
| "handle (InAppend req) n = snd (HandleAppendEntries req n)"
| "handle (InSnapshot req) n = snd (HandleInstallSnapshot req n)"
| "handle (InCompact i t) n = CompactLog i t n"

text \<open>A handler is its critical section, followed by \<open>persist\<close> when the section asks for it.\<close>

lemma HandleRequestVote_snd:
  "snd (HandleRequestVote req n) =
    (if snd (fst (decide_vote req n)) then snd (persist (snd (decide_vote req n))) else snd (decide_vote req n))"
  by (simp add: HandleRequestVote_def case_prod_unfold split: sum.split)

lemma HandleAppendEntries_snd:
  "snd (HandleAppendEntries req n) =
    (if snd (fst (accept_entries req n)) then snd (persist (snd (accept_entries req n)))
     else snd (accept_entries req n))"
  by (simp add: HandleAppendEntries_def case_prod_unfold split: sum.split)

lemma decide_vote_granted:
  assumes "decide_vote req n = ((resp, True), n')"
  shows "resp = \<lparr>vrTerm = vqTerm req, vrVoteGranted = True\<rparr>" "nterm n \<le> vqTerm req"
    and "vqTerm req = nterm n \<Longrightarrow> votedFor n = None \<or> votedFor n = Some (vqCandidateID req)"
    and "vqLastLogTerm req > lastLogTerm n \<or> vqLastLogTerm req = lastLogTerm n \<and> vqLastLogIndex req \<ge> lastLogIndex n"
    and "nterm n' = vqTerm req" "votedFor n' = Some (vqCandidateID req)" "dirty n'"
      "role n' = (if nterm n < vqTerm req then RoleFollower else role n)"
      "raftStore n' = raftStore n" "rdisk n' = rdisk n" "nlog n' = nlog n"
      "lastIncludedIndex n' = lastIncludedIndex n" "lastIncludedTerm n' = lastIncludedTerm n"
proof -
  have "\<not> vqTerm req < nterm n" using assms by (auto simp: decide_vote_def)
  then consider "vqTerm req = nterm n" | "nterm n < vqTerm req" by linarith
  then show "resp = \<lparr>vrTerm = vqTerm req, vrVoteGranted = True\<rparr>" "nterm n \<le> vqTerm req"
    and "vqTerm req = nterm n \<Longrightarrow> votedFor n = None \<or> votedFor n = Some (vqCandidateID req)"
    and "vqLastLogTerm req > lastLogTerm n \<or> vqLastLogTerm req = lastLogTerm n \<and> vqLastLogIndex req \<ge> lastLogIndex n"
    and "nterm n' = vqTerm req" "votedFor n' = Some (vqCandidateID req)" "dirty n'"
      "role n' = (if nterm n < vqTerm req then RoleFollower else role n)"
      "raftStore n' = raftStore n" "rdisk n' = rdisk n" "nlog n' = nlog n"
      "lastIncludedIndex n' = lastIncludedIndex n" "lastIncludedTerm n' = lastIncludedTerm n"
    using assms
    by (cases; auto simp: decide_vote_def Let_def becomeFollower_def resetElectionTimer_def
        lastLogTerm_def lastLogIndex_def split: if_splits)+
qed

lemma HandleRequestVote_granted:
  assumes "vrVoteGranted (fst (HandleRequestVote req n))"
  obtains n1 where "decide_vote req n = ((\<lparr>vrTerm = vqTerm req, vrVoteGranted = True\<rparr>, True), n1)"
    "fst (HandleRequestVote req n) = \<lparr>vrTerm = vqTerm req, vrVoteGranted = True\<rparr>"
    "persist n1 = (Inr (), snd (HandleRequestVote req n))"
proof -
  obtain resp g n1 where d: "decide_vote req n = ((resp, g), n1)" by (metis surj_pair)
  obtain r n2 where p: "persist n1 = (r, n2)" by fastforce
  have g: g
  proof (rule ccontr)
    assume "\<not> g"
    then have "\<not> vrVoteGranted resp" using d by (auto simp: decide_vote_def Let_def split: if_splits)
    with \<open>\<not> g\<close> d assms show False by (simp add: HandleRequestVote_def)
  qed
  with d have "decide_vote req n = ((resp, True), n1)" by simp
  note resp = decide_vote_granted(1) [OF this]
  show thesis
    by (rule that [of n1]) (use d g p resp assms in \<open>auto simp: HandleRequestVote_def split: sum.splits\<close>)
qed

lemma accept_snapshot_fields:
  "nterm (snd (accept_snapshot req n)) = nterm (follow (iqTerm req) (iqLeaderID req) n)"
  "votedFor (snd (accept_snapshot req n)) = votedFor (follow (iqTerm req) (iqLeaderID req) n)"
  "role (snd (accept_snapshot req n)) = RoleFollower" "raftStore (snd (accept_snapshot req n)) = raftStore n"
  "commitIndex n \<le> commitIndex (snd (accept_snapshot req n))" "lastApplied n \<le> lastApplied (snd (accept_snapshot req n))"
  by (simp_all add: accept_snapshot_def Let_def)

lemma HandleInstallSnapshot_snd:
  "snd (HandleInstallSnapshot req n) =
     (if iqTerm req < nterm n then n
      else snd (persist (let n1 = snd (accept_snapshot req n)
             in case snapshotSink n1 of
                  Some sink \<Rightarrow> if snd (fst (accept_snapshot req n))
                              then n1\<lparr>store := snd (sink (iqData req) (store n1))\<rparr> else n1
                | None \<Rightarrow> n1)))"
  by (simp add: HandleInstallSnapshot_def case_prod_unfold Let_def split: option.split)

lemma HandleInstallSnapshot_fields:
  assumes "\<not> iqTerm req < nterm n"
  shows "nterm (snd (HandleInstallSnapshot req n)) = iqTerm req"
    and "votedFor (snd (HandleInstallSnapshot req n)) =
      (if iqTerm req > nterm n \<or> role n \<noteq> RoleFollower then None else votedFor n)"
    and "role (snd (HandleInstallSnapshot req n)) = RoleFollower"
    and "commitIndex n \<le> commitIndex (snd (HandleInstallSnapshot req n))"
    and "lastApplied n \<le> lastApplied (snd (HandleInstallSnapshot req n))"
  using assms follow_term [of n "iqTerm req" "iqLeaderID req"]
  by (simp_all add: HandleInstallSnapshot_snd Let_def accept_snapshot_fields split: option.split)

lemma CompactLog_fields [simp]:
  "nterm (CompactLog i t n) = nterm n" "votedFor (CompactLog i t n) = votedFor n" "role (CompactLog i t n) = role n"
  "raftStore (CompactLog i t n) = raftStore n" "rdisk (CompactLog i t n) = rdisk n"
  by (simp_all add: CompactLog_def Let_def)

lemma decide_vote_fields:
  "nterm (snd (decide_vote req n)) = max (nterm n) (vqTerm req)"
  "role n = RoleFollower \<Longrightarrow> role (snd (decide_vote req n)) = RoleFollower"
  "nlog (snd (decide_vote req n)) = nlog n" "lastIncludedIndex (snd (decide_vote req n)) = lastIncludedIndex n"
  "commitIndex (snd (decide_vote req n)) = commitIndex n" "lastApplied (snd (decide_vote req n)) = lastApplied n"
  "raftStore (snd (decide_vote req n)) = raftStore n" "rdisk (snd (decide_vote req n)) = rdisk n"
  by (simp_all add: decide_vote_def Let_def becomeFollower_def resetElectionTimer_def)

text \<open>Handling a message from outside never lowers the term.\<close>

lemma handle_term_mono: "nterm n \<le> nterm (handle m n)"
proof (cases m)
  case (InVote req)
  then show ?thesis by (simp add: HandleRequestVote_snd decide_vote_fields)
next
  case (InAppend req)
  then show ?thesis
    using follow_term(1) [of n "aqTerm req" "aqLeaderID req"]
    by (auto simp: HandleAppendEntries_snd accept_entries_eq Let_def)
next
  case (InSnapshot req)
  then show ?thesis
    using HandleInstallSnapshot_fields(1) [of req n] by (cases "iqTerm req < nterm n") (auto simp: HandleInstallSnapshot_snd)
qed simp

definition voted_in :: "int \<Rightarrow> string \<Rightarrow> ('s, 'd) Node \<Rightarrow> bool" where
  "voted_in t c n \<longleftrightarrow> t < nterm n \<or> t = nterm n \<and> votedFor n = Some c \<and> role n = RoleFollower"

lemma handle_voted:
  assumes "voted_in t c n"
  shows "voted_in t c (handle m n)"
proof (cases "t < nterm n")
  case True
  then show ?thesis using handle_term_mono [of n m] by (simp add: voted_in_def)
next
  case False
  then have n: "nterm n = t" "votedFor n = Some c" "role n = RoleFollower" using assms by (auto simp: voted_in_def)
  show ?thesis
  proof (cases m)
    case (InVote req)
    have "voted_in t c (snd (decide_vote req n))"
      using n by (auto simp: voted_in_def decide_vote_def Let_def becomeFollower_def resetElectionTimer_def)
    then show ?thesis using InVote by (simp add: HandleRequestVote_snd voted_in_def)
  next
    case (InAppend req)
    have "voted_in t c (snd (accept_entries req n))"
      using n follow_term [of n "aqTerm req" "aqLeaderID req"] by (auto simp: voted_in_def accept_entries_eq Let_def)
    then show ?thesis using InAppend by (simp add: HandleAppendEntries_snd voted_in_def)
  next
    case (InSnapshot req)
    show ?thesis
    proof (cases "iqTerm req < nterm n")
      case True
      then show ?thesis using InSnapshot assms by (simp add: HandleInstallSnapshot_snd)
    next
      case no: False
      then show ?thesis
        using InSnapshot n HandleInstallSnapshot_fields [OF no] by (auto simp: voted_in_def)
    qed
  next
    case (InCompact i t')
    then show ?thesis using n by (simp add: voted_in_def)
  qed
qed

lemma handles_voted: "voted_in t c n \<Longrightarrow> voted_in t c (fold handle ms n)"
  by (induction ms arbitrary: n) (auto simp: handle_voted)

lemma granted_voted:
  assumes "vrVoteGranted (fst (HandleRequestVote r n))" "role n = RoleFollower"
  shows "voted_in (vqTerm r) (vqCandidateID r) (snd (HandleRequestVote r n))"
proof -
  obtain d where d: "decide_vote r n = ((\<lparr>vrTerm = vqTerm r, vrVoteGranted = True\<rparr>, True), d)"
      "persist d = (Inr (), snd (HandleRequestVote r n))"
    using HandleRequestVote_granted [OF assms(1)] by metis
  have "snd (HandleRequestVote r n) = snd (persist d)" using d(2) by simp
  then show ?thesis using decide_vote_granted [OF d(1)] assms(2) by (simp add: voted_in_def)
qed

lemma voted_grants:
  assumes "voted_in t c n" "vrVoteGranted (fst (HandleRequestVote r n))" "vqTerm r = t"
  shows "vqCandidateID r = c"
proof -
  obtain d where d: "decide_vote r n = ((\<lparr>vrTerm = vqTerm r, vrVoteGranted = True\<rparr>, True), d)"
    using HandleRequestVote_granted [OF assms(2)] by metis
  have "nterm n \<le> vqTerm r" using decide_vote_granted(2) [OF d] .
  with assms(1,3) have "nterm n = vqTerm r" "votedFor n = Some c" by (auto simp: voted_in_def)
  with decide_vote_granted(3) [OF d] show ?thesis by auto
qed

text \<open>A follower that granted its vote grants it to nobody else in that term, whatever it
  receives in between.\<close>

lemma vote_once:
  assumes "role n = RoleFollower" "vrVoteGranted (fst (HandleRequestVote r1 n))"
    and "vrVoteGranted (fst (HandleRequestVote r2 (fold handle ms (handle (InVote r1) n))))"
    and "vqTerm r2 = vqTerm r1"
  shows "vqCandidateID r2 = vqCandidateID r1"
proof -
  have "voted_in (vqTerm r1) (vqCandidateID r1) (handle (InVote r1) n)" using granted_voted [OF assms(2,1)] by simp
  then show ?thesis by (rule voted_grants [OF handles_voted assms(3,4)])
qed

section \<open>Accepted entries\<close>

lemma HandleAppendEntries_success:
  assumes "arSuccess (fst (HandleAppendEntries req n))"
  defines "n1 \<equiv> follow (aqTerm req) (aqLeaderID req) n"
  shows "nterm n \<le> aqTerm req" "checkPrevLog (aqPrevLogIndex req) (aqPrevLogTerm req) n1"
    and "snd (accept_entries req n) = accepted req n1"
    and "snd (HandleAppendEntries req n) = accepted req n1 \<or>
      persist (accepted req n1) = (Inr (), snd (HandleAppendEntries req n))"
proof -
  show t: "nterm n \<le> aqTerm req"
    using assms(1) by (cases "aqTerm req < nterm n") (auto simp: HandleAppendEntries_def accept_entries_eq)
  show c: "checkPrevLog (aqPrevLogIndex req) (aqPrevLogTerm req) n1"
    using assms(1) t by (cases "checkPrevLog (aqPrevLogIndex req) (aqPrevLogTerm req) n1")
      (auto simp: HandleAppendEntries_def accept_entries_eq Let_def n1_def)
  show "snd (accept_entries req n) = accepted req n1"
    using t c by (simp add: accept_entries_eq Let_def n1_def)
  show "snd (HandleAppendEntries req n) = accepted req n1 \<or>
      persist (accepted req n1) = (Inr (), snd (HandleAppendEntries req n))"
    using assms(1) t c
    by (auto simp: HandleAppendEntries_def accept_entries_eq Let_def case_prod_unfold simp flip: n1_def
        split: sum.splits if_splits) (simp_all add: prod_eq_iff)
qed

lemma HandleAppendEntries_success_fields:
  assumes "arSuccess (fst (HandleAppendEntries req n))"
  defines "n1 \<equiv> follow (aqTerm req) (aqLeaderID req) n" and "n' \<equiv> snd (HandleAppendEntries req n)"
  shows "nterm n' = aqTerm req" "entryAt n' = entryAt (snd (mergeEntries req n1))"
    "lastLogIndex n' = lastLogIndex (snd (mergeEntries req n1))" "lastIncludedIndex n' = lastIncludedIndex n"
    "commitIndex n' = commitIndex (accepted req n1)" "lastApplied n' = lastApplied n"
proof -
  note ok = HandleAppendEntries_success [OF assms(1)]
  have n': "n' = accepted req n1 \<or> n' = snd (persist (accepted req n1))"
    using ok(4) unfolding n'_def n1_def by auto
  have cong: "entryAt (snd (persist m)) = entryAt m" "lastLogIndex (snd (persist m)) = lastLogIndex m" for m :: "('a, 'b) Node"
    by (rule entryAt_cong) (simp_all add: lastLogIndex_def)
  show "nterm n' = aqTerm req" using n' follow_term(1) [OF ok(1)] unfolding n1_def by auto
  show "entryAt n' = entryAt (snd (mergeEntries req n1))"
    "lastLogIndex n' = lastLogIndex (snd (mergeEntries req n1))" "lastIncludedIndex n' = lastIncludedIndex n"
    "commitIndex n' = commitIndex (accepted req n1)" "lastApplied n' = lastApplied n"
    using n' cong by (auto simp: n1_def)
qed

lemma append_success_log:
  assumes "arSuccess (fst (HandleAppendEntries req n))" "0 \<le> lastIncludedIndex n" "0 \<le> aqPrevLogIndex req"
  defines "n' \<equiv> snd (HandleAppendEntries req n)" and "prev \<equiv> aqPrevLogIndex req" and "es \<equiv> aqEntries req"
  shows "lastLogIndex n' = max (lastIncludedIndex n) (prev + int (length es))"
    and "k \<le> prev \<Longrightarrow> entryAt n' k = entryAt n k"
    and "j < length es \<Longrightarrow> lastIncludedIndex n < prev + 1 + int j \<Longrightarrow>
      \<exists>e. entryAt n' (prev + 1 + int j) = Some e \<and> entTerm e = entTerm (es ! j) \<and>
          (e = es ! j \<or> entryAt n (prev + 1 + int j) = Some e)"
proof -
  let ?n1 = "follow (aqTerm req) (aqLeaderID req) n"
  have "prev \<le> lastLogIndex ?n1"
    using HandleAppendEntries_success(2) [OF assms(1)] by (auto simp: checkPrevLog_def prev_def split: if_splits)
  with assms(2,3) have pre: "0 \<le> lastIncludedIndex ?n1" "0 \<le> aqPrevLogIndex req" "aqPrevLogIndex req \<le> lastLogIndex ?n1"
    by (simp_all add: prev_def)
  note f = HandleAppendEntries_success_fields [OF assms(1)]
  note m = mergeEntries_spec [OF pre]
  show "lastLogIndex n' = max (lastIncludedIndex n) (prev + int (length es))"
    using m(1) f(3) by (simp add: n'_def prev_def es_def)
  show "k \<le> prev \<Longrightarrow> entryAt n' k = entryAt n k"
    using m(2) [of k] f(2) by (simp add: n'_def prev_def)
  show "j < length es \<Longrightarrow> lastIncludedIndex n < prev + 1 + int j \<Longrightarrow>
      \<exists>e. entryAt n' (prev + 1 + int j) = Some e \<and> entTerm e = entTerm (es ! j) \<and>
          (e = es ! j \<or> entryAt n (prev + 1 + int j) = Some e)"
    using m(3) [of j] f(2) by (simp add: n'_def prev_def es_def)
qed

text \<open>The commit index only moves forward, and never past the log the request left.\<close>

lemma append_commit:
  assumes "arSuccess (fst (HandleAppendEntries req n))"
  defines "n' \<equiv> snd (HandleAppendEntries req n)"
  shows "aqLeaderCommit req \<le> commitIndex n \<Longrightarrow> commitIndex n' = commitIndex n"
    and "aqLeaderCommit req > commitIndex n \<Longrightarrow> commitIndex n' = min (aqLeaderCommit req) (lastLogIndex n')"
  using HandleAppendEntries_success_fields(3,5) [OF assms(1)]
  by (auto simp: n'_def accepted_def Let_def)

section \<open>Log matching between two nodes\<close>

definition agree_upto :: "int \<Rightarrow> ('s, 'd) Node \<Rightarrow> ('s, 'd) Node \<Rightarrow> bool" where
  "agree_upto k n m \<longleftrightarrow> (\<forall>i \<le> k. \<forall>e e'. entryAt n i = Some e \<longrightarrow> entryAt m i = Some e' \<longrightarrow> e = e')"

definition log_match :: "('s, 'd) Node \<Rightarrow> ('s, 'd) Node \<Rightarrow> bool" where
  "log_match n m \<longleftrightarrow> (\<forall>k e e'. entryAt n k = Some e \<longrightarrow> entryAt m k = Some e' \<longrightarrow>
     entTerm e = entTerm e' \<longrightarrow> agree_upto k n m)"

text \<open>The request was cut from the log of \<open>m\<close>.\<close>

definition cut_from :: "('s, 'd) Node \<Rightarrow> AppendEntriesRequest \<Rightarrow> bool" where
  "cut_from m req \<longleftrightarrow> 0 \<le> aqPrevLogIndex req \<and> lastIncludedIndex m \<le> aqPrevLogIndex req \<and>
     aqPrevLogIndex req \<le> lastLogIndex m \<and> aqPrevLogTerm req = logTermAt m (aqPrevLogIndex req) \<and>
     (\<forall>j < length (aqEntries req). entryAt m (aqPrevLogIndex req + 1 + int j) = Some (aqEntries req ! j))"

lemma append_agree:
  assumes "arSuccess (fst (HandleAppendEntries req n))" "0 \<le> lastIncludedIndex n" "0 \<le> lastIncludedIndex m"
    and "log_match n m" "cut_from m req"
  defines "n' \<equiv> snd (HandleAppendEntries req n)"
  shows "agree_upto (aqPrevLogIndex req + int (length (aqEntries req))) n' m" and "log_match n' m"
proof -
  let ?prev = "aqPrevLogIndex req" and ?es = "aqEntries req"
  have cut: "0 \<le> ?prev" "lastIncludedIndex m \<le> ?prev" "?prev \<le> lastLogIndex m" "aqPrevLogTerm req = logTermAt m ?prev"
      "\<And>j. j < length ?es \<Longrightarrow> entryAt m (?prev + 1 + int j) = Some (?es ! j)"
    using assms(5) by (auto simp: cut_from_def)
  note log = append_success_log [OF assms(1,2) cut(1)]
  have chk: "checkPrevLog ?prev (aqPrevLogTerm req) n"
    using HandleAppendEntries_success(2) [OF assms(1)]
    by (simp add: checkPrevLog_def logTermAt_def split: if_splits)
  have prefix: "e = e'" if i: "i \<le> ?prev" "entryAt n i = Some e" "entryAt m i = Some e'" for i e e'
  proof -
    have pos: "0 < ?prev" using i assms(2) by (auto simp: entryAt_eq split: if_splits)
    have "lastIncludedIndex n < ?prev" "lastIncludedIndex m < ?prev" using i by (auto simp: entryAt_eq split: if_splits)
    then obtain f f' where f: "entryAt n ?prev = Some f" "entryAt m ?prev = Some f'"
      using chk cut(3) by (auto simp: checkPrevLog_def entryAt_eq split: if_splits)
    have "entTerm f = entTerm f'"
      using chk pos cut(4) f assms(2,3) by (auto simp: checkPrevLog_def logTermAt_entry split: if_splits)
    with assms(4) f i show ?thesis unfolding log_match_def agree_upto_def by blast
  qed
  show agree: "agree_upto (?prev + int (length ?es)) n' m"
    unfolding agree_upto_def
  proof (intro allI impI)
    fix i e e'
    assume i: "i \<le> ?prev + int (length ?es)" "entryAt n' i = Some e" "entryAt m i = Some e'"
    show "e = e'"
    proof (cases "i \<le> ?prev")
      case True
      then show ?thesis using prefix [of i e e'] log(2) [of i] i by (simp add: n'_def)
    next
      case False
      then obtain j where j: "i = ?prev + 1 + int j" "j < length ?es"
        using i(1) by (intro that [of "nat (i - ?prev - 1)"]) auto
      have "lastIncludedIndex n < i"
        using i(2) HandleAppendEntries_success_fields(4) [OF assms(1)] by (auto simp: n'_def entryAt_eq split: if_splits)
      with log(3) [OF j(2)] i(2) j(1) have "entTerm e = entTerm (?es ! j)" "e = ?es ! j \<or> entryAt n i = Some e"
        by (auto simp: n'_def)
      with cut(5) [OF j(2)] i(3) j(1) assms(4) show ?thesis
        unfolding log_match_def agree_upto_def by (metis option.inject order_refl)
    qed
  qed
  show "log_match n' m"
    unfolding log_match_def
  proof (intro allI impI)
    fix k e e'
    assume k: "entryAt n' k = Some e" "entryAt m k = Some e'"
    have "k \<le> ?prev + int (length ?es)"
      using k(1) log(1) HandleAppendEntries_success_fields(4) [OF assms(1)]
      by (auto simp: n'_def entryAt_eq split: if_splits)
    with agree show "agree_upto k n' m" unfolding agree_upto_def by (meson order_trans)
  qed
qed

section \<open>Retries\<close>

lemma merge_loop_present:
  "(\<forall>j < length es. present n (idx + int j) (es ! j)) \<Longrightarrow> merge_loop es idx c n = (c, n)"
proof (induction es arbitrary: idx)
  case (Cons e es)
  have "present n idx e" using Cons.prems by force
  moreover have "\<forall>j < length es. present n (idx + 1 + int j) (es ! j)"
  proof (intro allI impI)
    fix j assume "j < length es"
    then show "present n (idx + 1 + int j) (es ! j)"
      using spec [OF Cons.prems, of "Suc j"] by (simp add: ac_simps)
  qed
  ultimately show ?case using Cons.IH by (auto simp: present_def)
qed simp

lemma merge_loop_unchanged: "fst (merge_loop es idx c n) = False \<Longrightarrow> snd (merge_loop es idx c n) = n \<and> \<not> c"
  by (induction es idx c n rule: merge_loop.induct) (auto split: if_splits)

lemma mergeEntries_unchanged: "\<not> fst (mergeEntries req n) \<Longrightarrow> snd (mergeEntries req n) = n"
  using merge_loop_unchanged [of "aqEntries req" "aqPrevLogIndex req + 1"]
  by (fastforce simp: mergeEntries_def Let_def split: if_splits)

text \<open>A request whose entries are all in place changes nothing.\<close>

lemma mergeEntries_noop:
  assumes "0 \<le> lastIncludedIndex n" "lastLogIndex n \<le> aqPrevLogIndex req + int (length (aqEntries req))"
    and "\<And>j. j < length (aqEntries req) \<Longrightarrow> lastIncludedIndex n < aqPrevLogIndex req + 1 + int j \<Longrightarrow>
      \<exists>e. entryAt n (aqPrevLogIndex req + 1 + int j) = Some e \<and> entTerm e = entTerm (aqEntries req ! j)"
  shows "mergeEntries req n = (False, n)"
proof -
  have "present n (aqPrevLogIndex req + 1 + int j) (aqEntries req ! j)" if "j < length (aqEntries req)" for j
    using assms(3) [OF that] assms(1) logTermAt_entry [of n] entryAt_Some_iff [of n "aqPrevLogIndex req + 1 + int j"]
    by (cases "lastIncludedIndex n < aqPrevLogIndex req + 1 + int j") (auto simp: present_def)
  then have "merge_loop (aqEntries req) (aqPrevLogIndex req + 1) False n = (False, n)"
    by (intro merge_loop_present) simp
  then show ?thesis using assms(2) by (simp add: mergeEntries_def Let_def)
qed

lemma follow_again:
  "nterm n \<le> t \<Longrightarrow> leaderID (follow t l n) = Some l \<and> resetElection (follow t l n)"
  by (auto simp: follow_def becomeFollower_def resetElectionTimer_def)

lemma accepted_again:
  assumes "0 \<le> lastIncludedIndex f" "0 \<le> aqPrevLogIndex req"
    and "lastIncludedIndex f \<le> aqPrevLogIndex req + int (length (aqEntries req))"
    and "aqLeaderCommit req \<le> aqPrevLogIndex req + int (length (aqEntries req))"
    and chk: "checkPrevLog (aqPrevLogIndex req) (aqPrevLogTerm req) f"
    and n1: "n1 = (accepted req f)\<lparr>dirty := True, rdisk := d\<rparr>"
  shows "mergeEntries req n1 = (False, n1)" "accepted req n1 = n1" "\<not> commitIndex n1 < aqLeaderCommit req"
    and "checkPrevLog (aqPrevLogIndex req) (aqPrevLogTerm req) n1"
proof -
  have "aqPrevLogIndex req \<le> lastLogIndex f" using chk by (auto simp: checkPrevLog_def split: if_splits)
  note m = mergeEntries_spec [OF assms(1,2) this]
  obtain l where l: "snd (mergeEntries req f) = f\<lparr>nlog := l\<rparr>" using mergeEntries_same by blast
  define c where "c = commitIndex (accepted req f)"
  have n1f: "n1 = f\<lparr>nlog := l, dirty := True, commitIndex := c, rdisk := d\<rparr>"
    using n1 l by (simp add: accepted_def Let_def c_def)
  have entry: "entryAt n1 = entryAt (f\<lparr>nlog := l\<rparr>)" "lastLogIndex n1 = lastLogIndex (f\<lparr>nlog := l\<rparr>)"
      "lastIncludedIndex n1 = lastIncludedIndex f" "lastIncludedTerm n1 = lastIncludedTerm f"
    unfolding n1f by (auto intro!: entryAt_cong simp: lastLogIndex_def)
  show noop: "mergeEntries req n1 = (False, n1)"
    using m(1,3) assms(1,3) by (intro mergeEntries_noop) (auto simp: entry l)
  have "aqLeaderCommit req \<le> c"
    using m(1) assms(3,4) by (simp add: c_def accepted_def Let_def)
  then show "accepted req n1 = n1" "\<not> commitIndex n1 < aqLeaderCommit req"
    using noop by (simp_all add: accepted_def Let_def n1f)
  show "checkPrevLog (aqPrevLogIndex req) (aqPrevLogTerm req) n1"
    using chk m(1) m(2) [of "aqPrevLogIndex req"] by (simp add: checkPrevLog_def logTermAt_def entry l split: if_splits)
qed

text \<open>So a request whose changes could not be saved is acknowledged when it is sent again,
  without touching the disk.\<close>

lemma retry_not_persisted:
  assumes "0 \<le> lastIncludedIndex n" "0 \<le> aqPrevLogIndex req" "nterm n \<le> aqTerm req"
    and "lastIncludedIndex n \<le> aqPrevLogIndex req + int (length (aqEntries req))"
    and "aqLeaderCommit req \<le> aqPrevLogIndex req + int (length (aqEntries req))"
    and "checkPrevLog (aqPrevLogIndex req) (aqPrevLogTerm req) n"
    and "HandleAppendEntries req n = (r1, n1)" "\<not> arSuccess r1"
  shows "HandleAppendEntries req n1 = (\<lparr>arTerm = aqTerm req, arSuccess = True\<rparr>, n1)" "dirty n1"
proof -
  define f where "f = follow (aqTerm req) (aqLeaderID req) n"
  have chk: "checkPrevLog (aqPrevLogIndex req) (aqPrevLogTerm req) f"
    using assms(6) by (simp add: checkPrevLog_def logTermAt_def f_def split: if_splits)
  have f: "0 \<le> lastIncludedIndex f" "lastIncludedIndex f \<le> aqPrevLogIndex req + int (length (aqEntries req))"
    using assms(1,4) by (simp_all add: f_def)
  obtain e where e: "persist (accepted req f) = (Inl e, n1)" "fst (mergeEntries req f) \<or> commitIndex f < aqLeaderCommit req"
    using assms(3,7,8) chk by (auto simp: HandleAppendEntries_def accept_entries_eq Let_def f_def
        split: if_splits prod.splits sum.splits)
  have dirty: "dirty (accepted req f)" using e(2) by (auto simp: accepted_def Let_def)
  obtain d where "n1 = (accepted req f)\<lparr>rdisk := d\<rparr>"
    using e(1) by (auto simp: persist_def split: option.splits if_splits prod.splits sum.splits)
  with dirty have n1: "n1 = (accepted req f)\<lparr>dirty := True, rdisk := d\<rparr>" by simp
  show "dirty n1" using n1 by simp
  note again = accepted_again [OF f(1) assms(2) f(2) assms(5) chk n1]
  have fol: "leaderID f = Some (aqLeaderID req)" "resetElection f" "nterm f = aqTerm req" "role f = RoleFollower"
    using follow_again [OF assms(3)] follow_term(1) [OF assms(3)] by (simp_all add: f_def)
  obtain l where l: "snd (mergeEntries req f) = f\<lparr>nlog := l\<rparr>" using mergeEntries_same by blast
  have "follow (aqTerm req) (aqLeaderID req) n1 = n1" "nterm n1 = aqTerm req"
    using fol by (simp_all add: n1 accepted_def Let_def l follow_def resetElectionTimer_def)
  with again show "HandleAppendEntries req n1 = (\<lparr>arTerm = aqTerm req, arSuccess = True\<rparr>, n1)"
    by (simp add: HandleAppendEntries_def accept_entries_eq Let_def)
qed

section \<open>Durable acknowledgements\<close>

text \<open>A change of the durable part sets the dirty flag.\<close>

lemma follow_durable: "durable_part (follow t l n) = durable_part n \<and> dirty (follow t l n) = dirty n \<or> dirty (follow t l n)"
  by (auto simp: follow_def becomeFollower_def resetElectionTimer_def durable_part_def)

lemma accepted_durable: "durable_part (accepted req n) = durable_part n \<and> dirty (accepted req n) = dirty n \<or> dirty (accepted req n)"
  using mergeEntries_unchanged [of req n]
  by (cases "fst (mergeEntries req n)") (auto simp: accepted_def Let_def durable_part_def)

lemma decide_vote_durable:
  "durable_part (snd (decide_vote req n)) = durable_part n \<and> dirty (snd (decide_vote req n)) = dirty n \<or>
   dirty (snd (decide_vote req n))"
  by (auto simp: decide_vote_def Let_def becomeFollower_def resetElectionTimer_def)

lemma decide_vote_disk [simp]:
  "raftStore (snd (decide_vote req n)) = raftStore n" "rdisk (snd (decide_vote req n)) = rdisk n"
  by (auto simp: decide_vote_def Let_def becomeFollower_def resetElectionTimer_def)

lemma HandleAppendEntries_changed:
  assumes "snd (fst (accept_entries req n))"
  shows "snd (HandleAppendEntries req n) = snd (persist (snd (accept_entries req n)))"
    and "arSuccess (fst (HandleAppendEntries req n)) \<Longrightarrow> fst (persist (snd (accept_entries req n))) = Inr ()"
  using assms by (auto simp: HandleAppendEntries_def case_prod_unfold split: sum.splits)

context raft_store
begin

lemma clean_change:
  assumes "clean n" "raftStore m = raftStore n" "rdisk m = rdisk n"
    and "durable_part m = durable_part n \<and> dirty m = dirty n \<or> dirty m"
  shows "clean m"
  using assms by (auto simp: clean_def)

lemma clean_vote: "clean n \<Longrightarrow> clean (snd (decide_vote req n))"
  by (rule clean_change) (use decide_vote_durable in auto)

lemma clean_follow: "clean n \<Longrightarrow> clean (follow t l n)"
  by (rule clean_change) (use follow_durable in auto)

lemma clean_accepted: "clean n \<Longrightarrow> clean (accepted req n)"
  by (rule clean_change) (use accepted_durable in auto)

text \<open>A granted vote is on disk when the answer leaves.\<close>

lemma granted_vote_durable:
  assumes "clean n" "vrVoteGranted (fst (HandleRequestVote req n))"
  defines "n' \<equiv> snd (HandleRequestVote req n)"
  assumes "ok (durable_part n')"
  shows "rsLoad rs (rdisk n') = Inr (durable_part n')" "nterm n' = vqTerm req" "votedFor n' = Some (vqCandidateID req)"
proof -
  obtain d where d: "decide_vote req n = ((\<lparr>vrTerm = vqTerm req, vrVoteGranted = True\<rparr>, True), d)"
      "persist d = (Inr (), n')"
    using HandleRequestVote_granted [OF assms(2)] unfolding n'_def by metis
  have n': "n' = snd (persist d)" using d(2) by simp
  have "clean d" using clean_vote [OF assms(1), of req] d(1) by simp
  moreover have "ok (durable_part d)" using assms(4) by (simp add: n')
  ultimately show "rsLoad rs (rdisk n') = Inr (durable_part n')" using d(2) by (rule persist_durable)
  show "nterm n' = vqTerm req" "votedFor n' = Some (vqCandidateID req)"
    using decide_vote_granted [OF d(1)] by (simp_all add: n')
qed

text \<open>After a crash the restarted node still grants its vote of that term to nobody else.\<close>

lemma vote_once_restart:
  assumes "clean n" "vrVoteGranted (fst (HandleRequestVote r1 n))"
    and "ok (durable_part (snd (HandleRequestVote r1 n)))"
    and "rdisk n0 = rdisk (snd (HandleRequestVote r1 n))" "role n0 = RoleFollower"
    and "vrVoteGranted (fst (HandleRequestVote r2 (fold handle ms (snd (SetRaftStore (Some rs) n0)))))"
    and "vqTerm r2 = vqTerm r1"
  shows "vqCandidateID r2 = vqCandidateID r1"
proof -
  note g = granted_vote_durable [OF assms(1-3)]
  have "voted_in (vqTerm r1) (vqCandidateID r1) (snd (SetRaftStore (Some rs) n0))"
    using g assms(4,5) by (simp add: voted_in_def SetRaftStore_def Let_def durable_part_def)
  then have "voted_in (vqTerm r1) (vqCandidateID r1) (fold handle ms (snd (SetRaftStore (Some rs) n0)))"
    by (rule handles_voted)
  then show ?thesis using assms(6,7) by (rule voted_grants)
qed

text \<open>An accepted request that changed the node, or met a node with nothing unsaved, is on
  disk when the answer leaves.\<close>

lemma append_durable:
  assumes "clean n" "arSuccess (fst (HandleAppendEntries req n))"
  defines "n' \<equiv> snd (HandleAppendEntries req n)"
  assumes "ok (durable_part n')"
    and "snd (fst (accept_entries req n)) \<or> \<not> dirty (follow (aqTerm req) (aqLeaderID req) n)"
  shows "rsLoad rs (rdisk n') = Inr (durable_part n')"
proof -
  let ?f = "follow (aqTerm req) (aqLeaderID req) n"
  note s = HandleAppendEntries_success [OF assms(2)]
  have c: "clean (accepted req ?f)" using assms(1) by (intro clean_accepted clean_follow)
  show ?thesis
  proof (cases "snd (fst (accept_entries req n))")
    case True
    then have p: "persist (accepted req ?f) = (Inr (), n')"
      using HandleAppendEntries_changed [OF True] assms(2) s(3) by (simp add: n'_def prod_eq_iff)
    then have "durable_part n' = durable_part (accepted req ?f)" by (metis persist_keeps(16) snd_conv)
    then show ?thesis using persist_durable(1) [OF c _ p] assms(4) by simp
  next
    case False
    then have "n' = accepted req ?f"
      using s(3) by (simp add: n'_def HandleAppendEntries_def case_prod_unfold)
    moreover have "\<not> dirty (accepted req ?f)"
      using False assms(5) s(1,2) by (simp add: accept_entries_eq Let_def accepted_def split: if_splits)
    ultimately show ?thesis using c by (simp add: clean_def)
  qed
qed

end

end
