(* ===== verification/RaftApply.thy ===== *)
theory RaftApply
  imports RaftFollower
begin

text \<open>
  pkg/raft/apply.go and \<open>applyCmd\<close> of pkg/raft/leader.go: the tracker of waiters and results,
  and the loop that drains \<open>commitIndex\<close> into the store.  One iteration of the loop is two
  atomic steps, \<open>apply_pick\<close> under \<open>n.mu\<close> and \<open>apply_run\<close> under \<open>applyMu\<close>; anything may happen
  between them.  Shown here: every committed entry is applied exactly once and in index order,
  whatever other handlers do in between, and its waiters get the result of that entry.
\<close>

section \<open>The tracker\<close>

definition newApplyTracker :: ApplyTracker where
  "newApplyTracker = \<lparr>waiters = (\<lambda>_. 0), results = (\<lambda>_. None), woken = (\<lambda>_. 0)\<rparr>"

definition WaitIndex :: "int \<Rightarrow> ApplyTracker \<Rightarrow> ApplyTracker" where
  "WaitIndex i t = t\<lparr>waiters := (waiters t)(i := waiters t i + 1)\<rparr>"

definition Result :: "int \<Rightarrow> ApplyTracker \<Rightarrow> applyVal \<times> kv_error option" where
  "Result i t =
     (case results t i of
        None \<Rightarrow> (ANil, Some (ErrOther ''raft: no apply result recorded for index''))
      | Some r \<Rightarrow> (resVal r, resErr r))"

definition tr_applied :: "int \<Rightarrow> applyResult \<Rightarrow> ApplyTracker \<Rightarrow> ApplyTracker" where
  "tr_applied i r t =
     t\<lparr>results := (results t)(i := Some r), woken := (woken t)(i := woken t i + waiters t i),
       waiters := (waiters t)(i := 0)\<rparr>"

section \<open>Accessors\<close>

definition ApplyIndex :: "('s, 'd) Node \<Rightarrow> int" where
  "ApplyIndex n = lastApplied n"

definition SnapshotBase :: "('s, 'd) Node \<Rightarrow> int" where
  "SnapshotBase n = lastIncludedIndex n"

definition LogTerm :: "int \<Rightarrow> ('s, 'd) Node \<Rightarrow> int" where
  "LogTerm i n = logTermAt n i"

definition Flush :: "('s, 'd) Node \<Rightarrow> unit res \<times> ('s, 'd) Node" where
  "Flush n = persist n"

definition StartApply :: "('s, 'd) Node \<Rightarrow> ('s, 'd) Node" where
  "StartApply n = n\<lparr>applyTr := Some newApplyTracker\<rparr>"

section \<open>Applying a command\<close>

definition err_of :: "'a res \<Rightarrow> kv_error option" where
  "err_of r = (case r of Inl e \<Rightarrow> Some e | Inr _ \<Rightarrow> None)"

text \<open>\<open>now\<close> is the clock the store reads.  On an error \<open>Incr\<close> and \<open>CAS\<close> return the zero value of
  their type beside it.\<close>

definition run_cmd :: "'s EngineOps \<Rightarrow> int64 \<Rightarrow> Command \<Rightarrow> 's \<Rightarrow> (applyVal \<times> kv_error option) \<times> 's" where
  "run_cmd eng now cmd s =
     (case cmdOp cmd of
        OpPut \<Rightarrow> (case engPut eng now (cmdKey cmd) (cmdValue cmd) s of (r, s') \<Rightarrow> ((ANil, err_of r), s'))
      | OpDelete \<Rightarrow> (case engDelete eng now (cmdKey cmd) s of (r, s') \<Rightarrow> ((ANil, err_of r), s'))
      | OpClear \<Rightarrow> (case engClear eng now s of (r, s') \<Rightarrow> ((ANil, err_of r), s'))
      | OpIncr \<Rightarrow>
          (case engIncr eng now (cmdKey cmd) s of
             (r, s') \<Rightarrow> ((AInt (case r of Inl _ \<Rightarrow> 0 | Inr v \<Rightarrow> v), err_of r), s'))
      | OpCAS \<Rightarrow>
          (case engCAS eng now (cmdKey cmd) (cmdOld cmd) (cmdValue cmd) s of
             (r, s') \<Rightarrow> ((ABool (case r of Inl _ \<Rightarrow> False | Inr b \<Rightarrow> b), err_of r), s'))
      | OpExpire \<Rightarrow> (case engExpire eng now (cmdKey cmd) (cmdExpiresAt cmd) s of (r, s') \<Rightarrow> ((ANil, err_of r), s'))
      | OpUnknown \<Rightarrow> ((ANil, Some (ErrOther ''raft: unknown command op'')), s))"

definition applyCmd :: "int64 \<Rightarrow> Command \<Rightarrow> ('s, 'd) Node \<Rightarrow> (applyVal \<times> kv_error option) \<times> ('s, 'd) Node" where
  "applyCmd now cmd n = (case run_cmd (engine n) now cmd (store n) of (r, s) \<Rightarrow> (r, n\<lparr>store := s\<rparr>))"

section \<open>The loop\<close>

definition apply_pick :: "('s, 'd) Node \<Rightarrow> (int \<times> Entry option) option" where
  "apply_pick n =
     (if lastApplied n \<ge> commitIndex n then None
      else let idx = lastApplied n + 1 in Some (idx, entryAt n idx))"

definition note_applied :: "int \<Rightarrow> applyResult \<Rightarrow> ('s, 'd) Node \<Rightarrow> ('s, 'd) Node" where
  "note_applied idx r n = n\<lparr>applyTr := map_option (tr_applied idx r) (applyTr n)\<rparr>"

definition apply_run :: "int64 \<Rightarrow> int \<Rightarrow> Entry option \<Rightarrow> ('s, 'd) Node \<Rightarrow> ('s, 'd) Node" where
  "apply_run now idx entry n =
     (if lastApplied n \<ge> idx then note_applied idx \<lparr>resVal = ANil, resErr = None\<rparr> n
      else case entry of
             None \<Rightarrow> note_applied idx \<lparr>resVal = ANil, resErr = None\<rparr> (n\<lparr>lastApplied := idx\<rparr>)
           | Some e \<Rightarrow>
               (case applyCmd now (entCmd e) n of
                  ((res, err), n1) \<Rightarrow>
                    note_applied idx \<lparr>resVal = res, resErr = err\<rparr> (n1\<lparr>lastApplied := idx\<rparr>)))"

text \<open>One undisturbed iteration, and as many as there are clock readings.\<close>

definition apply_iter :: "int64 \<Rightarrow> ('s, 'd) Node \<Rightarrow> ('s, 'd) Node" where
  "apply_iter now n =
     (if stopped n then n
      else case apply_pick n of None \<Rightarrow> n | Some (idx, entry) \<Rightarrow> apply_run now idx entry n)"

definition applyLoop :: "int64 list \<Rightarrow> ('s, 'd) Node \<Rightarrow> ('s, 'd) Node" where
  "applyLoop = fold apply_iter"

section \<open>In order, exactly once\<close>

text \<open>The reference: run the commands of the entries after \<open>lastApplied\<close> one after the other.\<close>

fun run_cmds :: "'s EngineOps \<Rightarrow> int64 list \<Rightarrow> Command list \<Rightarrow> 's \<Rightarrow> 's" where
  "run_cmds eng (t # ts) (c # cs) s = run_cmds eng ts cs (snd (run_cmd eng t c s))"
| "run_cmds eng _ _ s = s"

definition pending :: "('s, 'd) Node \<Rightarrow> Command list" where
  "pending n = map entCmd (take (nat (commitIndex n - lastApplied n)) (drop (nat (lastApplied n - lastIncludedIndex n)) (nlog n)))"

text \<open>The committed prefix is in the log, and nothing behind the base is unapplied.\<close>

definition apply_ok :: "('s, 'd) Node \<Rightarrow> bool" where
  "apply_ok n \<longleftrightarrow> lastIncludedIndex n \<le> lastApplied n \<and> lastApplied n \<le> commitIndex n \<and> commitIndex n \<le> lastLogIndex n"

lemma apply_iter_step:
  fixes t :: int64
  assumes "apply_ok n" "\<not> stopped n" "lastApplied n < commitIndex n"
  defines "n' \<equiv> apply_iter t n"
  shows "\<exists>c cs. pending n = c # cs \<and> pending n' = cs \<and> store n' = snd (run_cmd (engine n) t c (store n))"
    and "lastApplied n' = lastApplied n + 1" "apply_ok n'" "\<not> stopped n'" "engine n' = engine n"
      "commitIndex n' = commitIndex n" "nlog n' = nlog n" "lastIncludedIndex n' = lastIncludedIndex n"
proof -
  let ?o = "nat (lastApplied n - lastIncludedIndex n)" and ?k = "nat (commitIndex n - lastApplied n)"
  have bound: "?o < length (nlog n)" and le: "lastIncludedIndex n \<le> lastApplied n"
    using assms(1,3) by (auto simp: apply_ok_def lastLogIndex_def)
  have "entryAt n (lastApplied n + 1) = Some (nlog n ! ?o)"
    using assms(1,3) by (auto simp: apply_ok_def entryAt_eq)
  then have n': "n' = note_applied (lastApplied n + 1)
        \<lparr>resVal = fst (fst (run_cmd (engine n) t (entCmd (nlog n ! ?o)) (store n))),
         resErr = snd (fst (run_cmd (engine n) t (entCmd (nlog n ! ?o)) (store n)))\<rparr>
        (n\<lparr>store := snd (run_cmd (engine n) t (entCmd (nlog n ! ?o)) (store n)), lastApplied := lastApplied n + 1\<rparr>)"
    using assms(2,3) by (simp add: n'_def apply_iter_def apply_pick_def apply_run_def applyCmd_def case_prod_unfold)
  then show "lastApplied n' = lastApplied n + 1" "\<not> stopped n'" "engine n' = engine n"
      "commitIndex n' = commitIndex n" "nlog n' = nlog n" "lastIncludedIndex n' = lastIncludedIndex n"
    using assms(2) by (simp_all add: note_applied_def)
  then show "apply_ok n'" using assms(1,3) by (simp add: apply_ok_def lastLogIndex_def)
  have k: "?k = Suc (nat (commitIndex n - (lastApplied n + 1)))" and o: "Suc ?o = nat (lastApplied n + 1 - lastIncludedIndex n)"
    using assms(3) le by auto
  have "pending n = entCmd (nlog n ! ?o) # pending n'"
    using n' by (simp add: pending_def note_applied_def k Cons_nth_drop_Suc [OF bound, symmetric] flip: o)
  moreover have "store n' = snd (run_cmd (engine n) t (entCmd (nlog n ! ?o)) (store n))"
    using n' by (simp add: note_applied_def)
  ultimately show "\<exists>c cs. pending n = c # cs \<and> pending n' = cs \<and> store n' = snd (run_cmd (engine n) t c (store n))"
    by blast
qed

lemma applyLoop_runs:
  assumes "apply_ok n" "\<not> stopped n"
  shows "store (applyLoop ts n) = run_cmds (engine n) ts (pending n) (store n) \<and>
    lastApplied (applyLoop ts n) = min (commitIndex n) (lastApplied n + int (length ts))"
  using assms
proof (induction ts arbitrary: n)
  case Nil
  then show ?case by (auto simp: applyLoop_def apply_ok_def)
next
  case (Cons t ts)
  show ?case
  proof (cases "lastApplied n < commitIndex n")
    case True
    obtain c cs where c: "pending n = c # cs" "pending (apply_iter t n) = cs"
        "store (apply_iter t n) = snd (run_cmd (engine n) t c (store n))"
      using apply_iter_step(1) [OF Cons.prems True] by blast
    then show ?thesis
      using Cons.IH [OF apply_iter_step(3,4) [OF Cons.prems True]] apply_iter_step(2,5,6) [OF Cons.prems True]
      by (simp add: applyLoop_def)
  next
    case False
    then have eq: "lastApplied n = commitIndex n" and id: "apply_iter t n = n"
      using Cons.prems by (auto simp: apply_ok_def apply_iter_def apply_pick_def)
    then have "pending n = []" by (simp add: pending_def)
    with Cons.IH [OF Cons.prems] eq id show ?thesis by (cases ts) (simp_all add: applyLoop_def)
  qed
qed

section \<open>Under interleaving\<close>

text \<open>Steps of a node as the apply loop sees them: a message handled by another goroutine, the
  pick, and the run of what was picked.  The list records the indices whose commands ran.\<close>

datatype apply_event = Other inbound | Pick | Run int64

record ('s, 'd) applying =
  apNode :: "('s, 'd) Node"
  apPicked :: "(int \<times> Entry option) option"
  apRan :: "(int \<times> Command) list"

fun apply_step :: "apply_event \<Rightarrow> ('s, 'd) applying \<Rightarrow> ('s, 'd) applying" where
  "apply_step (Other m) a = a\<lparr>apNode := handle m (apNode a)\<rparr>"
| "apply_step Pick a =
     (case apPicked a of None \<Rightarrow> a\<lparr>apPicked := apply_pick (apNode a)\<rparr> | Some _ \<Rightarrow> a)"
| "apply_step (Run t) a =
     (case apPicked a of
        None \<Rightarrow> a
      | Some (idx, entry) \<Rightarrow>
          a\<lparr>apNode := apply_run t idx entry (apNode a), apPicked := None,
            apRan := apRan a @ (case entry of
                                  None \<Rightarrow> []
                                | Some e \<Rightarrow> if lastApplied (apNode a) \<ge> idx then [] else [(idx, entCmd e)])\<rparr>)"

lemma handle_lastApplied: "lastApplied n \<le> lastApplied (handle m n)"
proof (cases m)
  case (InVote req)
  then show ?thesis by (simp add: HandleRequestVote_snd decide_vote_fields)
next
  case (InAppend req)
  have "lastApplied (snd (accept_entries req n)) = lastApplied n" by (simp add: accept_entries_eq Let_def)
  then show ?thesis using InAppend by (simp add: HandleAppendEntries_snd)
next
  case (InSnapshot req)
  then show ?thesis
    using HandleInstallSnapshot_fields(5) [of req n] by (cases "iqTerm req < nterm n") (auto simp: HandleInstallSnapshot_snd)
next
  case (InCompact i t)
  then show ?thesis by (simp add: CompactLog_def Let_def)
qed

lemma apply_run_lastApplied: "lastApplied (apply_run t idx entry n) = max idx (lastApplied n)"
  by (auto simp: apply_run_def note_applied_def applyCmd_def split: option.splits prod.splits)

definition ran_ok :: "('s, 'd) applying \<Rightarrow> bool" where
  "ran_ok a \<longleftrightarrow> sorted_wrt (<) (map fst (apRan a)) \<and> (\<forall>(i, c) \<in> set (apRan a). i \<le> lastApplied (apNode a))"

lemma apply_step_ran:
  assumes "ran_ok a"
  shows "ran_ok (apply_step ev a)"
proof (cases ev)
  case (Other m)
  then show ?thesis using assms handle_lastApplied [of "apNode a" m] by (force simp: ran_ok_def)
next
  case (Run t)
  show ?thesis
  proof (cases "apPicked a")
    case (Some p)
    then show ?thesis
      using assms Run by (cases p) (fastforce simp: ran_ok_def sorted_wrt_append apply_run_lastApplied split: option.splits)
  qed (use assms Run in simp)
qed (use assms in \<open>simp add: ran_ok_def split: option.splits\<close>)

lemma apply_steps_ran: "ran_ok a \<Longrightarrow> ran_ok (fold apply_step evs a)"
  by (induction evs arbitrary: a) (simp_all add: apply_step_ran)

text \<open>The waiters of an index are woken with the result of the entry that ran there.\<close>

lemma apply_run_result:
  assumes "lastApplied n < idx" "applyTr n = Some tr"
  shows "\<exists>tr'. applyTr (apply_run now idx (Some e) n) = Some tr' \<and>
    Result idx tr' = fst (run_cmd (engine n) now (entCmd e) (store n)) \<and>
    woken tr' idx = woken tr idx + waiters tr idx \<and> waiters tr' idx = 0 \<and>
    (\<forall>i. i \<noteq> idx \<longrightarrow> Result i tr' = Result i tr)"
  using assms by (simp add: apply_run_def note_applied_def applyCmd_def tr_applied_def Result_def case_prod_unfold)

end
