(* ===== verification/RaftLeader.thy ===== *)
theory RaftLeader
  imports RaftApply
begin

text \<open>
  pkg/raft/leader.go, pkg/raft/commit.go and \<open>installSnapshot\<close> of pkg/raft/snapshot.go: the
  engine operations a node offers, proposals, replication to one peer, and the commit rule.
  A function that releases \<open>n.mu\<close> around a remote call is split at that point (\<open>repl_send\<close>,
  \<open>repl_reply\<close>, ...), and composed into its undisturbed run.  Shown here: the commit index
  rises only to an entry of the current term that a majority is recorded to hold, it is the
  highest such index, what is sent is cut from the leader's own log, the retry loop ends, and
  an exchange that succeeds leaves the follower's log equal to the leader's up to the index
  recorded for it.
\<close>

section \<open>Bookkeeping\<close>

definition majority :: "'p list \<Rightarrow> nat" where
  "majority ps = (length ps + 1) div 2 + 1"

definition maxReplBackoff :: nat where
  "maxReplBackoff = 64"

definition fresh_repl :: "('s, 'd) Node \<Rightarrow> replicationState" where
  "fresh_repl n =
     \<lparr>nextIndex = (\<lambda>p. if p \<in> set (peers n) then lastLogIndex n + 1 else 0), matchIndex = (\<lambda>_. 0),
      inFlight = (\<lambda>_. False), backoff = (\<lambda>_. 0)\<rparr>"

definition repl_of :: "('s, 'd) Node \<Rightarrow> replicationState" where
  "repl_of n = (case repl n of Some st \<Rightarrow> st | None \<Rightarrow> fresh_repl n)"

definition replState :: "('s, 'd) Node \<Rightarrow> ('s, 'd) Node" where
  "replState n = n\<lparr>repl := Some (repl_of n)\<rparr>"

definition set_inFlight :: "string \<Rightarrow> bool \<Rightarrow> ('s, 'd) Node \<Rightarrow> ('s, 'd) Node" where
  "set_inFlight peer b n = n\<lparr>repl := Some ((repl_of n)\<lparr>inFlight := (inFlight (repl_of n))(peer := b)\<rparr>)\<rparr>"

section \<open>Commit\<close>

definition match_list :: "('s, 'd) Node \<Rightarrow> int list" where
  "match_list n = lastLogIndex n # map (matchIndex (repl_of n)) (peers n)"

definition maybeCommit :: "('s, 'd) Node \<Rightarrow> ('s, 'd) Node" where
  "maybeCommit n =
     (if role n \<noteq> RoleLeader then n
      else
        let n1 = replState n;
            match = sort (match_list n1);
            threshold = match ! (length match - majority (peers n1))
        in if threshold \<le> commitIndex n1 then n1
           else if threshold > 0 \<and>
                   (case entryAt n1 threshold of None \<Rightarrow> True | Some e \<Rightarrow> entTerm e \<noteq> nterm n1)
           then n1
           else n1\<lparr>commitIndex := threshold\<rparr>)"

section \<open>Snapshots for a lagging peer\<close>

definition SetSnapshotter :: "(int \<Rightarrow> (int \<Rightarrow> int) \<Rightarrow> 's \<Rightarrow> Snapshot res) option \<Rightarrow> ('s, 'd) Node \<Rightarrow> ('s, 'd) Node" where
  "SetSnapshotter p n = n\<lparr>snapshotter := p\<rparr>"

definition SetSnapshotSink :: "(bytes \<Rightarrow> 's \<Rightarrow> unit res \<times> 's) option \<Rightarrow> ('s, 'd) Node \<Rightarrow> ('s, 'd) Node" where
  "SetSnapshotSink p n = n\<lparr>snapshotSink := p\<rparr>"

definition snap_begin :: "string \<Rightarrow> ('s, 'd) Node \<Rightarrow> bool \<times> ('s, 'd) Node" where
  "snap_begin peer n =
     (if role n \<noteq> RoleLeader \<or> snapshotter n = None then (False, n)
      else let n1 = replState n in (\<not> inFlight (repl_of n1) peer, n1))"

definition snap_send :: "string \<Rightarrow> Snapshot \<Rightarrow> ('s, 'd) Node \<Rightarrow> InstallSnapshotRequest option \<times> ('s, 'd) Node" where
  "snap_send peer snap n =
     (let n1 = replState n
      in if inFlight (repl_of n1) peer then (None, n1)
         else (Some \<lparr>iqTerm = nterm n1, iqLeaderID = nid n1, iqLastIncludedIndex = snLastIncludedIndex snap,
                     iqLastIncludedTerm = snLastIncludedTerm snap, iqData = snData snap\<rparr>,
               set_inFlight peer True n1))"

definition snap_reply ::
    "string \<Rightarrow> Snapshot \<Rightarrow> InstallSnapshotResponse res \<Rightarrow> ('s, 'd) Node \<Rightarrow> bool \<times> ('s, 'd) Node" where
  "snap_reply peer snap r n =
     (let n1 = set_inFlight peer False n
      in case r of
           Inl e \<Rightarrow> (False, n1)
         | Inr resp \<Rightarrow>
             if irTerm resp > nterm n1 then (False, becomeFollower (irTerm resp) None n1)
             else if irTerm resp < nterm n1 \<or> \<not> irSuccess resp then (False, n1)
             else
               let st = repl_of n1; i = snLastIncludedIndex snap;
                   st1 = (if i > matchIndex st peer then st\<lparr>matchIndex := (matchIndex st)(peer := i)\<rparr> else st);
                   st2 = (if i + 1 > nextIndex st1 peer then st1\<lparr>nextIndex := (nextIndex st1)(peer := i + 1)\<rparr> else st1);
                   st3 = st2\<lparr>backoff := (backoff st2)(peer := 0)\<rparr>
               in (True, maybeCommit (n1\<lparr>repl := Some st3\<rparr>)))"

text \<open>\<open>call\<close> is the transport's \<open>InstallSnapshot\<close> to this peer.\<close>

definition installSnapshot ::
    "(InstallSnapshotRequest \<Rightarrow> 'w \<Rightarrow> InstallSnapshotResponse res \<times> 'w) \<Rightarrow> string \<Rightarrow> 'w \<Rightarrow> ('s, 'd) Node \<Rightarrow>
     bool \<times> ('s, 'd) Node \<times> 'w" where
  "installSnapshot call peer w n =
     (case snap_begin peer n of
        (False, n1) \<Rightarrow> (False, n1, w)
      | (True, n1) \<Rightarrow>
          (case snapshotter n1 of
             None \<Rightarrow> (False, n1, w)
           | Some take_snapshot \<Rightarrow>
               (case take_snapshot (ApplyIndex n1) (\<lambda>i. LogTerm i n1) (store n1) of
                  Inl e \<Rightarrow> (False, n1, w)
                | Inr snap \<Rightarrow>
                    (case snap_send peer snap n1 of
                       (None, n2) \<Rightarrow> (False, n2, w)
                     | (Some req, n2) \<Rightarrow>
                         (case call req w of
                            (r, w1) \<Rightarrow> (case snap_reply peer snap r n2 of (b, n3) \<Rightarrow> (b, n3, w1)))))))"

section \<open>Replication to one peer\<close>

datatype send = Refused | NeedSnapshot | SendEntries AppendEntriesRequest

definition repl_send :: "string \<Rightarrow> ('s, 'd) Node \<Rightarrow> send \<times> ('s, 'd) Node" where
  "repl_send peer n =
     (if role n \<noteq> RoleLeader then (Refused, n)
      else
        let n1 = replState n; st = repl_of n1
        in if inFlight st peer then (Refused, n1)
           else
             let next = (if nextIndex st peer < 1 then 1 else nextIndex st peer)
             in if next < firstIndex n1 then (NeedSnapshot, n1)
                else
                  let prev = next - 1;
                      entries = (if next \<le> lastLogIndex n1 then drop (nat (next - firstIndex n1)) (nlog n1) else [])
                  in (SendEntries \<lparr>aqTerm = nterm n1, aqLeaderID = nid n1, aqPrevLogIndex = prev,
                                   aqPrevLogTerm = logTermAt n1 prev, aqEntries = entries,
                                   aqLeaderCommit = commitIndex n1\<rparr>,
                      set_inFlight peer True n1))"

text \<open>What the loop does with the answer: \<open>None\<close> is \<open>continue\<close>.\<close>

definition repl_reply ::
    "string \<Rightarrow> AppendEntriesRequest \<Rightarrow> AppendEntriesResponse res \<Rightarrow> ('s, 'd) Node \<Rightarrow> bool option \<times> ('s, 'd) Node" where
  "repl_reply peer req r n =
     (let n1 = set_inFlight peer False n
      in case r of
           Inl e \<Rightarrow> (Some False, n1)
         | Inr resp \<Rightarrow>
             if arTerm resp > nterm n1 then (Some False, becomeFollower (arTerm resp) None n1)
             else if arTerm resp < nterm n1 then (Some False, n1)
             else if \<not> arSuccess resp then
               (let st = repl_of n1;
                    step = (if backoff st peer = 0 then 1 else backoff st peer);
                    next' = (if nextIndex st peer > int step then nextIndex st peer - int step else 1);
                    st1 = st\<lparr>nextIndex := (nextIndex st)(peer := next')\<rparr>;
                    st2 = (if step < maxReplBackoff then st1\<lparr>backoff := (backoff st1)(peer := step * 2)\<rparr> else st1)
                in (if step \<ge> maxReplBackoff then Some False else None, n1\<lparr>repl := Some st2\<rparr>))
             else
               (let st = (repl_of n1)\<lparr>backoff := (backoff (repl_of n1))(peer := 0)\<rparr>;
                    matched = aqPrevLogIndex req + int (length (aqEntries req));
                    st1 = (if matched > matchIndex st peer then st\<lparr>matchIndex := (matchIndex st)(peer := matched)\<rparr> else st);
                    st2 = (if matched + 1 > nextIndex st1 peer
                           then st1\<lparr>nextIndex := (nextIndex st1)(peer := matched + 1)\<rparr> else st1)
                in (Some True, maybeCommit (n1\<lparr>repl := Some st2\<rparr>))))"

text \<open>The loop of \<open>replicateToPeer\<close>, undisturbed; the peer is a state \<open>w\<close> its handlers act on.\<close>

function replicateToPeer ::
    "(AppendEntriesRequest \<Rightarrow> 'w \<Rightarrow> AppendEntriesResponse res \<times> 'w) \<Rightarrow>
     (InstallSnapshotRequest \<Rightarrow> 'w \<Rightarrow> InstallSnapshotResponse res \<times> 'w) \<Rightarrow> string \<Rightarrow> 'w \<Rightarrow> ('s, 'd) Node \<Rightarrow>
     bool \<times> ('s, 'd) Node \<times> 'w" where
  "replicateToPeer call callSnap peer w n =
     (case repl_send peer n of
        (Refused, n1) \<Rightarrow> (False, n1, w)
      | (NeedSnapshot, n1) \<Rightarrow> installSnapshot callSnap peer w n1
      | (SendEntries req, n1) \<Rightarrow>
          (case call req w of
             (r, w1) \<Rightarrow>
               (case repl_reply peer req r n1 of
                  (Some b, n2) \<Rightarrow> (b, n2, w1)
                | (None, n2) \<Rightarrow> replicateToPeer call callSnap peer w1 n2)))"
  by pat_completeness auto

text \<open>A retry doubles the step, and the step that reaches \<open>maxReplBackoff\<close> is the last.\<close>

lemma set_inFlight_repl [simp]:
  "nextIndex (repl_of (set_inFlight p b n)) = nextIndex (repl_of n)"
  "matchIndex (repl_of (set_inFlight p b n)) = matchIndex (repl_of n)"
  "backoff (repl_of (set_inFlight p b n)) = backoff (repl_of n)"
  "inFlight (repl_of (set_inFlight p b n)) = (inFlight (repl_of n))(p := b)"
  by (simp_all add: set_inFlight_def repl_of_def)

lemma replState_repl [simp]: "repl_of (replState n) = repl_of n"
  by (simp add: replState_def repl_of_def)

lemma replState_fields [simp]:
  "nterm (replState n) = nterm n" "nlog (replState n) = nlog n" "role (replState n) = role n" "nid (replState n) = nid n"
  "peers (replState n) = peers n" "commitIndex (replState n) = commitIndex n"
  "lastIncludedIndex (replState n) = lastIncludedIndex n" "lastIncludedTerm (replState n) = lastIncludedTerm n"
  "lastLogIndex (replState n) = lastLogIndex n" "firstIndex (replState n) = firstIndex n"
  "entryAt (replState n) = entryAt n" "logTermAt (replState n) = logTermAt n"
  by (auto simp: replState_def lastLogIndex_def firstIndex_def logTermAt_def fun_eq_iff entryAt_eq)

lemma set_inFlight_fields [simp]:
  "nterm (set_inFlight p b n) = nterm n" "nlog (set_inFlight p b n) = nlog n" "role (set_inFlight p b n) = role n"
  "nid (set_inFlight p b n) = nid n" "peers (set_inFlight p b n) = peers n" "commitIndex (set_inFlight p b n) = commitIndex n"
  "lastIncludedIndex (set_inFlight p b n) = lastIncludedIndex n" "lastIncludedTerm (set_inFlight p b n) = lastIncludedTerm n"
  "lastLogIndex (set_inFlight p b n) = lastLogIndex n" "entryAt (set_inFlight p b n) = entryAt n"
  "logTermAt (set_inFlight p b n) = logTermAt n"
  by (auto simp: set_inFlight_def lastLogIndex_def logTermAt_def fun_eq_iff entryAt_eq)

lemma repl_send_backoff: "repl_send peer n = (s, n1) \<Longrightarrow> backoff (repl_of n1) = backoff (repl_of n)"
  by (auto simp: repl_send_def Let_def split: if_splits)

lemma repl_reply_backoff:
  assumes "repl_reply peer req r n1 = (None, n2)"
  shows "backoff (repl_of n1) peer < 64" "backoff (repl_of n2) peer = 2 * max 1 (backoff (repl_of n1) peer)"
proof -
  have "backoff (repl_of n1) peer < 64 \<and> backoff (repl_of n2) peer = 2 * max 1 (backoff (repl_of n1) peer)"
    using assms unfolding repl_reply_def Let_def
    by (auto simp: maxReplBackoff_def repl_of_def [of "_\<lparr>repl := _\<rparr>"] split: sum.splits if_splits)
  then show "backoff (repl_of n1) peer < 64" "backoff (repl_of n2) peer = 2 * max 1 (backoff (repl_of n1) peer)"
    by simp_all
qed

termination replicateToPeer
proof (relation "measure (\<lambda>(call, cs, peer, w, n). 128 - backoff (repl_of n) peer)")
  fix call :: "AppendEntriesRequest \<Rightarrow> 'w \<Rightarrow> AppendEntriesResponse res \<times> 'w"
    and callSnap :: "InstallSnapshotRequest \<Rightarrow> 'w \<Rightarrow> InstallSnapshotResponse res \<times> 'w"
    and peer :: string and w w1 :: 'w and n n1 n2 :: "('s, 'd) Node" and x :: "send \<times> ('s, 'd) Node" and s req y r z o'
  show "((call, callSnap, peer, w1, n2), (call, callSnap, peer, w, n))
      \<in> measure (\<lambda>(call, cs, peer, w, n). 128 - backoff (repl_of n) peer)"
    if "(s, n1) = repl_send peer n" "(o', n2) = repl_reply peer req r n1" "o' = None" for s o' req r
    using that repl_send_backoff [of peer n s n1] repl_reply_backoff [of peer req r n1 n2] by auto
qed simp_all

declare replicateToPeer.simps [simp del]

section \<open>Proposals\<close>

definition Leader :: "('s, 'd) Node \<Rightarrow> string" where
  "Leader n = (case leaderID n of None \<Rightarrow> '''' | Some l \<Rightarrow> l)"

definition IsLeader :: "('s, 'd) Node \<Rightarrow> bool" where
  "IsLeader n \<longleftrightarrow> role n = RoleLeader"

definition append_entry :: "Command \<Rightarrow> ('s, 'd) Node \<Rightarrow> ('s, 'd) Node" where
  "append_entry cmd n = n\<lparr>nlog := nlog n @ [\<lparr>entTerm = nterm n, entCmd = cmd\<rparr>], dirty := True\<rparr>"

text \<open>The list is the peers a background \<open>replicateToPeer\<close> is started for.\<close>

definition propose :: "int64 \<Rightarrow> Command \<Rightarrow> ('s, 'd) Node \<Rightarrow> (unit res \<times> string list) \<times> ('s, 'd) Node" where
  "propose now cmd n =
     (if role n \<noteq> RoleLeader then ((Inl (NotLeaderError (Leader n)), []), n)
      else
        let n1 = append_entry cmd n
        in if peers n1 = [] then
             (case applyCmd now cmd (n1\<lparr>commitIndex := lastLogIndex n1\<rparr>) of
                ((_, err), n2) \<Rightarrow> ((case err of None \<Rightarrow> Inr () | Some e \<Rightarrow> Inl e, []), n2))
           else
             (case persist n1 of
                (Inl e, n2) \<Rightarrow> ((Inl (ErrOther ''raft: could not persist log entry''), []), n2)
              | (Inr _, n2) \<Rightarrow> ((Inr (), peers n2), n2)))"

text \<open>\<open>proposeWait\<close> up to the \<open>select\<close>: a result at once, or the index waited for and the
  peers replicated to.\<close>

definition proposeWait_begin ::
    "int64 \<Rightarrow> Command \<Rightarrow> ('s, 'd) Node \<Rightarrow> ((applyVal \<times> kv_error option) + (int \<times> string list)) \<times> ('s, 'd) Node" where
  "proposeWait_begin now cmd n =
     (if role n \<noteq> RoleLeader then (Inl (ANil, Some (NotLeaderError (Leader n))), n)
      else
        let n1 = append_entry cmd n; idx = lastLogIndex n1
        in if peers n1 = [] then
             (case applyCmd now cmd (n1\<lparr>commitIndex := idx\<rparr>) of (r, n2) \<Rightarrow> (Inl r, n2))
           else
             case applyTr n1 of
               None \<Rightarrow> (Inl (ANil, Some (ErrOther ''raft: apply loop not started'')), n1)
             | Some tr \<Rightarrow>
                 (case persist (n1\<lparr>applyTr := Some (WaitIndex idx tr)\<rparr>) of
                    (Inl e, n2) \<Rightarrow> (Inl (ANil, Some (ErrOther ''raft: could not persist log entry'')), n2)
                  | (Inr _, n2) \<Rightarrow> (Inr (idx, peers n2), n2)))"

datatype wait_event = Woken | TimedOut | NodeStopped

definition proposeWait_end :: "wait_event \<Rightarrow> int \<Rightarrow> ('s, 'd) Node \<Rightarrow> applyVal \<times> kv_error option" where
  "proposeWait_end ev idx n =
     (case ev of
        Woken \<Rightarrow> (case applyTr n of None \<Rightarrow> (ANil, Some (Panic ''nil apply tracker'')) | Some tr \<Rightarrow> Result idx tr)
      | TimedOut \<Rightarrow> (ANil, Some (ErrOther ''raft: entry not applied within timeout''))
      | NodeStopped \<Rightarrow> (ANil, Some (ErrOther ''raft: node stopped'')))"

section \<open>The engine operations of a node\<close>

definition cmd_of :: "Op \<Rightarrow> string \<Rightarrow> string \<Rightarrow> string \<Rightarrow> int64 \<Rightarrow> Command" where
  "cmd_of op k old v exp = \<lparr>cmdOp = op, cmdKey = k, cmdOld = old, cmdValue = v, cmdExpiresAt = exp\<rparr>"

definition node_Get :: "int64 \<Rightarrow> string \<Rightarrow> ('s, 'd) Node \<Rightarrow> string res \<times> ('s, 'd) Node" where
  "node_Get now k n = (case engGet (engine n) now k (store n) of (r, s) \<Rightarrow> (r, n\<lparr>store := s\<rparr>))"

definition node_Put :: "int64 \<Rightarrow> string \<Rightarrow> string \<Rightarrow> ('s, 'd) Node \<Rightarrow> (unit res \<times> string list) \<times> ('s, 'd) Node" where
  "node_Put now k v = propose now (cmd_of OpPut k '''' v 0)"

definition node_Delete :: "int64 \<Rightarrow> string \<Rightarrow> ('s, 'd) Node \<Rightarrow> (unit res \<times> string list) \<times> ('s, 'd) Node" where
  "node_Delete now k = propose now (cmd_of OpDelete k '''' '''' 0)"

definition node_Clear :: "int64 \<Rightarrow> ('s, 'd) Node \<Rightarrow> (unit res \<times> string list) \<times> ('s, 'd) Node" where
  "node_Clear now = propose now (cmd_of OpClear '''' '''' '''' 0)"

text \<open>The ends of \<open>Incr\<close>, \<open>CAS\<close> and \<open>Expire\<close>; the type assertions panic on any other value.\<close>

definition Incr_result :: "applyVal \<times> kv_error option \<Rightarrow> int64 res" where
  "Incr_result r =
     (case r of
        (_, Some e) \<Rightarrow> Inl e
      | (AInt v, None) \<Rightarrow> Inr v
      | (_, None) \<Rightarrow> Inl (Panic ''interface conversion''))"

definition CAS_result :: "applyVal \<times> kv_error option \<Rightarrow> bool res" where
  "CAS_result r =
     (case r of
        (_, Some e) \<Rightarrow> Inl e
      | (ABool b, None) \<Rightarrow> Inr b
      | (_, None) \<Rightarrow> Inl (Panic ''interface conversion''))"

definition Expire_result :: "applyVal \<times> kv_error option \<Rightarrow> unit res" where
  "Expire_result r = (case snd r of Some e \<Rightarrow> Inl e | None \<Rightarrow> Inr ())"

definition node_Incr_begin where
  "node_Incr_begin now k = proposeWait_begin now (cmd_of OpIncr k '''' '''' 0)"

definition node_CAS_begin where
  "node_CAS_begin now k old new = proposeWait_begin now (cmd_of OpCAS k old new 0)"

definition node_Expire_begin where
  "node_Expire_begin now k exp = proposeWait_begin now (cmd_of OpExpire k '''' '''' exp)"

definition node_Scan where
  "node_Scan now cursor count pat n = engScan (engine n) now cursor count pat (store n)"

definition node_Close :: "('s, 'd) Node \<Rightarrow> unit res \<times> ('s, 'd) Node" where
  "node_Close n =
     (let n1 = Stop n in case engClose (engine n1) (store n1) of (r, s) \<Rightarrow> (r, n1\<lparr>store := s\<rparr>))"

definition Term :: "('s, 'd) Node \<Rightarrow> int" where
  "Term n = nterm n"

definition LogEntry :: "int \<Rightarrow> ('s, 'd) Node \<Rightarrow> Entry option" where
  "LogEntry i n = entryAt n i"

section \<open>The commit rule\<close>

lemma length_filter_sort: "length (filter P (sort xs)) = length (filter P xs)" for xs :: "int list"
  by (simp add: filter_sort)

lemma length_filter_split: "length (filter P xs) = length (filter P (take k xs)) + length (filter P (drop k xs))"
  by (simp flip: length_append filter_append)

text \<open>At least \<open>m\<close> elements reach the \<open>m\<close>-th largest one, and it is the largest value with that property.\<close>

lemma sort_quantile:
  fixes xs :: "int list"
  assumes "0 < m" "m \<le> length xs"
  shows "m \<le> length (filter (\<lambda>x. sort xs ! (length xs - m) \<le> x) xs)"
    and "m \<le> length (filter (\<lambda>x. i \<le> x) xs) \<Longrightarrow> i \<le> sort xs ! (length xs - m)"
proof -
  let ?ys = "sort xs" and ?k = "length xs - m"
  have above: "?ys ! ?k \<le> x" if "x \<in> set (drop ?k ?ys)" for x
    using that assms by (auto simp: in_set_conv_nth intro!: sorted_nth_mono)
  have "filter (\<lambda>x. ?ys ! ?k \<le> x) (drop ?k ?ys) = drop ?k ?ys"
    using above by (simp add: filter_id_conv)
  then have "m \<le> length (filter (\<lambda>x. ?ys ! ?k \<le> x) ?ys)"
    using assms length_filter_split [of "\<lambda>x. ?ys ! ?k \<le> x" ?ys ?k] by simp
  then show "m \<le> length (filter (\<lambda>x. ?ys ! ?k \<le> x) xs)" by (simp add: length_filter_sort)
  show "i \<le> ?ys ! ?k" if h: "m \<le> length (filter (\<lambda>x. i \<le> x) xs)"
  proof (rule ccontr)
    assume less: "\<not> i \<le> ?ys ! ?k"
    have "x < i" if x: "x \<in> set (take (Suc ?k) ?ys)" for x
    proof -
      obtain j where "j < Suc ?k" "j < length ?ys" "x = ?ys ! j" using x by (auto simp: in_set_conv_nth)
      moreover have "?k < length ?ys" using assms by simp
      ultimately show ?thesis using less sorted_nth_mono [of ?ys j ?k] by auto
    qed
    then have "filter (\<lambda>x. i \<le> x) (take (Suc ?k) ?ys) = []" by (fastforce simp: filter_empty_conv)
    then have "length (filter (\<lambda>x. i \<le> x) ?ys) = length (filter (\<lambda>x. i \<le> x) (drop (Suc ?k) ?ys))"
      using length_filter_split [of "\<lambda>x. i \<le> x" ?ys "Suc ?k"] by simp
    also have "\<dots> \<le> length (drop (Suc ?k) ?ys)" by (rule length_filter_le)
    also have "\<dots> < m" using assms by simp
    finally show False using h by (simp add: length_filter_sort)
  qed
qed

lemma majority_bounds: "0 < majority ps" "majority ps \<le> length ps + 1" "length ps + 1 < 2 * majority ps"
  by (simp_all add: majority_def)

lemma maybeCommit_eq:
  fixes n :: "('s, 'd) Node"
  defines "t \<equiv> sort (match_list n) ! (length (match_list n) - majority (peers n))"
  shows "maybeCommit n =
    (if role n \<noteq> RoleLeader then n
     else if commitIndex n < t \<and> (t > 0 \<longrightarrow> (\<exists>e. entryAt n t = Some e \<and> entTerm e = nterm n))
     then (replState n)\<lparr>commitIndex := t\<rparr> else replState n)"
proof -
  have "match_list (replState n) = match_list n" by (simp add: match_list_def)
  then show ?thesis by (auto simp: maybeCommit_def Let_def t_def split: option.splits)
qed

lemma maybeCommit_rule:
  assumes "0 \<le> commitIndex n"
  shows "commitIndex n \<le> commitIndex (maybeCommit n)"
    and "commitIndex (maybeCommit n) \<noteq> commitIndex n \<Longrightarrow> role n = RoleLeader \<and>
      (\<exists>e. entryAt n (commitIndex (maybeCommit n)) = Some e \<and> entTerm e = nterm n) \<and>
      majority (peers n) \<le> length (filter (\<lambda>i. commitIndex (maybeCommit n) \<le> i) (match_list n))"
proof -
  have len: "length (match_list n) = length (peers n) + 1" by (simp add: match_list_def)
  note q = sort_quantile(1) [of "majority (peers n)" "match_list n"]
  show "commitIndex n \<le> commitIndex (maybeCommit n)" by (simp add: maybeCommit_eq replState_def)
  show "commitIndex (maybeCommit n) \<noteq> commitIndex n \<Longrightarrow> role n = RoleLeader \<and>
      (\<exists>e. entryAt n (commitIndex (maybeCommit n)) = Some e \<and> entTerm e = nterm n) \<and>
      majority (peers n) \<le> length (filter (\<lambda>i. commitIndex (maybeCommit n) \<le> i) (match_list n))"
    using assms q majority_bounds [of "peers n"] len
    by (auto simp: maybeCommit_eq split: if_splits)
qed

text \<open>An index of the current term that a majority holds is committed at once.\<close>

lemma maybeCommit_progress:
  assumes "role n = RoleLeader" "majority (peers n) \<le> length (filter (\<lambda>k. i \<le> k) (match_list n))"
    and "\<And>k e. i \<le> k \<Longrightarrow> entryAt n k = Some e \<Longrightarrow> entTerm e = nterm n"
    and "\<And>p. p \<in> set (peers n) \<Longrightarrow> matchIndex (repl_of n) p \<le> lastLogIndex n" "lastIncludedIndex n < i"
  shows "i \<le> commitIndex (maybeCommit n)"
proof -
  let ?t = "sort (match_list n) ! (length (match_list n) - majority (peers n))"
  have len: "length (match_list n) = length (peers n) + 1" by (simp add: match_list_def)
  then have it: "i \<le> ?t" using sort_quantile(2) [OF _ _ assms(2)] majority_bounds [of "peers n"] by simp
  have "?t \<in> set (sort (match_list n))" using len majority_bounds [of "peers n"] by (intro nth_mem) auto
  then have "?t \<in> set (match_list n)" by (simp only: set_sort)
  moreover have "x \<le> lastLogIndex n" if "x \<in> set (match_list n)" for x using that assms(4) by (auto simp: match_list_def)
  ultimately have "?t \<le> lastLogIndex n" by blast
  then obtain e where "entryAt n ?t = Some e" using it assms(5) by (auto simp: entryAt_eq)
  with assms(3) [OF it] assms(1) it show ?thesis by (auto simp: maybeCommit_eq)
qed

section \<open>What is sent\<close>

lemma repl_send_fields:
  assumes "repl_send peer n = (s, n1)"
  shows "nterm n1 = nterm n" "nlog n1 = nlog n" "lastIncludedIndex n1 = lastIncludedIndex n"
    "lastIncludedTerm n1 = lastIncludedTerm n" "commitIndex n1 = commitIndex n" "role n1 = role n" "peers n1 = peers n"
    "nid n1 = nid n" "nextIndex (repl_of n1) = nextIndex (repl_of n)" "matchIndex (repl_of n1) = matchIndex (repl_of n)"
  using assms by (auto simp: repl_send_def Let_def split: if_splits)

text \<open>The entries of a request are a suffix of the leader's log, behind the index it names.\<close>

lemma repl_send_cut:
  assumes "repl_send peer n = (SendEntries req, n1)" "0 \<le> lastIncludedIndex n"
    and "nextIndex (repl_of n) peer \<le> lastLogIndex n + 1"
  shows "cut_from n req" "aqTerm req = nterm n" "aqLeaderID req = nid n" "aqLeaderCommit req = commitIndex n"
    and "aqPrevLogIndex req + int (length (aqEntries req)) = lastLogIndex n"
proof -
  let ?next = "max 1 (nextIndex (repl_of n) peer)"
  have req: "req = \<lparr>aqTerm = nterm n, aqLeaderID = nid n, aqPrevLogIndex = ?next - 1, aqPrevLogTerm = logTermAt n (?next - 1),
        aqEntries = (if ?next \<le> lastLogIndex n then drop (nat (?next - firstIndex n)) (nlog n) else []),
        aqLeaderCommit = commitIndex n\<rparr>" and first: "firstIndex n \<le> ?next"
    using assms(1) by (auto simp: repl_send_def Let_def max_def split: if_splits)
  have next_le: "?next \<le> lastLogIndex n + 1"
    using assms(2,3) by (auto simp: lastLogIndex_def)
  show "aqTerm req = nterm n" "aqLeaderID req = nid n" "aqLeaderCommit req = commitIndex n" by (simp_all add: req)
  show "aqPrevLogIndex req + int (length (aqEntries req)) = lastLogIndex n"
    using first next_le by (auto simp: req firstIndex_def lastLogIndex_def)
  have "entryAt n (?next + int j) = Some (drop (nat (?next - firstIndex n)) (nlog n) ! j)"
    if "j < length (drop (nat (?next - firstIndex n)) (nlog n))" for j
  proof -
    have "nat (?next + int j - lastIncludedIndex n - 1) = nat (?next - firstIndex n) + j"
      using first by (simp add: firstIndex_def)
    moreover have "drop (nat (?next - firstIndex n)) (nlog n) ! j = nlog n ! (nat (?next - firstIndex n) + j)"
      using that by (intro nth_drop) simp
    ultimately show ?thesis using that first by (auto simp: entryAt_eq firstIndex_def lastLogIndex_def)
  qed
  then show "cut_from n req"
    using first next_le by (auto simp: cut_from_def req firstIndex_def)
qed

section \<open>One exchange with a follower\<close>

lemma repl_of_maybeCommit: "repl_of (maybeCommit n) = repl_of n"
  by (simp add: maybeCommit_eq) (simp add: repl_of_def replState_def)

lemma repl_of_update [simp]: "repl_of (n\<lparr>repl := Some st\<rparr>) = st"
  by (simp add: repl_of_def)

lemma HandleAppendEntries_resp:
  "arSuccess (fst (HandleAppendEntries req n)) \<Longrightarrow> arTerm (fst (HandleAppendEntries req n)) = aqTerm req"
  using accept_entries_eq [of req n]
  by (auto simp: HandleAppendEntries_def Let_def split: if_splits prod.splits sum.splits)

lemma repl_reply_success:
  fixes req :: AppendEntriesRequest
  assumes "arTerm resp = nterm n" "arSuccess resp"
  defines "m \<equiv> aqPrevLogIndex req + int (length (aqEntries req))"
  shows "fst (repl_reply peer req (Inr resp) n) = Some True"
    and "matchIndex (repl_of (snd (repl_reply peer req (Inr resp) n))) peer = max (matchIndex (repl_of n) peer) m"
    and "nextIndex (repl_of (snd (repl_reply peer req (Inr resp) n))) peer = max (nextIndex (repl_of n) peer) (m + 1)"
  using assms by (simp_all add: repl_reply_def Let_def repl_of_maybeCommit)

text \<open>A leader's request, accepted by a follower, leaves the follower's log equal to the
  leader's up to the leader's last index, which is what the leader then records for it.\<close>

lemma exchange_agrees:
  assumes "repl_send peer L = (SendEntries req, L1)" "0 \<le> lastIncludedIndex L" "0 \<le> lastIncludedIndex F"
    and "nextIndex (repl_of L) peer \<le> lastLogIndex L + 1" "matchIndex (repl_of L) peer \<le> lastLogIndex L" "log_match F L"
    and "HandleAppendEntries req F = (resp, F')" "arSuccess resp"
  shows "agree_upto (lastLogIndex L) F' L" "log_match F' L" "lastLogIndex F' = max (lastIncludedIndex F) (lastLogIndex L)"
    and "fst (repl_reply peer req (Inr resp) L1) = Some True"
    and "matchIndex (repl_of (snd (repl_reply peer req (Inr resp) L1))) peer = lastLogIndex L"
proof -
  note cut = repl_send_cut [OF assms(1,2,4)]
  have ok: "arSuccess (fst (HandleAppendEntries req F))" and F': "F' = snd (HandleAppendEntries req F)"
    and resp: "arTerm resp = aqTerm req" using assms(7,8) HandleAppendEntries_resp [of req F] by simp_all
  note agree = append_agree [OF ok assms(3,2,6) cut(1)]
  show "agree_upto (lastLogIndex L) F' L" "log_match F' L" using agree cut(5) by (simp_all add: F')
  show "lastLogIndex F' = max (lastIncludedIndex F) (lastLogIndex L)"
    using append_success_log(1) [OF ok assms(3)] cut(1,5) by (simp add: F' cut_from_def)
  have "arTerm resp = nterm L1" using resp cut(2) repl_send_fields(1) [OF assms(1)] by simp
  note r = repl_reply_success [OF this assms(8), of peer req]
  show "fst (repl_reply peer req (Inr resp) L1) = Some True" by (rule r(1))
  show "matchIndex (repl_of (snd (repl_reply peer req (Inr resp) L1))) peer = lastLogIndex L"
    using r(2) cut(5) repl_send_fields(10) [OF assms(1)] assms(5) by simp
qed

end
