(* ===== verification/RaftElection.thy ===== *)
theory RaftElection
  imports RaftLeader
begin

text \<open>
  pkg/raft/election.go: the timer loop, elections and heartbeats.  \<open>startElection\<close> is its
  critical sections, \<open>election_begin\<close>, \<open>persist\<close>, one \<open>tally\<close> per answer and \<open>election_finish\<close>,
  and their undisturbed composition; \<open>sendHeartbeats\<close> replicates to the peers one after the
  other, one of the schedules of the goroutines the code starts.  Shown here: the timeout lies
  in its interval, a node that comes out of an election as leader was granted a majority and
  has its new term and its own vote on disk, and any two majorities share a node.
\<close>

section \<open>Timers\<close>

definition electionTimeoutMin :: int64 where
  "electionTimeoutMin = 500 * 1000000"

definition electionTimeoutMax :: int64 where
  "electionTimeoutMax = 1000 * 1000000"

definition heartbeatInterval :: int64 where
  "heartbeatInterval = 100 * 1000000"

text \<open>\<open>rnd\<close> is \<open>rand.IntN\<close>: its argument is the spread in milliseconds.\<close>

definition electionTimeout :: "(nat \<Rightarrow> nat) \<Rightarrow> int64" where
  "electionTimeout rnd =
     (let spread = unat ((electionTimeoutMax - electionTimeoutMin) div 1000000)
      in electionTimeoutMin + of_nat (rnd spread) * 1000000)"

section \<open>Elections\<close>

definition election_begin :: "('s, 'd) Node \<Rightarrow> VoteRequest \<times> ('s, 'd) Node" where
  "election_begin n =
     (let n1 = becomeCandidate n
      in (\<lparr>vqTerm = nterm n1, vqCandidateID = nid n1, vqLastLogIndex = lastLogIndex n1,
           vqLastLogTerm = lastLogTerm n1\<rparr>, n1))"

text \<open>The loop over the answers; \<open>None\<close> is the return on a higher term.\<close>

fun tally :: "nat \<Rightarrow> VoteResponse list \<Rightarrow> nat \<Rightarrow> ('s, 'd) Node \<Rightarrow> nat option \<times> ('s, 'd) Node" where
  "tally quorum [] votes n = (Some votes, n)"
| "tally quorum (resp # rs) votes n =
     (if vrTerm resp > nterm n then (None, snd (persist (becomeFollower (vrTerm resp) None n)))
      else
        let votes' = (if vrVoteGranted resp then votes + 1 else votes)
        in if votes' \<ge> quorum then (Some votes', n) else tally quorum rs votes' n)"

definition election_finish :: "nat \<Rightarrow> nat \<Rightarrow> VoteRequest \<Rightarrow> ('s, 'd) Node \<Rightarrow> ('s, 'd) Node" where
  "election_finish votes quorum req n =
     (if votes \<ge> quorum \<and> role n = RoleCandidate \<and> nterm n = vqTerm req then becomeLeader n
      else becomeFollower (nterm n) None n)"

text \<open>\<open>resps\<close> are the answers in the order they arrive; a failed call gives none.\<close>

definition startElection :: "VoteResponse list \<Rightarrow> ('s, 'd) Node \<Rightarrow> ('s, 'd) Node" where
  "startElection resps n =
     (case election_begin n of
        (req, n1) \<Rightarrow>
          let quorum = majority (peers n1)
          in case persist n1 of
               (Inl e, n2) \<Rightarrow> n2
             | (Inr _, n2) \<Rightarrow>
                 (case tally quorum resps 1 n2 of
                    (None, n3) \<Rightarrow> n3
                  | (Some votes, n3) \<Rightarrow> election_finish votes quorum req n3))"

section \<open>Heartbeats\<close>

fun beat_peers ::
    "(string \<Rightarrow> AppendEntriesRequest \<Rightarrow> 'w \<Rightarrow> AppendEntriesResponse res \<times> 'w) \<Rightarrow>
     (string \<Rightarrow> InstallSnapshotRequest \<Rightarrow> 'w \<Rightarrow> InstallSnapshotResponse res \<times> 'w) \<Rightarrow> string list \<Rightarrow> nat \<Rightarrow> 'w \<Rightarrow>
     ('s, 'd) Node \<Rightarrow> nat \<times> ('s, 'd) Node \<times> 'w" where
  "beat_peers call callSnap [] acks w n = (acks, n, w)"
| "beat_peers call callSnap (p # ps) acks w n =
     (case replicateToPeer (call p) (callSnap p) p w n of
        (b, n1, w1) \<Rightarrow> beat_peers call callSnap ps (if b then acks + 1 else acks) w1 n1)"

definition sendHeartbeats ::
    "(string \<Rightarrow> AppendEntriesRequest \<Rightarrow> 'w \<Rightarrow> AppendEntriesResponse res \<times> 'w) \<Rightarrow>
     (string \<Rightarrow> InstallSnapshotRequest \<Rightarrow> 'w \<Rightarrow> InstallSnapshotResponse res \<times> 'w) \<Rightarrow> int64 \<Rightarrow> 'w \<Rightarrow>
     ('s, 'd) Node \<Rightarrow> ('s, 'd) Node \<times> 'w" where
  "sendHeartbeats call callSnap now w n =
     (if role n \<noteq> RoleLeader then (n, w)
      else
        case beat_peers call callSnap (peers n) 1 w n of
          (acks, n1, w1) \<Rightarrow>
            ((if role n1 = RoleLeader \<and> acks \<ge> majority (peers n) then n1\<lparr>lastQuorumAck := now\<rparr> else n1), w1))"

definition step_down :: "int64 \<Rightarrow> ('s, 'd) Node \<Rightarrow> ('s, 'd) Node" where
  "step_down now n =
     (if role n = RoleLeader \<and> sint (now - lastQuorumAck n) > sint electionTimeoutMin
      then becomeFollower (nterm n) None n else n)"

section \<open>The loop\<close>

text \<open>What the \<open>select\<close> can receive; an election comes with the answers it will get, a
  heartbeat with the clock when its round ends and when the leader checks its quorum.  \<open>None\<close>
  is the return from the loop.\<close>

datatype loop_event = CtxDone | StopClosed | ResetSignal | ElectionFired "VoteResponse list" | HeartbeatFired int64 int64

definition Loop_step ::
    "(string \<Rightarrow> AppendEntriesRequest \<Rightarrow> 'w \<Rightarrow> AppendEntriesResponse res \<times> 'w) \<Rightarrow>
     (string \<Rightarrow> InstallSnapshotRequest \<Rightarrow> 'w \<Rightarrow> InstallSnapshotResponse res \<times> 'w) \<Rightarrow> loop_event \<Rightarrow>
     'w \<times> ('s, 'd) Node \<Rightarrow> ('w \<times> ('s, 'd) Node) option" where
  "Loop_step call callSnap ev wn =
     (case wn of
        (w, n) \<Rightarrow>
          (case ev of
             CtxDone \<Rightarrow> None
           | StopClosed \<Rightarrow> None
           | ResetSignal \<Rightarrow> Some (w, n\<lparr>resetElection := False\<rparr>)
           | ElectionFired resps \<Rightarrow> Some (w, if role n = RoleLeader then n else startElection resps n)
           | HeartbeatFired now now' \<Rightarrow>
               Some (if role n \<noteq> RoleLeader then (w, n)
                     else (case sendHeartbeats call callSnap now w n of (n1, w1) \<Rightarrow> (w1, step_down now' n1)))))"

fun Loop ::
    "(string \<Rightarrow> AppendEntriesRequest \<Rightarrow> 'w \<Rightarrow> AppendEntriesResponse res \<times> 'w) \<Rightarrow>
     (string \<Rightarrow> InstallSnapshotRequest \<Rightarrow> 'w \<Rightarrow> InstallSnapshotResponse res \<times> 'w) \<Rightarrow> loop_event list \<Rightarrow>
     'w \<times> ('s, 'd) Node \<Rightarrow> 'w \<times> ('s, 'd) Node" where
  "Loop call callSnap [] wn = wn"
| "Loop call callSnap (ev # evs) wn =
     (case Loop_step call callSnap ev wn of None \<Rightarrow> wn | Some wn' \<Rightarrow> Loop call callSnap evs wn')"

section \<open>What an election gives\<close>

text \<open>The timeout is at least the minimum and below the maximum, whatever the generator returns
  in its range.\<close>

lemma electionTimeout_range:
  assumes "rnd 500 < 500"
  shows "sint electionTimeoutMin \<le> sint (electionTimeout rnd)" "sint (electionTimeout rnd) < sint electionTimeoutMax"
proof -
  have "electionTimeout rnd = word_of_int (500000000 + int (rnd 500) * 1000000)"
    by (simp add: electionTimeout_def electionTimeoutMin_def electionTimeoutMax_def Let_def)
  then have "sint (electionTimeout rnd) = 500000000 + int (rnd 500) * 1000000"
    using assms by (simp only: sint_sbintrunc') (simp add: signed_take_bit_int_eq_self)
  with assms show "sint electionTimeoutMin \<le> sint (electionTimeout rnd)" "sint (electionTimeout rnd) < sint electionTimeoutMax"
    by (simp_all add: electionTimeoutMin_def electionTimeoutMax_def)
qed

definition granted :: "VoteResponse list \<Rightarrow> nat" where
  "granted resps = length (filter vrVoteGranted resps)"

lemma tally_votes:
  "tally quorum resps votes n = (Some v, n') \<Longrightarrow> n' = n \<and> v \<le> votes + granted resps"
proof (induction resps arbitrary: votes)
  case (Cons r rs)
  then show ?case
    by (fastforce simp: granted_def Let_def split: if_splits)
qed (simp add: granted_def)

lemma tally_none:
  "tally quorum resps votes n = (None, n') \<Longrightarrow> role n' = RoleFollower \<and> nterm n < nterm n'"
  by (induction resps arbitrary: votes) (auto simp: Let_def becomeFollower_def split: if_splits)

lemma startElection_leader:
  assumes "role (startElection resps n) = RoleLeader"
  obtains n2 where "persist (becomeCandidate n) = (Inr (), n2)" "startElection resps n = becomeLeader n2"
    "majority (peers n) \<le> 1 + granted resps"
proof -
  obtain r n2 where p: "persist (becomeCandidate n) = (r, n2)" by fastforce
  have n2: "n2 = snd (persist (becomeCandidate n))" using p by simp
  have keep: "role n2 = RoleCandidate" "nterm n2 = nterm n + 1" "peers (becomeCandidate n) = peers n"
    by (simp_all add: n2 becomeCandidate_def)
  have e: "startElection resps n = (case r of Inl e \<Rightarrow> n2 | Inr _ \<Rightarrow>
      (case tally (majority (peers n)) resps 1 n2 of (None, n3) \<Rightarrow> n3
       | (Some votes, n3) \<Rightarrow> election_finish votes (majority (peers n)) (fst (election_begin n)) n3))"
    unfolding startElection_def election_begin_def Let_def case_prod_conv keep(3) p fst_conv by (rule refl)
  show thesis
  proof (cases r)
    case (Inl x)
    then show thesis using assms keep e by simp
  next
    case (Inr u)
    obtain o' n3 where t: "tally (majority (peers n)) resps 1 n2 = (o', n3)" by fastforce
    show thesis
    proof (cases o')
      case None
      then show thesis using assms e Inr t tally_none by fastforce
    next
      case (Some v)
      then have v: "n3 = n2" "v \<le> 1 + granted resps" using tally_votes t by blast+
      then have s: "startElection resps n = election_finish v (majority (peers n)) (fst (election_begin n)) n2"
        using e Inr t Some by simp
      then have "majority (peers n) \<le> v \<and> startElection resps n = becomeLeader n2"
        using assms by (auto simp: election_finish_def becomeFollower_def split: if_splits)
      then show thesis using that [of n2] p Inr v by simp
    qed
  qed
qed

context raft_store
begin

text \<open>The new term and the node's own vote are on disk before it can win.\<close>

lemma elected_durable:
  assumes "raftStore n = Some rs" "good (rdisk n)" "role (startElection resps n) = RoleLeader"
  defines "n' \<equiv> startElection resps n"
  assumes "ok (durable_part n')"
  shows "rsLoad rs (rdisk n') = Inr (durable_part n')" "nterm n' = nterm n + 1" "votedFor n' = Some (nid n)"
proof -
  obtain n2 where n2: "persist (becomeCandidate n) = (Inr (), n2)" "n' = becomeLeader n2"
    using startElection_leader [OF assms(3)] unfolding n'_def by metis
  have snd: "n2 = snd (persist (becomeCandidate n))" using n2(1) by simp
  have dp: "durable_part n' = durable_part n2" by (simp add: n2(2) becomeLeader_def durable_part_def)
  have "clean (becomeCandidate n)" using assms(1,2) by (intro clean_dirty) (simp_all add: becomeCandidate_def)
  moreover have "ok (durable_part (becomeCandidate n))"
    using assms(5) dp by (simp add: snd)
  ultimately show "rsLoad rs (rdisk n') = Inr (durable_part n')"
    using persist_durable(1) [OF _ _ n2(1)] dp by (simp add: n2(2) becomeLeader_def)
  show "nterm n' = nterm n + 1" "votedFor n' = Some (nid n)"
    by (simp_all add: n2(2) becomeLeader_def snd) (simp_all add: becomeCandidate_def)
qed

end

section \<open>Majorities\<close>

text \<open>What makes a vote decisive: any two quorums have a member in common.\<close>

locale quorum_system =
  fixes quorum :: "'p set \<Rightarrow> bool"
  assumes quorum_meet: "quorum Q \<Longrightarrow> quorum R \<Longrightarrow> Q \<inter> R \<noteq> {}"
begin

text \<open>If nobody votes for two candidates, at most one candidate has the votes of a quorum.\<close>

lemma quorum_winner_unique:
  assumes "quorum Q" "\<forall>v \<in> Q. ballot v a" "quorum R" "\<forall>v \<in> R. ballot v b"
    and "\<And>v. v \<in> Q \<Longrightarrow> v \<in> R \<Longrightarrow> ballot v a \<Longrightarrow> ballot v b \<Longrightarrow> a = b"
  shows "a = b"
proof -
  obtain v where "v \<in> Q" "v \<in> R" using quorum_meet [OF assms(1,3)] by blast
  with assms show ?thesis by blast
qed

end

text \<open>The voters of a cluster of a node and its peers, as the code counts them.\<close>

definition is_quorum :: "'p list \<Rightarrow> 'p set \<Rightarrow> bool" where
  "is_quorum members Q \<longleftrightarrow> members \<noteq> [] \<and> Q \<subseteq> set members \<and> majority (tl members) \<le> card Q"

interpretation maj: quorum_system "is_quorum members" for members
proof
  fix Q R
  assume q: "is_quorum members Q" "is_quorum members R"
  then have fin: "finite Q" "finite R" "card (set members) \<le> length (tl members) + 1"
    by (auto simp: is_quorum_def finite_subset card_length intro: order_trans [OF card_length])
  show "Q \<inter> R \<noteq> {}"
  proof
    assume "Q \<inter> R = {}"
    then have "card (Q \<union> R) = card Q + card R" using fin by (simp add: card_Un_disjoint)
    moreover have "card (Q \<union> R) \<le> card (set members)" using q by (intro card_mono) (auto simp: is_quorum_def)
    ultimately show False using q fin(3) majority_bounds(3) [of "tl members"] by (simp add: is_quorum_def)
  qed
qed

end
