(* ===== verification/NodeEngine.thy ===== *)
theory NodeEngine
  imports ApiFacts RaftElection
begin

text \<open>
  The raft node as the engine behind the HTTP server (cmd/server hands it to \<open>api.NewServer\<close>
  in cluster mode).  \<open>wait\<close> is what happens between a proposal and the moment its caller stops
  waiting: how it ends and the node at that time.  Shown here: a follower answers every write
  with a redirect to the leader it knows, or 503 when it knows none, and leaves its log alone;
  and the result recorded for an entry has the type the waiting operation asserts.
\<close>

section \<open>The dictionary\<close>

definition wait_for ::
    "(int \<Rightarrow> string list \<Rightarrow> ('s, 'd) Node \<Rightarrow> wait_event \<times> ('s, 'd) Node) \<Rightarrow> (applyVal \<times> kv_error option \<Rightarrow> 'a res) \<Rightarrow>
     ((applyVal \<times> kv_error option) + (int \<times> string list)) \<times> ('s, 'd) Node \<Rightarrow> 'a res \<times> ('s, 'd) Node" where
  "wait_for wait finish b =
     (case b of
        (Inl r, n) \<Rightarrow> (finish r, n)
      | (Inr (idx, ps), n) \<Rightarrow> (case wait idx ps n of (ev, n') \<Rightarrow> (finish (proposeWait_end ev idx n'), n')))"

definition drop_peers :: "(unit res \<times> string list) \<times> ('s, 'd) Node \<Rightarrow> unit res \<times> ('s, 'd) Node" where
  "drop_peers b = (case b of ((r, _), n) \<Rightarrow> (r, n))"

definition node_engine ::
    "(int \<Rightarrow> string list \<Rightarrow> ('s, 'd) Node \<Rightarrow> wait_event \<times> ('s, 'd) Node) \<Rightarrow> ('s, 'd) Node EngineOps" where
  "node_engine wait =
     \<lparr>engGet = node_Get, engPut = (\<lambda>now k v n. drop_peers (node_Put now k v n)),
      engDelete = (\<lambda>now k n. drop_peers (node_Delete now k n)), engClear = (\<lambda>now n. drop_peers (node_Clear now n)),
      engIncr = (\<lambda>now k n. wait_for wait Incr_result (node_Incr_begin now k n)),
      engCAS = (\<lambda>now k old new n. wait_for wait CAS_result (node_CAS_begin now k old new n)),
      engExpire = (\<lambda>now k d n. wait_for wait Expire_result (node_Expire_begin now k d n)),
      engScan = node_Scan, engClose = node_Close\<rparr>"

section \<open>Types of results\<close>

text \<open>The dynamic type of the value \<open>applyCmd\<close> returns for an operation.\<close>

fun fits :: "Op \<Rightarrow> applyVal \<Rightarrow> bool" where
  "fits OpIncr (AInt _) = True"
| "fits OpCAS (ABool _) = True"
| "fits OpPut ANil = True"
| "fits OpDelete ANil = True"
| "fits OpClear ANil = True"
| "fits OpExpire ANil = True"
| "fits OpUnknown ANil = True"
| "fits _ _ = False"

lemma run_cmd_fits: "fits (cmdOp cmd) (fst (fst (run_cmd eng now cmd s)))"
  by (cases "cmdOp cmd") (simp_all add: run_cmd_def case_prod_unfold)

lemma run_cmd_results:
  "cmdOp cmd = OpIncr \<Longrightarrow> Incr_result (fst (run_cmd eng now cmd s)) = fst (engIncr eng now (cmdKey cmd) s)"
  "cmdOp cmd = OpCAS \<Longrightarrow> CAS_result (fst (run_cmd eng now cmd s)) = fst (engCAS eng now (cmdKey cmd) (cmdOld cmd) (cmdValue cmd) s)"
  "cmdOp cmd = OpExpire \<Longrightarrow>
     Expire_result (fst (run_cmd eng now cmd s)) = fst (engExpire eng now (cmdKey cmd) (cmdExpiresAt cmd) s)"
  by (auto simp: run_cmd_def Incr_result_def CAS_result_def Expire_result_def err_of_def case_prod_unfold split: sum.splits)

text \<open>The tracker of a node holds a value of the right type for every entry it has a result for.\<close>

definition tracker_typed :: "('s, 'd) Node \<Rightarrow> bool" where
  "tracker_typed n \<longleftrightarrow>
     (\<forall>t i r e. applyTr n = Some t \<longrightarrow> results t i = Some r \<longrightarrow> entryAt n i = Some e \<longrightarrow> fits (cmdOp (entCmd e)) (resVal r))"

lemma apply_iter_typed:
  assumes "apply_ok n" "tracker_typed n"
  shows "tracker_typed (apply_iter now n) \<and> apply_ok (apply_iter now n) \<and> entryAt (apply_iter now n) = entryAt n"
proof (cases "stopped n \<or> commitIndex n \<le> lastApplied n")
  case True
  then have "apply_iter now n = n" by (auto simp: apply_iter_def apply_pick_def)
  then show ?thesis using assms by simp
next
  case False
  then have run: "\<not> stopped n" "lastApplied n < commitIndex n" by auto
  let ?i = "lastApplied n + 1" and ?n' = "apply_iter now n"
  obtain e where e: "entryAt n ?i = Some e" using assms(1) run(2) by (auto simp: apply_ok_def entryAt_eq)
  obtain v err s where c: "run_cmd (engine n) now (entCmd e) (store n) = ((v, err), s)" by (metis surj_pair)
  have n': "?n' = note_applied ?i \<lparr>resVal = v, resErr = err\<rparr> (n\<lparr>store := s, lastApplied := ?i\<rparr>)"
    using run e c by (simp add: apply_iter_def apply_pick_def apply_run_def applyCmd_def)
  have same: "entryAt ?n' = entryAt n"
    by (intro entryAt_cong) (simp_all add: n' note_applied_def)
  have "fits (cmdOp (entCmd e)) v" using run_cmd_fits [of "entCmd e" "engine n" now "store n"] c by simp
  then have "tracker_typed ?n'"
    using assms(2) e unfolding tracker_typed_def same by (auto simp: n' note_applied_def tr_applied_def split: if_splits)
  moreover have "apply_ok ?n'" using apply_iter_step(3) [OF assms(1) run] .
  ultimately show ?thesis using same by simp
qed

lemma applyLoop_typed:
  assumes "apply_ok n" "tracker_typed n"
  shows "tracker_typed (applyLoop ts n)" "entryAt (applyLoop ts n) = entryAt n"
proof -
  have "apply_ok (fold apply_iter ts n) \<and> tracker_typed (fold apply_iter ts n) \<and> entryAt (fold apply_iter ts n) = entryAt n"
    using assms by (induction ts arbitrary: n) (simp_all add: apply_iter_typed)
  then show "tracker_typed (applyLoop ts n)" "entryAt (applyLoop ts n) = entryAt n" by (simp_all add: applyLoop_def)
qed

lemma typed_result:
  assumes "tracker_typed n" "applyTr n = Some t" "entryAt n i = Some e" "results t i \<noteq> None" "Result i t = (v, None)"
  shows "fits (cmdOp (entCmd e)) v"
  using assms by (auto simp: tracker_typed_def Result_def)

lemma fits_assert:
  "fits OpIncr v \<Longrightarrow> \<exists>x. Incr_result (v, None) = Inr x" "fits OpCAS v \<Longrightarrow> \<exists>b. CAS_result (v, None) = Inr b"
  by (cases v; simp add: Incr_result_def CAS_result_def)+

section \<open>A follower\<close>

text \<open>The writes a client can send, with inputs the handlers accept.\<close>

definition write_request :: "string \<Rightarrow> http_req \<Rightarrow> bool" where
  "write_request k r \<longleftrightarrow> keyPattern k \<and>
     (rqMethod r = ''PUT'' \<and> rqPath r = [''kv'', k] \<and> (\<exists>b. rqBody r = Inr b \<and> length b \<le> maxBodyBytes) \<or>
      rqMethod r = ''DELETE'' \<and> rqPath r = [''kv'', k] \<or>
      rqMethod r = ''PUT'' \<and> rqPath r = [''kv'', k, ''expire''] \<and>
        (\<exists>ttl. rqQuery r ''ttl'' \<noteq> '''' \<and> ParseInt (rqQuery r ''ttl'') = Some ttl \<and> 0 < sint ttl \<and> sint ttl \<le> sint maxTTL) \<or>
      rqMethod r = ''POST'' \<and> rqPath r = [''kv'', k, ''incr''] \<or>
      rqMethod r = ''PUT'' \<and> rqPath r = [''kv'', k, ''cas''] \<and>
        (\<exists>b c. rqBody r = Inr b \<and> length b \<le> maxBodyBytes \<and> unmarshal_cas b = Some c))"

definition refuses :: "'s EngineOps \<Rightarrow> string \<Rightarrow> 's \<Rightarrow> bool" where
  "refuses eng addr st \<longleftrightarrow>
     (\<forall>now k v. engPut eng now k v st = (Inl (NotLeaderError addr), st)) \<and>
     (\<forall>now k. engDelete eng now k st = (Inl (NotLeaderError addr), st)) \<and>
     (\<forall>now k. engIncr eng now k st = (Inl (NotLeaderError addr), st)) \<and>
     (\<forall>now k u v. engCAS eng now k u v st = (Inl (NotLeaderError addr), st)) \<and>
     (\<forall>now k d. engExpire eng now k d st = (Inl (NotLeaderError addr), st))"

lemma follower_refuses:
  assumes "role n \<noteq> RoleLeader"
  shows "refuses (node_engine wait) (Leader n) n"
  using assms
  by (simp add: refuses_def node_engine_def node_Put_def node_Delete_def propose_def drop_peers_def node_Incr_begin_def
      node_CAS_begin_def node_Expire_begin_def proposeWait_begin_def wait_for_def Incr_result_def CAS_result_def Expire_result_def)

text \<open>The answer of a node that is not the leader.\<close>

definition sent_away :: "string \<Rightarrow> http_req \<Rightarrow> 's exchange \<Rightarrow> bool" where
  "sent_away addr r x \<longleftrightarrow>
     (if addr = '''' then xStatus x = 503
      else xStatus x = 307 \<and> fmlookup (xHeader x) ''Location'' = Some (addr @ rqURI r))"

lemma write_failed_sent_away:
  "xStatus x = 0 \<Longrightarrow> rqURI r' = rqURI r \<Longrightarrow> sent_away addr r (write_failed r' (NotLeaderError addr) x)"
  by (simp add: sent_away_def write_failed_def handleWriteError_def)
    (simp add: http_Redirect_def set_header_def)

lemma mux_write:
  fixes sv :: "'s Server"
  assumes "write_request k r" "engGet (svEngine sv) (ckNow ck) k (svStore sv) = (g, st1)" "is_panic g = None"
    and "refuses (svEngine sv) addr (svStore sv)" "refuses (svEngine sv) addr st1"
  shows "\<exists>x r'. mux ck r (entered sv) = write_failed r' (NotLeaderError addr) x \<and> rqURI r' = rqURI r \<and> xStatus x = 0 \<and>
    xPanic x = None \<and> svStore (xServer x) \<in> {svStore sv, st1}"
proof -
  define r' where "r' = r\<lparr>rqKey := k\<rparr>"
  define y where "y = (entered sv)\<lparr>xServer := sv\<lparr>svStore := st1\<rparr>\<rparr>"
  let ?e = "NotLeaderError addr" and ?S = "{svStore sv, st1}"
  define good where "good h \<longleftrightarrow> (\<exists>x. h = write_failed r' ?e x \<and> xStatus x = 0 \<and> xPanic x = None \<and> svStore (xServer x) \<in> ?S)" for h
  have key: "k \<noteq> ''''" "keyPattern k" using assms(1) by (auto simp: write_request_def keyPattern_def)
  have r': "rqKey r' = k" "rqBody r' = rqBody r" "rqQuery r' = rqQuery r" "rqURI r' = rqURI r" by (simp_all add: r'_def)
  have got: "call_engine (engGet (svEngine sv) (ckNow ck) k) c (entered sv) = c g y" for c
    using call_engine_entered [where f = "engGet (svEngine sv) (ckNow ck) k", OF assms(2,3)] by (simp add: y_def)
  have away: "good (call_engine f c x)"
    if "f (svStore (xServer x)) = (Inl ?e, svStore (xServer x))" "\<And>z. c (Inl ?e) z = write_failed r' ?e z"
      "xStatus x = 0" "xPanic x = None" "svStore (xServer x) \<in> ?S"
    for f :: "'s \<Rightarrow> 'a res \<times> 's" and c and x :: "'s exchange"
    using that call_engine_eq [of f x, OF that(1), of c] by (auto simp: is_panic_def good_def)
  have st: "svStore (xServer y) = st1" "svEngine (xServer y) = svEngine sv" "xStatus y = 0" "xPanic y = None" by (simp_all add: y_def)
  note keys = mux_def routes_of_def key serve_route_def validateKey_def limitBody_def r'_def [symmetric] r'
  from assms(1) consider
      b where "rqMethod r = ''PUT''" "rqPath r = [''kv'', k]" "rqBody r = Inr b" "length b \<le> maxBodyBytes"
    | "rqMethod r = ''DELETE''" "rqPath r = [''kv'', k]"
    | ttl where "rqMethod r = ''PUT''" "rqPath r = [''kv'', k, ''expire'']" "rqQuery r ''ttl'' \<noteq> ''''"
        "ParseInt (rqQuery r ''ttl'') = Some ttl" "0 < sint ttl" "sint ttl \<le> sint maxTTL"
    | "rqMethod r = ''POST''" "rqPath r = [''kv'', k, ''incr'']"
    | b c where "rqMethod r = ''PUT''" "rqPath r = [''kv'', k, ''cas'']" "rqBody r = Inr b" "length b \<le> maxBodyBytes" "unmarshal_cas b = Some c"
    unfolding write_request_def by blast
  then have "good (mux ck r (entered sv))"
  proof cases
    case 1
    then have "mux ck r (entered sv) = handlePut (ckNow ck) r' (entered sv)" by (simp add: keys)
    then show ?thesis using 1 assms(5) st
      by (simp add: handlePut_def r' got Let_def) (auto intro!: away simp: refuses_def split: sum.splits)
  next
    case 2
    then have "mux ck r (entered sv) = handleDelete (ckNow ck) r' (entered sv)" by (simp add: keys)
    then show ?thesis using 2 assms(5) st
      by (simp add: handleDelete_def r' got Let_def) (auto intro!: away simp: refuses_def split: sum.splits)
  next
    case 3
    then have "mux ck r (entered sv) = handleExpire (ckNow ck) r' (entered sv)" by (simp add: keys)
    then show ?thesis using 3 assms(4)
      by (simp add: handleExpire_def r' Let_def) (auto intro!: away simp: refuses_def)
  next
    case 4
    then have "mux ck r (entered sv) = handleIncr (ckNow ck) r' (entered sv)" by (simp add: keys)
    then show ?thesis using 4 assms(4)
      by (simp add: handleIncr_def r' Let_def) (auto intro!: away simp: refuses_def)
  next
    case 5
    then have "mux ck r (entered sv) = handleCAS (ckNow ck) r' (entered sv)" by (simp add: keys)
    then show ?thesis using 5 assms(4)
      by (simp add: handleCAS_def r' Let_def) (auto intro!: away simp: refuses_def)
  qed
  with r'(4) show ?thesis unfolding good_def by blast
qed

lemma serve_sent_away:
  fixes sv :: "'s Server"
  assumes "write_request k r" "engGet (svEngine sv) (ckNow ck) k (svStore sv) = (g, st1)" "is_panic g = None"
    and "refuses (svEngine sv) addr (svStore sv)" "refuses (svEngine sv) addr st1"
  shows "sent_away addr r (serve ck r sv) \<and> svStore (xServer (serve ck r sv)) \<in> {svStore sv, st1}"
proof -
  have m: "rqMethod r \<noteq> ''OPTIONS''" using assms(1) by (auto simp: write_request_def)
  obtain x r' where x: "mux ck r (entered sv) = write_failed r' (NotLeaderError addr) x" "rqURI r' = rqURI r" "xStatus x = 0"
    "xPanic x = None" "svStore (xServer x) \<in> {svStore sv, st1}" using mux_write [OF assms] by blast
  have "sent_away addr r (mux ck r (entered sv))" using write_failed_sent_away [OF x(3,2)] x(1) by simp
  moreover have "xPanic (mux ck r (entered sv)) = None" "svStore (xServer (mux ck r (entered sv))) \<in> {svStore sv, st1}"
    using x by simp_all
  ultimately show ?thesis using serve_fields [OF m, of ck sv] by (simp add: sent_away_def)
qed

lemma follower_sends_away:
  fixes n :: "('s, 'd) Node"
  assumes "write_request k r" "role n \<noteq> RoleLeader" "is_panic (fst (engGet (engine n) (ckNow ck) k (store n))) = None"
    and "svEngine sv = node_engine wait" "svStore sv = n"
  shows "sent_away (Leader n) r (serve ck r sv) \<and> nlog (svStore (xServer (serve ck r sv))) = nlog n"
proof -
  obtain g s where g: "engGet (engine n) (ckNow ck) k (store n) = (g, s)" by fastforce
  have get: "engGet (svEngine sv) (ckNow ck) k (svStore sv) = (g, n\<lparr>store := s\<rparr>)"
    by (simp add: assms(4,5) node_engine_def node_Get_def g)
  have "Leader (n\<lparr>store := s\<rparr>) = Leader n" by (simp add: Leader_def)
  then have "refuses (svEngine sv) (Leader n) (svStore sv)" "refuses (svEngine sv) (Leader n) (n\<lparr>store := s\<rparr>)"
    using follower_refuses [of n wait] follower_refuses [of "n\<lparr>store := s\<rparr>" wait] assms(2,4,5) by simp_all
  from serve_sent_away [OF assms(1) get _ this] assms(3,5) g show ?thesis by auto
qed

end
