(* ===== verification/Transport.thy ===== *)
theory Transport
  imports RaftElection
begin

text \<open>
  pkg/raft/transport.go and pkg/raft/transport_mem.go: the always-benign fake and the in-memory
  transport that hands a request to the handlers of the node registered under the peer's id.
  Shown here: replication over the in-memory transport, undisturbed, leaves the follower with
  the leader's log whenever it reports success, and does report success after finitely many
  heartbeats, whatever the follower's log was.
\<close>

section \<open>Transports\<close>

definition Fake_RequestVote :: "string \<Rightarrow> VoteRequest \<Rightarrow> VoteResponse res" where
  "Fake_RequestVote peer req = Inr \<lparr>vrTerm = vqTerm req, vrVoteGranted = True\<rparr>"

definition Fake_AppendEntries :: "string \<Rightarrow> AppendEntriesRequest \<Rightarrow> AppendEntriesResponse res" where
  "Fake_AppendEntries peer req = Inr \<lparr>arTerm = aqTerm req, arSuccess = True\<rparr>"

definition Fake_InstallSnapshot :: "string \<Rightarrow> InstallSnapshotRequest \<Rightarrow> InstallSnapshotResponse res" where
  "Fake_InstallSnapshot peer req = Inr \<lparr>irTerm = iqTerm req, irSuccess = True\<rparr>"

text \<open>The registered handlers are the nodes themselves.\<close>

type_synonym ('s, 'd) MemTransport = "string \<rightharpoonup> ('s, 'd) Node"

definition ErrUnknownPeer :: kv_error where
  "ErrUnknownPeer = ErrOther ''raft: unknown peer''"

definition NewMemTransport :: "('s, 'd) MemTransport" where
  "NewMemTransport = Map.empty"

definition Register :: "string \<Rightarrow> ('s, 'd) Node \<Rightarrow> ('s, 'd) MemTransport \<Rightarrow> ('s, 'd) MemTransport" where
  "Register i h m = m(i \<mapsto> h)"

definition Unregister :: "string \<Rightarrow> ('s, 'd) MemTransport \<Rightarrow> ('s, 'd) MemTransport" where
  "Unregister i m = m(i := None)"

definition mem_handler :: "string \<Rightarrow> ('s, 'd) MemTransport \<Rightarrow> ('s, 'd) Node res" where
  "mem_handler peer m = (case m peer of None \<Rightarrow> Inl ErrUnknownPeer | Some h \<Rightarrow> Inr h)"

definition dispatch ::
    "(('s, 'd) Node \<Rightarrow> 'r \<times> ('s, 'd) Node) \<Rightarrow> string \<Rightarrow> ('s, 'd) MemTransport \<Rightarrow> 'r res \<times> ('s, 'd) MemTransport" where
  "dispatch f peer m =
     (case mem_handler peer m of
        Inl e \<Rightarrow> (Inl e, m)
      | Inr h \<Rightarrow> (case f h of (resp, h') \<Rightarrow> (Inr resp, Register peer h' m)))"

definition mem_RequestVote where
  "mem_RequestVote peer req = dispatch (HandleRequestVote req) peer"

definition mem_AppendEntries where
  "mem_AppendEntries peer req = dispatch (HandleAppendEntries req) peer"

definition mem_InstallSnapshot where
  "mem_InstallSnapshot peer req = dispatch (HandleInstallSnapshot req) peer"

section \<open>Replication over a working transport\<close>

text \<open>A raft store whose saves succeed; a node without one counts too.\<close>

definition saves :: "'d RaftStore option \<Rightarrow> bool" where
  "saves rs \<longleftrightarrow> (\<forall>r. rs = Some r \<longrightarrow> (\<forall>st d. \<exists>d'. rsSave r st d = (Inr (), d')))"

lemma persist_saves:
  assumes "saves (raftStore n)"
  shows "fst (persist n) = Inr ()"
proof (cases "raftStore n")
  case (Some r)
  then obtain d' where "rsSave r (durable_part n) (rdisk n) = (Inr (), d')" using assms by (auto simp: saves_def)
  with Some show ?thesis by (simp add: persist_def)
qed (simp add: persist_def)

text \<open>The follower rejects a request of the current term only on a mismatch before its
  entries, and then its log is untouched.\<close>

lemma append_decided:
  fixes F :: "('s, 'd) Node"
  assumes "nterm F \<le> aqTerm req" "saves (raftStore F)"
  defines "r \<equiv> HandleAppendEntries req F"
  shows "arSuccess (fst r) \<longleftrightarrow> checkPrevLog (aqPrevLogIndex req) (aqPrevLogTerm req) F"
    and "arTerm (fst r) = aqTerm req" "nterm (snd r) = aqTerm req" "raftStore (snd r) = raftStore F"
    and "lastIncludedIndex (snd r) = lastIncludedIndex F"
    and "\<not> arSuccess (fst r) \<Longrightarrow> nlog (snd r) = nlog F"
proof -
  let ?f = "follow (aqTerm req) (aqLeaderID req) F"
  have f: "nterm ?f = aqTerm req" using assms(1) by (simp add: follow_term)
  have c: "checkPrevLog p t ?f = checkPrevLog p t F" for p t by (auto simp: checkPrevLog_def logTermAt_def)
  let ?c = "checkPrevLog (aqPrevLogIndex req) (aqPrevLogTerm req) F"
  have bad: "r = (\<lparr>arTerm = aqTerm req, arSuccess = False\<rparr>, ?f)" if "\<not> ?c"
    using assms(1) that unfolding r_def HandleAppendEntries_def accept_entries_eq Let_def c by simp
  have "fst (persist (accepted req ?f)) = Inr ()" using assms(2) by (intro persist_saves) simp
  then obtain n' where p: "persist (accepted req ?f) = (Inr (), n')" by (metis prod.collapse)
  then have n': "n' = snd (persist (accepted req ?f))" by simp
  have good: "fst r = \<lparr>arTerm = aqTerm req, arSuccess = True\<rparr> \<and> snd r \<in> {accepted req ?f, n'}" if ?c
    using assms(1) that unfolding r_def HandleAppendEntries_def accept_entries_eq Let_def c by (simp add: p)
  show "arSuccess (fst r) \<longleftrightarrow> ?c" using bad good by (cases ?c) simp_all
  show "arTerm (fst r) = aqTerm req" using bad good by (cases ?c) simp_all
  show "nterm (snd r) = aqTerm req" "raftStore (snd r) = raftStore F" "lastIncludedIndex (snd r) = lastIncludedIndex F"
    using bad good f by (cases ?c; auto simp: n')+
  show "\<not> arSuccess (fst r) \<Longrightarrow> nlog (snd r) = nlog F" using bad good by (cases ?c) simp_all
qed

text \<open>A leader that has compacted nothing and a follower that is not ahead of its term.\<close>

definition ready :: "string \<Rightarrow> ('s, 'd) Node \<Rightarrow> ('s, 'd) Node \<Rightarrow> bool" where
  "ready peer L F \<longleftrightarrow> role L = RoleLeader \<and> \<not> inFlight (repl_of L) peer \<and> lastIncludedIndex L = 0 \<and>
     0 \<le> lastIncludedIndex F \<and> nextIndex (repl_of L) peer \<le> lastLogIndex L + 1 \<and>
     matchIndex (repl_of L) peer \<le> lastLogIndex L \<and> log_match F L \<and> nterm F \<le> nterm L \<and> saves (raftStore F)"

definition caught_up :: "string \<Rightarrow> ('s, 'd) Node \<Rightarrow> ('s, 'd) Node \<Rightarrow> ('s, 'd) Node \<Rightarrow> bool" where
  "caught_up peer L L' F' \<longleftrightarrow> agree_upto (lastLogIndex L) F' L \<and> lastLogIndex L \<le> lastLogIndex F' \<and>
     matchIndex (repl_of L') peer = lastLogIndex L"

definition same_log :: "('s, 'd) Node \<Rightarrow> ('s, 'd) Node \<Rightarrow> bool" where
  "same_log n m \<longleftrightarrow> nlog n = nlog m \<and> lastIncludedIndex n = lastIncludedIndex m \<and> nterm n = nterm m \<and> role n = role m"

lemma same_logD:
  assumes "same_log n m"
  shows "entryAt n = entryAt m" "lastLogIndex n = lastLogIndex m"
  using assms entryAt_cong [of n m] by (simp_all add: same_log_def lastLogIndex_def)

lemma log_match_cong:
  assumes "nlog F' = nlog F" "lastIncludedIndex F' = lastIncludedIndex F" "same_log L' L"
  shows "log_match F' L' \<longleftrightarrow> log_match F L"
  using entryAt_cong [OF assms(1,2)] same_logD(1) [OF assms(3)] by (simp add: log_match_def agree_upto_def)

lemma ready_send:
  assumes "ready peer L F"
  obtains req L1 where "repl_send peer L = (SendEntries req, L1)" "same_log L1 L" "repl_of L1 = (repl_of L)\<lparr>inFlight := (inFlight (repl_of L))(peer := True)\<rparr>"
    "aqTerm req = nterm L" "aqPrevLogIndex req = max 1 (nextIndex (repl_of L) peer) - 1"
    "aqPrevLogIndex req + int (length (aqEntries req)) = lastLogIndex L"
proof -
  have b: "role L = RoleLeader" "\<not> inFlight (repl_of L) peer" "lastIncludedIndex L = 0" "nextIndex (repl_of L) peer \<le> lastLogIndex L + 1"
    using assms by (simp_all add: ready_def)
  obtain x L1 where x: "repl_send peer L = (x, L1)" by fastforce
  with b obtain req where s: "repl_send peer L = (SendEntries req, L1)"
    by (cases x) (auto simp: repl_send_def Let_def firstIndex_def split: if_splits)
  moreover have "same_log L1 L" using repl_send_fields [OF s] by (simp add: same_log_def)
  moreover have "repl_of L1 = (repl_of L)\<lparr>inFlight := (inFlight (repl_of L))(peer := True)\<rparr>"
    "aqPrevLogIndex req = max 1 (nextIndex (repl_of L) peer) - 1"
    using s b by (auto simp: repl_send_def Let_def set_inFlight_def max_def split: if_splits)
  ultimately show thesis using that repl_send_cut [OF s] b by simp
qed

lemma repl_reply_failure:
  fixes req :: AppendEntriesRequest and peer :: string
  assumes "arTerm resp = nterm n" "\<not> arSuccess resp"
  defines "n' \<equiv> snd (repl_reply peer req (Inr resp) n)"
  shows "fst (repl_reply peer req (Inr resp) n) \<noteq> Some True" "same_log n' n"
    and "matchIndex (repl_of n') = matchIndex (repl_of n)" "\<not> inFlight (repl_of n') peer"
    and "nextIndex (repl_of n') peer < max 2 (nextIndex (repl_of n) peer)"
proof -
  let ?r = "repl_reply peer req (Inr resp) n"
  show "fst ?r \<noteq> Some True" using assms(1,2) by (simp add: repl_reply_def Let_def)
  show "same_log n' n" "matchIndex (repl_of n') = matchIndex (repl_of n)" "\<not> inFlight (repl_of n') peer"
    "nextIndex (repl_of n') peer < max 2 (nextIndex (repl_of n) peer)"
    using assms(1,2) by (auto simp: n'_def repl_reply_def Let_def same_log_def)
qed

text \<open>One request and its answer.\<close>

lemma exchange_step:
  assumes "ready peer L F" "repl_send peer L = (SendEntries req, L1)" "HandleAppendEntries req F = (resp, F')"
  defines "r \<equiv> repl_reply peer req (Inr resp) L1"
  shows "fst r = Some True \<and> caught_up peer L (snd r) F' \<or>
    fst r \<noteq> Some True \<and> ready peer (snd r) F' \<and> same_log (snd r) L \<and> 1 < nextIndex (repl_of L) peer \<and>
    nextIndex (repl_of (snd r)) peer < nextIndex (repl_of L) peer"
proof -
  have b: "lastIncludedIndex L = 0" "0 \<le> lastIncludedIndex F" "log_match F L" "nterm F \<le> nterm L" "saves (raftStore F)"
      "nextIndex (repl_of L) peer \<le> lastLogIndex L + 1" "matchIndex (repl_of L) peer \<le> lastLogIndex L" "role L = RoleLeader"
    using assms(1) by (simp_all add: ready_def)
  have s: "same_log L1 L" "repl_of L1 = (repl_of L)\<lparr>inFlight := (inFlight (repl_of L))(peer := True)\<rparr>" "aqTerm req = nterm L"
      "aqPrevLogIndex req = max 1 (nextIndex (repl_of L) peer) - 1"
    using ready_send [OF assms(1)] assms(2) by (metis prod.inject send.inject)+
  have d: "arSuccess resp \<longleftrightarrow> checkPrevLog (aqPrevLogIndex req) (aqPrevLogTerm req) F" "arTerm resp = nterm L1"
      "nterm F' = nterm L" "raftStore F' = raftStore F" "lastIncludedIndex F' = lastIncludedIndex F"
      "\<not> arSuccess resp \<Longrightarrow> nlog F' = nlog F"
    using append_decided [of F req] b(4,5) s assms(3) by (simp_all add: same_log_def)
  show ?thesis
  proof (cases "arSuccess resp")
    case True
    from exchange_agrees [OF assms(2) _ b(2,6,7,3) assms(3) True] b(1)
    show ?thesis by (simp add: caught_up_def r_def)
  next
    case False
    note f = repl_reply_failure [OF d(2) False, of peer req, folded r_def]
    have "0 < aqPrevLogIndex req"
      using False d(1) s(4) b(2) by (auto simp: checkPrevLog_def lastLogIndex_def split: if_splits)
    then have "1 < nextIndex (repl_of L) peer" using s(4) by simp
    moreover from this have "nextIndex (repl_of (snd r)) peer < nextIndex (repl_of L) peer" using f(5) s(2) by simp
    moreover have same: "same_log (snd r) L" using f(2) s(1) by (simp add: same_log_def)
    moreover have "log_match F' (snd r)" using log_match_cong [OF d(6) [OF False] d(5) same] b(3) by simp
    ultimately show ?thesis
      using f b d s(2) same_logD(2) [OF same] by (simp add: ready_def same_log_def)
  qed
qed

lemma caught_up_cong: "same_log L2 L \<Longrightarrow> caught_up peer L2 L' F' \<longleftrightarrow> caught_up peer L L' F'"
  using same_logD [of L2 L] by (simp add: caught_up_def agree_upto_def)

lemma replicate_progress:
  assumes "ready peer L F" "m peer = Some F"
    and "replicateToPeer (mem_AppendEntries peer) callSnap peer m L = (b, L', m')"
  shows "\<exists>F'. m' peer = Some F' \<and> (if b then caught_up peer L L' F'
    else ready peer L' F' \<and> same_log L' L \<and> 1 < nextIndex (repl_of L) peer \<and> nextIndex (repl_of L') peer < nextIndex (repl_of L) peer)"
  using assms
proof (induction "nat (nextIndex (repl_of L) peer)" arbitrary: L F m rule: less_induct)
  case less
  obtain req L1 where s: "repl_send peer L = (SendEntries req, L1)" using ready_send [OF less.prems(1)] by metis
  obtain resp F1 where h: "HandleAppendEntries req F = (resp, F1)" by fastforce
  obtain o2 L2 where r: "repl_reply peer req (Inr resp) L1 = (o2, L2)" by fastforce
  have call: "mem_AppendEntries peer req m = (Inr resp, Register peer F1 m)"
    using less.prems(2) h by (simp add: mem_AppendEntries_def dispatch_def mem_handler_def)
  have run: "(case o2 of Some c \<Rightarrow> (c, L2, Register peer F1 m)
      | None \<Rightarrow> replicateToPeer (mem_AppendEntries peer) callSnap peer (Register peer F1 m) L2) = (b, L', m')"
    using less.prems(3) by (subst (asm) replicateToPeer.simps) (simp add: s call r)
  note x = exchange_step [OF less.prems(1) s h, unfolded r fst_conv snd_conv]
  have reg: "Register peer F1 m peer = Some F1" by (simp add: Register_def)
  show ?case
  proof (cases o2)
    case (Some c)
    with run x reg show ?thesis by auto
  next
    case None
    with x have y: "ready peer L2 F1" "same_log L2 L" "1 < nextIndex (repl_of L) peer"
      "nextIndex (repl_of L2) peer < nextIndex (repl_of L) peer" by auto
    from None run have run2: "replicateToPeer (mem_AppendEntries peer) callSnap peer (Register peer F1 m) L2 = (b, L', m')" by simp
    have "nat (nextIndex (repl_of L2) peer) < nat (nextIndex (repl_of L) peer)" using y by simp
    from less.hyps [OF this y(1) reg run2] show ?thesis
      using y caught_up_cong [OF y(2), of peer L'] by (auto simp: same_log_def split: if_splits)
  qed
qed

text \<open>Heartbeats, one after the other, until one is acknowledged.\<close>

primrec rounds :: "string \<Rightarrow> nat \<Rightarrow> ('s, 'd) MemTransport \<Rightarrow> ('s, 'd) Node \<Rightarrow> bool \<times> ('s, 'd) Node \<times> ('s, 'd) MemTransport" where
  "rounds peer 0 m L = (False, L, m)"
| "rounds peer (Suc k) m L =
     (case replicateToPeer (mem_AppendEntries peer) (mem_InstallSnapshot peer) peer m L of
        (True, L', m') \<Rightarrow> (True, L', m')
      | (False, L', m') \<Rightarrow> rounds peer k m' L')"

lemma rounds_catch_up:
  assumes "ready peer L F" "m peer = Some F" "nextIndex (repl_of L) peer \<le> int k" "0 < k"
  shows "\<exists>L' m' F'. rounds peer k m L = (True, L', m') \<and> m' peer = Some F' \<and> caught_up peer L L' F'"
  using assms
proof (induction k arbitrary: L F m)
  case (Suc k)
  obtain b L1 m1 where r: "replicateToPeer (mem_AppendEntries peer) (mem_InstallSnapshot peer) peer m L = (b, L1, m1)"
    by (metis prod_cases3)
  from replicate_progress [OF Suc.prems(1,2) r] obtain F1 where F1: "m1 peer = Some F1"
    "if b then caught_up peer L L1 F1 else ready peer L1 F1 \<and> same_log L1 L \<and> 1 < nextIndex (repl_of L) peer \<and>
       nextIndex (repl_of L1) peer < nextIndex (repl_of L) peer" by blast
  show ?case
  proof (cases b)
    case True
    with F1 r show ?thesis by auto
  next
    case False
    with F1 have y: "ready peer L1 F1" "same_log L1 L" "nextIndex (repl_of L1) peer \<le> int k" "0 < k"
      using Suc.prems(3) by auto
    from Suc.IH [where m = m1, OF y(1) F1(1) y(3,4)] show ?thesis
      using False r caught_up_cong [OF y(2)] by auto
  qed
qed simp

end
