(* ===== verification/RaftPersist.thy ===== *)
theory RaftPersist
  imports RaftElection Json Wal
begin

text \<open>
  pkg/raft/persistence.go, the two durable stores: \<open>fileRaftStore\<close>, a JSON file replaced
  atomically, and \<open>encryptedRaftStore\<close>, the same text sealed behind a magic byte.  Both are
  shown to meet the contract \<open>raft_store\<close> under every outcome of the file system calls of
  \<open>Save\<close>, so what RaftFollower proves from the contract holds of them.
\<close>

section \<open>The file\<close>

text \<open>The file at \<open>path\<close> (\<open>None\<close> when it does not exist), the error \<open>os.ReadFile\<close> gives, if any,
  the outcome of the i-th file system call of \<open>Save\<close>, and of the i-th read of \<open>crypto/rand\<close>.\<close>

record stateDisk =
  sdFile :: "bytes option"
  sdReadErr :: "kv_error option"
  sdIoAt :: "nat \<Rightarrow> kv_error option"
  sdIoCnt :: nat
  sdNonceAt :: "nat \<Rightarrow> bytes res"
  sdNonceCnt :: nat

definition sd_io :: "(stateDisk \<Rightarrow> stateDisk) \<Rightarrow> stateDisk \<Rightarrow> unit res \<times> stateDisk" where
  "sd_io eff d =
     (case sdIoAt d (sdIoCnt d) of
        None \<Rightarrow> (Inr (), eff (d\<lparr>sdIoCnt := sdIoCnt d + 1\<rparr>))
      | Some e \<Rightarrow> (Inl e, d\<lparr>sdIoCnt := sdIoCnt d + 1\<rparr>))"

definition sd_read :: "stateDisk \<Rightarrow> bytes option res" where
  "sd_read d =
     (case sdFile d of
        None \<Rightarrow> Inr None
      | Some b \<Rightarrow> (case sdReadErr d of Some e \<Rightarrow> Inl e | None \<Rightarrow> Inr (Some b)))"

section \<open>The JSON text\<close>

definition op_code :: "Op \<Rightarrow> nat" where
  "op_code op =
     (case op of OpPut \<Rightarrow> 1 | OpDelete \<Rightarrow> 2 | OpClear \<Rightarrow> 3 | OpIncr \<Rightarrow> 4 | OpCAS \<Rightarrow> 5 | OpExpire \<Rightarrow> 6 | OpUnknown \<Rightarrow> 0)"

definition op_of :: "nat \<Rightarrow> Op" where
  "op_of k =
     (if k = 1 then OpPut else if k = 2 then OpDelete else if k = 3 then OpClear
      else if k = 4 then OpIncr else if k = 5 then OpCAS else if k = 6 then OpExpire else OpUnknown)"

definition int_json :: "int \<Rightarrow> json" where
  "int_json i = JNum (FormatInt (word_of_int i))"

definition Command_json :: "Command \<Rightarrow> json" where
  "Command_json c =
     JObj [(''Op'', JNum (FormatInt (of_nat (op_code (cmdOp c))))), (''Key'', JStr (cmdKey c)),
           (''Old'', JStr (cmdOld c)), (''Value'', JStr (cmdValue c)),
           (''ExpiresAt'', JNum (FormatInt (cmdExpiresAt c)))]"

definition Entry_json :: "Entry \<Rightarrow> json" where
  "Entry_json e = JObj [(''Term'', int_json (entTerm e)), (''Cmd'', Command_json (entCmd e))]"

text \<open>A nil slice and a nil pointer are \<open>null\<close>; the copy \<open>persist\<close> makes of an empty log is nil.\<close>

definition RaftState_json :: "RaftState \<Rightarrow> json" where
  "RaftState_json st =
     JObj [(''Term'', int_json (rsTerm st)),
           (''VotedFor'', case rsVotedFor st of None \<Rightarrow> JNull | Some v \<Rightarrow> JStr v),
           (''Log'', if rsLog st = [] then JNull else JArr (map Entry_json (rsLog st))),
           (''LastIncludedIndex'', int_json (rsLastIncludedIndex st)),
           (''LastIncludedTerm'', int_json (rsLastIncludedTerm st))]"

definition marshal_state :: "RaftState \<Rightarrow> bytes" where
  "marshal_state st = json_text (RaftState_json st)"

fun dec_op :: "json \<Rightarrow> Op \<Rightarrow> Op option" where
  "dec_op JNull old = Some old"
| "dec_op (JNum l) old =
     (case parse_nat l of None \<Rightarrow> None | Some k \<Rightarrow> if k < 256 then Some (op_of k) else None)"
| "dec_op _ old = None"

definition dec_int :: "json \<Rightarrow> int \<Rightarrow> int option" where
  "dec_int j old = map_option sint (dec_int64 j (word_of_int old))"

definition dec_Command :: "json \<Rightarrow> Command \<Rightarrow> Command option" where
  "dec_Command = dec_struct
     [(''Op'', \<lambda>j c. map_option (\<lambda>x. c\<lparr>cmdOp := x\<rparr>) (dec_op j (cmdOp c))),
      (''Key'', \<lambda>j c. map_option (\<lambda>x. c\<lparr>cmdKey := x\<rparr>) (dec_string j (cmdKey c))),
      (''Old'', \<lambda>j c. map_option (\<lambda>x. c\<lparr>cmdOld := x\<rparr>) (dec_string j (cmdOld c))),
      (''Value'', \<lambda>j c. map_option (\<lambda>x. c\<lparr>cmdValue := x\<rparr>) (dec_string j (cmdValue c))),
      (''ExpiresAt'', \<lambda>j c. map_option (\<lambda>x. c\<lparr>cmdExpiresAt := x\<rparr>) (dec_int64 j (cmdExpiresAt c)))]"

definition zero_Command :: Command where
  "zero_Command = \<lparr>cmdOp = OpUnknown, cmdKey = '''', cmdOld = '''', cmdValue = '''', cmdExpiresAt = 0\<rparr>"

definition dec_Entry :: "json \<Rightarrow> Entry \<Rightarrow> Entry option" where
  "dec_Entry = dec_struct
     [(''Term'', \<lambda>j e. map_option (\<lambda>x. e\<lparr>entTerm := x\<rparr>) (dec_int j (entTerm e))),
      (''Cmd'', \<lambda>j e. map_option (\<lambda>x. e\<lparr>entCmd := x\<rparr>) (dec_Command j (entCmd e)))]"

definition zero_Entry :: Entry where
  "zero_Entry = \<lparr>entTerm = 0, entCmd = zero_Command\<rparr>"

fun dec_Entries :: "json list \<Rightarrow> Entry list option" where
  "dec_Entries [] = Some []"
| "dec_Entries (j # js) =
     (case dec_Entry j zero_Entry of
        None \<Rightarrow> None
      | Some e \<Rightarrow> map_option (\<lambda>es. e # es) (dec_Entries js))"

fun dec_Log :: "json \<Rightarrow> Entry list option" where
  "dec_Log JNull = Some []"
| "dec_Log (JArr js) = dec_Entries js"
| "dec_Log _ = None"

fun dec_pstring :: "json \<Rightarrow> string option option" where
  "dec_pstring JNull = Some None"
| "dec_pstring (JStr v) = Some (Some v)"
| "dec_pstring _ = None"

text \<open>Decoding into the zero \<open>RaftState\<close>.\<close>

definition dec_RaftState :: "json \<Rightarrow> RaftState \<Rightarrow> RaftState option" where
  "dec_RaftState = dec_struct
     [(''Term'', \<lambda>j st. map_option (\<lambda>x. st\<lparr>rsTerm := x\<rparr>) (dec_int j (rsTerm st))),
      (''VotedFor'', \<lambda>j st. map_option (\<lambda>x. st\<lparr>rsVotedFor := x\<rparr>) (dec_pstring j)),
      (''Log'', \<lambda>j st. map_option (\<lambda>x. st\<lparr>rsLog := x\<rparr>) (dec_Log j)),
      (''LastIncludedIndex'', \<lambda>j st. map_option (\<lambda>x. st\<lparr>rsLastIncludedIndex := x\<rparr>)
         (dec_int j (rsLastIncludedIndex st))),
      (''LastIncludedTerm'', \<lambda>j st. map_option (\<lambda>x. st\<lparr>rsLastIncludedTerm := x\<rparr>)
         (dec_int j (rsLastIncludedTerm st)))]"

definition zero_RaftState :: RaftState where
  "zero_RaftState =
     \<lparr>rsTerm = 0, rsVotedFor = None, rsLog = [], rsLastIncludedIndex = 0, rsLastIncludedTerm = 0\<rparr>"

definition unmarshal_state :: "bytes \<Rightarrow> RaftState res" where
  "unmarshal_state data =
     (case json_parse data of
        None \<Rightarrow> Inl (ErrOther ''json'')
      | Some j \<Rightarrow>
          (case dec_RaftState j zero_RaftState of None \<Rightarrow> Inl (ErrOther ''json'') | Some st \<Rightarrow> Inr st))"

section \<open>The stores\<close>

text \<open>Temp file, fsync, rename, fsync of the directory.  The clean-up of the temp file does
  not touch the file at \<open>path\<close>.\<close>

definition replace_file :: "bytes \<Rightarrow> stateDisk \<Rightarrow> unit res \<times> stateDisk" where
  "replace_file blob =
     and_then (sd_io id) (\<lambda>_.
     and_then (sd_io id) (\<lambda>_.
     and_then (sd_io id) (\<lambda>_.
     and_then (sd_io id) (\<lambda>_.
     and_then (sd_io (\<lambda>d. d\<lparr>sdFile := Some blob\<rparr>)) (\<lambda>_.
     and_then (sd_io id) (\<lambda>_.
     sd_io id))))))"

definition file_Save :: "RaftState \<Rightarrow> stateDisk \<Rightarrow> unit res \<times> stateDisk" where
  "file_Save st = replace_file (marshal_state st)"

definition file_Load :: "stateDisk \<Rightarrow> RaftState res" where
  "file_Load d =
     (case sd_read d of
        Inl e \<Rightarrow> Inl e
      | Inr None \<Rightarrow> Inr zero_RaftState
      | Inr (Some data) \<Rightarrow> unmarshal_state data)"

definition NewFileRaftStore :: "stateDisk RaftStore" where
  "NewFileRaftStore = \<lparr>rsSave = file_Save, rsLoad = file_Load\<rparr>"

definition raftEncryptedMagic :: char where
  "raftEncryptedMagic = CHR 0xE5"

definition sd_encrypt :: "atRestCipher \<Rightarrow> bytes \<Rightarrow> stateDisk \<Rightarrow> bytes res \<times> stateDisk" where
  "sd_encrypt c plain d = (Encrypt c (sdNonceAt d (sdNonceCnt d)) plain, d\<lparr>sdNonceCnt := sdNonceCnt d + 1\<rparr>)"

definition encrypted_Save :: "atRestCipher \<Rightarrow> RaftState \<Rightarrow> stateDisk \<Rightarrow> unit res \<times> stateDisk" where
  "encrypted_Save c st =
     and_then (sd_encrypt c (marshal_state st)) (\<lambda>sealed. replace_file (raftEncryptedMagic # sealed))"

definition encrypted_Load :: "atRestCipher \<Rightarrow> stateDisk \<Rightarrow> RaftState res" where
  "encrypted_Load c d =
     (case sd_read d of
        Inl e \<Rightarrow> Inl e
      | Inr None \<Rightarrow> Inr zero_RaftState
      | Inr (Some data) \<Rightarrow>
          if data = [] \<or> hd data \<noteq> raftEncryptedMagic
          then Inl (ErrOther ''raft state file is not encrypted; refusing to start under an encryption key'')
          else case Decrypt c (tl data) of
                 Inl e \<Rightarrow> Inl e
               | Inr plain \<Rightarrow> unmarshal_state plain)"

definition NewEncryptedFileRaftStore :: "atRestCipher \<Rightarrow> stateDisk RaftStore" where
  "NewEncryptedFileRaftStore c = \<lparr>rsSave = encrypted_Save c, rsLoad = encrypted_Load c\<rparr>"

section \<open>Round trip\<close>

definition int_ok :: "int \<Rightarrow> bool" where
  "int_ok i \<longleftrightarrow> - (2 ^ 63) \<le> i \<and> i < 2 ^ 63"

definition Entry_ok :: "Entry \<Rightarrow> bool" where
  "Entry_ok e \<longleftrightarrow> int_ok (entTerm e) \<and> valid_utf8 (cmdKey (entCmd e)) \<and>
     valid_utf8 (cmdOld (entCmd e)) \<and> valid_utf8 (cmdValue (entCmd e))"

definition state_ok :: "RaftState \<Rightarrow> bool" where
  "state_ok st \<longleftrightarrow> int_ok (rsTerm st) \<and> int_ok (rsLastIncludedIndex st) \<and> int_ok (rsLastIncludedTerm st) \<and>
     (\<forall>v. rsVotedFor st = Some v \<longrightarrow> valid_utf8 v) \<and> list_all Entry_ok (rsLog st)"

lemma sint_of_int_ok: "int_ok i \<Longrightarrow> sint (word_of_int i :: int64) = i"
  by (simp add: int_ok_def signed_take_bit_int_eq_self sint_sbintrunc')

lemma dec_int_json: "int_ok i \<Longrightarrow> dec_int (int_json i) old = Some i"
  by (simp add: dec_int_def int_json_def ParseInt_FormatInt sint_of_int_ok)

lemma dec_op_code: "dec_op (JNum (FormatInt (of_nat (op_code op)))) old = Some op"
  by (cases op; simp add: op_code_def; code_simp)

lemma wf_Entry_json: "wf_json (Entry_json e)"
  by (auto simp: Entry_json_def Command_json_def int_json_def)

lemma wf_RaftState_json: "wf_json (RaftState_json st)"
  by (auto simp: RaftState_json_def int_json_def wf_Entry_json split: option.splits)

lemma names_utf8:
  "coerce_utf8 ''Op'' = ''Op''" "coerce_utf8 ''Key'' = ''Key''" "coerce_utf8 ''Old'' = ''Old''"
  "coerce_utf8 ''Value'' = ''Value''" "coerce_utf8 ''ExpiresAt'' = ''ExpiresAt''"
  "coerce_utf8 ''Term'' = ''Term''" "coerce_utf8 ''Cmd'' = ''Cmd''" "coerce_utf8 ''VotedFor'' = ''VotedFor''"
  "coerce_utf8 ''Log'' = ''Log''" "coerce_utf8 ''LastIncludedIndex'' = ''LastIncludedIndex''"
  "coerce_utf8 ''LastIncludedTerm'' = ''LastIncludedTerm''"
  by code_simp+

lemma norm_Entry_json: "Entry_ok e \<Longrightarrow> json_norm (Entry_json e) = Entry_json e"
  by (simp add: Entry_json_def Command_json_def int_json_def Entry_ok_def coerce_valid names_utf8)

lemma norm_RaftState_json: "state_ok st \<Longrightarrow> json_norm (RaftState_json st) = RaftState_json st"
  by (auto simp: RaftState_json_def int_json_def state_ok_def coerce_valid names_utf8 norm_Entry_json
      list_all_iff split: option.splits)

lemma dec_Command_json: "dec_Command (Command_json c) zero_Command = Some c"
  by (cases c) (simp add: dec_Command_def Command_json_def zero_Command_def find_field_def dec_op_code ParseInt_FormatInt
      del: dec_op.simps)

lemma dec_Entry_json: "Entry_ok e \<Longrightarrow> dec_Entry (Entry_json e) zero_Entry = Some e"
  by (cases e) (simp add: dec_Entry_def Entry_json_def zero_Entry_def find_field_def dec_int_json Entry_ok_def
      dec_Command_json)

lemma dec_Entries_json: "list_all Entry_ok es \<Longrightarrow> dec_Entries (map Entry_json es) = Some es"
  by (induction es) (simp_all add: dec_Entry_json)

lemma dec_RaftState_json:
  assumes "state_ok st"
  shows "dec_RaftState (RaftState_json st) zero_RaftState = Some st"
proof -
  have "dec_Log (if rsLog st = [] then JNull else JArr (map Entry_json (rsLog st))) = Some (rsLog st)"
    using assms by (simp add: dec_Entries_json state_ok_def)
  moreover have "dec_pstring (case rsVotedFor st of None \<Rightarrow> JNull | Some v \<Rightarrow> JStr v) = Some (rsVotedFor st)"
    by (cases "rsVotedFor st") auto
  ultimately show ?thesis
    using assms unfolding RaftState_json_def dec_RaftState_def zero_RaftState_def
    by (simp add: find_field_def dec_int_json state_ok_def del: dec_Log.simps dec_pstring.simps)
qed

lemma unmarshal_marshal_state: "state_ok st \<Longrightarrow> unmarshal_state (marshal_state st) = Inr st"
  using json_parse_text [OF wf_RaftState_json, of st]
  by (simp add: unmarshal_state_def marshal_state_def norm_RaftState_json dec_RaftState_json)

section \<open>Both stores keep the contract\<close>

lemma sd_io_cases:
  assumes "sd_io eff d = (r, d')"
  shows "(r = Inr () \<and> d' = eff (d\<lparr>sdIoCnt := sdIoCnt d + 1\<rparr>)) \<or> (\<exists>e. r = Inl e \<and> d' = d\<lparr>sdIoCnt := sdIoCnt d + 1\<rparr>)"
  using assms by (auto simp: sd_io_def split: option.splits)

text \<open>Only the rename touches the file: before it the old file is there, after it the new one.\<close>

definition moved :: "stateDisk \<Rightarrow> stateDisk \<Rightarrow> bool" where
  "moved d d' \<longleftrightarrow> sdReadErr d' = sdReadErr d \<and> sdNonceAt d' = sdNonceAt d"

lemma sd_io_moved:
  assumes "sd_io eff d = (r, d')" "\<And>x. moved x (eff x)"
  shows "moved d d'"
  using sd_io_cases [OF assms(1)] assms(2) [of "d\<lparr>sdIoCnt := sdIoCnt d + 1\<rparr>"] by (auto simp: moved_def)

lemma moved_refl [simp]: "moved d d" by (simp add: moved_def)

lemma moved_trans: "moved d d' \<Longrightarrow> moved d' d'' \<Longrightarrow> moved d d''" by (simp add: moved_def)

lemma sd_io_id_cases:
  "sd_io id d = (r, d') \<Longrightarrow> sdFile d' = sdFile d \<and> moved d d'"
  using sd_io_cases [of id d r d'] by (auto simp: moved_def)

lemma and_then_io:
  assumes "and_then (sd_io id) (\<lambda>_. k) d = (r, d')"
  obtains (failed) e where "r = Inl e" "sdFile d' = sdFile d" "moved d d'"
    | (next_call) d1 where "sdFile d1 = sdFile d" "moved d d1" "k d1 = (r, d')"
  using assms sd_io_id_cases [of d] by (auto simp: and_then_def split: prod.splits sum.splits)

lemma replace_file_tail:
  assumes "and_then (sd_io (\<lambda>d. d\<lparr>sdFile := Some blob\<rparr>)) (\<lambda>_. and_then (sd_io id) (\<lambda>_. sd_io id)) d = (r, d')"
  shows "moved d d' \<and> (sdFile d' = Some blob \<or> (\<exists>e. r = Inl e) \<and> sdFile d' = sdFile d)"
proof -
  let ?eff = "\<lambda>d. d\<lparr>sdFile := Some blob\<rparr>"
  obtain r1 d1 where 1: "sd_io ?eff d = (r1, d1)" by fastforce
  show ?thesis
  proof (cases r1)
    case (Inl e)
    with 1 sd_io_cases [OF 1] assms show ?thesis by (auto simp: and_then_def moved_def)
  next
    case (Inr u)
    then have d1: "sdFile d1 = Some blob" "moved d d1" using sd_io_cases [OF 1] by (auto simp: moved_def)
    have "and_then (sd_io id) (\<lambda>_. sd_io id) d1 = (r, d')" using assms 1 Inr by (simp add: and_then_def)
    then show ?thesis
      by (cases rule: and_then_io) (use d1 sd_io_id_cases moved_trans in metis)+
  qed
qed

lemma replace_file_cases:
  assumes "replace_file blob d = (r, d')"
  shows "moved d d' \<and> (sdFile d' = Some blob \<or> (\<exists>e. r = Inl e) \<and> sdFile d' = sdFile d)"
proof -
  have step: "moved d d' \<and> (sdFile d' = Some blob \<or> (\<exists>e. r = Inl e) \<and> sdFile d' = sdFile d)"
    if h: "and_then (sd_io id) (\<lambda>_. k) d = (r, d')"
      and k: "\<And>d r d'. k d = (r, d') \<Longrightarrow>
        moved d d' \<and> (sdFile d' = Some blob \<or> (\<exists>e. r = Inl e) \<and> sdFile d' = sdFile d)"
    for k d r d'
    using h
  proof (cases rule: and_then_io)
    case (next_call d1)
    from k [OF next_call(3)] next_call(1,2) moved_trans show ?thesis by metis
  qed auto
  show ?thesis
    using assms unfolding replace_file_def
    by (elim step replace_file_tail)
qed

definition file_good :: "stateDisk \<Rightarrow> bool" where
  "file_good d \<longleftrightarrow> sdReadErr d = None"

definition sealed_good :: "atRestCipher \<Rightarrow> stateDisk \<Rightarrow> bool" where
  "sealed_good c d \<longleftrightarrow> sdReadErr d = None \<and> aead_ok (aead c) \<and>
     (\<forall>i n. sdNonceAt d i = Inr n \<longrightarrow> length n = atRestNonceSize)"

lemma file_Load_eq:
  "sdReadErr d = None \<Longrightarrow> file_Load d = (case sdFile d of None \<Rightarrow> Inr zero_RaftState | Some b \<Rightarrow> unmarshal_state b)"
  by (simp add: file_Load_def sd_read_def split: option.splits)

interpretation filed: raft_store NewFileRaftStore state_ok file_good
proof
  fix st d u d'
  assume st: "state_ok st" "file_good d"
  { assume "rsSave NewFileRaftStore st d = (Inr u, d')"
    then have "moved d d'" "sdFile d' = Some (marshal_state st)"
      using replace_file_cases [of "marshal_state st" d] by (auto simp: NewFileRaftStore_def file_Save_def)
    with st show "rsLoad NewFileRaftStore d' = Inr st"
      by (simp add: NewFileRaftStore_def file_Load_eq file_good_def moved_def unmarshal_marshal_state) }
  fix e
  assume "rsSave NewFileRaftStore st d = (Inl e, d')"
  then have "moved d d'" "sdFile d' = Some (marshal_state st) \<or> sdFile d' = sdFile d"
    using replace_file_cases [of "marshal_state st" d] by (auto simp: NewFileRaftStore_def file_Save_def)
  with st show "rsLoad NewFileRaftStore d' = rsLoad NewFileRaftStore d \<or> rsLoad NewFileRaftStore d' = Inr st"
    by (auto simp: NewFileRaftStore_def file_Load_eq file_good_def moved_def unmarshal_marshal_state)
next
  fix d st
  show "file_good d \<Longrightarrow> file_good (snd (rsSave NewFileRaftStore st d))"
    using replace_file_cases [of "marshal_state st" d]
    by (simp add: NewFileRaftStore_def file_Save_def file_good_def moved_def prod_eq_iff)
qed

lemma encrypted_Save_cases:
  assumes "encrypted_Save c st d = (r, d')"
  shows "moved d d' \<and> ((\<exists>e. r = Inl e) \<and> sdFile d' = sdFile d \<or>
    (\<exists>i n sealed. sdNonceAt d i = Inr n \<and> Encrypt c (Inr n) (marshal_state st) = Inr sealed \<and>
       sdFile d' = Some (raftEncryptedMagic # sealed)))"
proof (cases "Encrypt c (sdNonceAt d (sdNonceCnt d)) (marshal_state st)")
  case (Inl e)
  then show ?thesis using assms by (auto simp: encrypted_Save_def and_then_def sd_encrypt_def moved_def)
next
  case (Inr sealed)
  then obtain n where n: "sdNonceAt d (sdNonceCnt d) = Inr n"
    by (cases "sdNonceAt d (sdNonceCnt d)") (auto simp: Encrypt_def)
  have "replace_file (raftEncryptedMagic # sealed) (d\<lparr>sdNonceCnt := sdNonceCnt d + 1\<rparr>) = (r, d')"
    using assms Inr by (simp add: encrypted_Save_def and_then_def sd_encrypt_def)
  from replace_file_cases [OF this] n Inr show ?thesis by (auto simp: moved_def)
qed

lemma encrypted_Load_sealed:
  assumes "sealed_good c d" "moved d d'" "sdNonceAt d i = Inr n"
    and "Encrypt c (Inr n) (marshal_state st) = Inr sealed" "sdFile d' = Some (raftEncryptedMagic # sealed)" "state_ok st"
  shows "encrypted_Load c d' = Inr st"
proof -
  have "Decrypt c sealed = Inr (marshal_state st)"
    using assms(1,3,4) Decrypt_Encrypt(1) [of c n "marshal_state st" sealed] by (auto simp: sealed_good_def)
  with assms show ?thesis
    by (simp add: encrypted_Load_def sd_read_def sealed_good_def moved_def unmarshal_marshal_state)
qed

interpretation sealed: raft_store "NewEncryptedFileRaftStore c" state_ok "sealed_good c" for c
proof
  fix st d u d'
  assume st: "state_ok st" "sealed_good c d"
  { assume "rsSave (NewEncryptedFileRaftStore c) st d = (Inr u, d')"
    then show "rsLoad (NewEncryptedFileRaftStore c) d' = Inr st"
      using encrypted_Save_cases [of c st d] encrypted_Load_sealed [OF st(2) _ _ _ _ st(1)]
      by (auto simp: NewEncryptedFileRaftStore_def) }
  fix e
  assume "rsSave (NewEncryptedFileRaftStore c) st d = (Inl e, d')"
  then have s: "encrypted_Save c st d = (Inl e, d')" by (simp add: NewEncryptedFileRaftStore_def)
  have "encrypted_Load c d' = encrypted_Load c d" if "moved d d'" "sdFile d' = sdFile d"
  proof -
    have "sd_read d' = sd_read d" using that by (simp add: sd_read_def moved_def split: option.splits)
    then show ?thesis by (simp add: encrypted_Load_def)
  qed
  then show "rsLoad (NewEncryptedFileRaftStore c) d' = rsLoad (NewEncryptedFileRaftStore c) d \<or>
      rsLoad (NewEncryptedFileRaftStore c) d' = Inr st"
    using encrypted_Save_cases [OF s] encrypted_Load_sealed [OF st(2) _ _ _ _ st(1)]
    by (auto simp: NewEncryptedFileRaftStore_def)
next
  fix d st
  show "sealed_good c d \<Longrightarrow> sealed_good c (snd (rsSave (NewEncryptedFileRaftStore c) st d))"
    using encrypted_Save_cases [of c st d]
    by (simp add: NewEncryptedFileRaftStore_def sealed_good_def moved_def prod_eq_iff)
qed

text \<open>Under a key, a file that does not start with the magic byte is refused.\<close>

lemma encrypted_refuses_plaintext:
  assumes "sd_read d = Inr (Some (marshal_state st))"
  shows "\<exists>msg. encrypted_Load c d = Inl (ErrOther msg)"
proof -
  have "marshal_state st \<noteq> [] \<and> hd (marshal_state st) = CHR ''{''"
    by (simp add: marshal_state_def RaftState_json_def)
  then show ?thesis using assms by (simp add: encrypted_Load_def raftEncryptedMagic_def)
qed

end
