(* ===== verification/Base64.thy ===== *)
theory Base64
  imports Json
begin

text \<open>
  \<open>encoding/base64\<close>'s standard encoding with padding, the text \<open>encoding/json\<close> gives a
  \<open>[]byte\<close>.  The decoder skips line breaks and ignores the unused bits of a padded group.
  Shown here: decoding undoes encoding, and the text is ASCII.
\<close>

definition b64_char :: "nat \<Rightarrow> char" where
  "b64_char i =
     (if i < 26 then char_of (65 + i) else if i < 52 then char_of (71 + i)
      else if i < 62 then char_of (i - 4) else if i = 62 then CHR ''+'' else CHR ''/'')"

definition b64_value :: "char \<Rightarrow> nat option" where
  "b64_value c =
     (let b = byte_of c
      in if 65 \<le> b \<and> b \<le> 90 then Some (b - 65)
         else if 97 \<le> b \<and> b \<le> 122 then Some (b - 71)
         else if 48 \<le> b \<and> b \<le> 57 then Some (b + 4)
         else if b = 43 then Some 62 else if b = 47 then Some 63 else None)"

definition b64_pad :: char where
  "b64_pad = CHR ''=''"

fun base64_encode :: "bytes \<Rightarrow> string" where
  "base64_encode [] = []"
| "base64_encode [a] = [b64_char (byte_of a div 4), b64_char (byte_of a mod 4 * 16), b64_pad, b64_pad]"
| "base64_encode [a, b] =
     [b64_char (byte_of a div 4), b64_char (byte_of a mod 4 * 16 + byte_of b div 16),
      b64_char (byte_of b mod 16 * 4), b64_pad]"
| "base64_encode (a # b # c # r) =
     b64_char (byte_of a div 4) # b64_char (byte_of a mod 4 * 16 + byte_of b div 16) #
     b64_char (byte_of b mod 16 * 4 + byte_of c div 64) # b64_char (byte_of c mod 64) # base64_encode r"

fun decode_groups :: "string \<Rightarrow> bytes option" where
  "decode_groups [] = Some []"
| "decode_groups (w # x # y # z # r) =
     (case (b64_value w, b64_value x) of
        (Some i, Some j) \<Rightarrow>
          let b0 = char_of (i * 4 + j div 16)
          in if y = b64_pad \<and> z = b64_pad then (if r = [] then Some [b0] else None)
             else (case b64_value y of
                     None \<Rightarrow> None
                   | Some k \<Rightarrow>
                       let b1 = char_of (j mod 16 * 16 + k div 4)
                       in if z = b64_pad then (if r = [] then Some [b0, b1] else None)
                          else (case b64_value z of
                                  None \<Rightarrow> None
                                | Some l \<Rightarrow>
                                    map_option (\<lambda>bs. b0 # b1 # char_of (k mod 4 * 64 + l) # bs) (decode_groups r)))
      | _ \<Rightarrow> None)"
| "decode_groups _ = None"

definition base64_decode :: "string \<Rightarrow> bytes option" where
  "base64_decode s = decode_groups (filter (\<lambda>c. c \<noteq> CHR 0x0A \<and> c \<noteq> CHR 0x0D) s)"

section \<open>Round trip\<close>

lemma byte_of_less: "byte_of c < 256"
  by (simp add: byte_of_def)

lemma b64_byte: "i < 64 \<Longrightarrow> byte_of (b64_char i) =
    (if i < 26 then 65 + i else if i < 52 then 71 + i else if i < 62 then i - 4 else if i = 62 then 43 else 47)"
  by (simp add: b64_char_def) (simp add: byte_of_def)

lemma b64_value_char [simp]: "i < 64 \<Longrightarrow> b64_value (b64_char i) = Some i"
  by (auto simp: b64_value_def b64_byte Let_def)

lemma b64_char_plain:
  assumes "i < 64"
  shows "b64_char i \<noteq> b64_pad" "b64_char i \<noteq> CHR 0x0A" "b64_char i \<noteq> CHR 0x0D"
proof -
  have "byte_of (b64_char i) \<notin> {61, 10, 13}" using assms by (auto simp: b64_byte)
  then show "b64_char i \<noteq> b64_pad" "b64_char i \<noteq> CHR 0x0A" "b64_char i \<noteq> CHR 0x0D"
    by (auto simp: b64_pad_def byte_of_def)
qed

lemma pieces:
  fixes a b c :: nat
  assumes "a < 256" "b < 256" "c < 256"
  shows "a div 4 < 64" "a mod 4 * 16 < 64" "a mod 4 * 16 + b div 16 < 64" "b mod 16 * 4 < 64" "b mod 16 * 4 + c div 64 < 64" "c mod 64 < 64"
    and "a div 4 * 4 + (a mod 4 * 16 + b div 16) div 16 = a" "a div 4 * 4 + a mod 4 * 16 div 16 = a"
    and "(a mod 4 * 16 + b div 16) mod 16 * 16 + (b mod 16 * 4 + c div 64) div 4 = b"
    and "(a mod 4 * 16 + b div 16) mod 16 * 16 + b mod 16 * 4 div 4 = b"
    and "(b mod 16 * 4 + c div 64) mod 4 * 64 + c mod 64 = c"
proof -
  have q: "a div 4 < 64" "b div 16 < 16" "c div 64 < 4" using assms by simp_all
  have m: "a mod 4 < 4" "b mod 16 < 16" "c mod 64 < 64" by simp_all
  show "a div 4 < 64" "c mod 64 < 64" using q m by simp_all
  show "a mod 4 * 16 < 64" "a mod 4 * 16 + b div 16 < 64" "b mod 16 * 4 < 64" "b mod 16 * 4 + c div 64 < 64"
    using q m by linarith+
  show "a div 4 * 4 + (a mod 4 * 16 + b div 16) div 16 = a" "a div 4 * 4 + a mod 4 * 16 div 16 = a"
    using q by (simp_all add: div_mult_mod_eq)
  show "(a mod 4 * 16 + b div 16) mod 16 * 16 + (b mod 16 * 4 + c div 64) div 4 = b"
    "(a mod 4 * 16 + b div 16) mod 16 * 16 + b mod 16 * 4 div 4 = b"
    using q by (simp_all add: div_mult_mod_eq)
  show "(b mod 16 * 4 + c div 64) mod 4 * 64 + c mod 64 = c"
    using q by (simp add: div_mult_mod_eq)
qed

lemma decode_groups_encode: "decode_groups (base64_encode bs) = Some bs"
proof (induction bs rule: base64_encode.induct)
  case 1
  then show ?case by simp
next
  case (2 a)
  then show ?case
    using pieces [OF byte_of_less [of a] byte_of_less [of a] byte_of_less [of a]] by (simp add: Let_def char_of_byte_of)
next
  case (3 a b)
  then show ?case
    using pieces [OF byte_of_less [of a] byte_of_less [of b] byte_of_less [of b]] by (simp add: Let_def char_of_byte_of b64_char_plain)
next
  case (4 a b c r)
  then show ?case
    using pieces [OF byte_of_less [of a] byte_of_less [of b] byte_of_less [of c]] by (simp add: Let_def char_of_byte_of b64_char_plain)
qed

definition b64_text :: "char \<Rightarrow> bool" where
  "b64_text c \<longleftrightarrow> c = b64_pad \<or> (\<exists>i < 64. c = b64_char i)"

lemma b64_text_pad [simp]: "b64_text b64_pad" by (simp add: b64_text_def)

lemma b64_text_char [simp]: "i < 64 \<Longrightarrow> b64_text (b64_char i)" by (auto simp: b64_text_def)

lemma b64_textD:
  assumes "b64_text c"
  shows "c \<noteq> CHR 0x0A" "c \<noteq> CHR 0x0D" "byte_of c < 128"
proof -
  have "byte_of b64_pad = 61" "byte_of (CHR 0x0A) = 10" "byte_of (CHR 0x0D) = 13" by (simp_all add: b64_pad_def byte_of_def)
  moreover have "byte_of (b64_char i) < 128 \<and> byte_of (b64_char i) \<notin> {10, 13}" if "i < 64" for i
    using that by (auto simp: b64_byte)
  ultimately show "c \<noteq> CHR 0x0A" "c \<noteq> CHR 0x0D" "byte_of c < 128" using assms unfolding b64_text_def by force+
qed

lemma encode_text: "list_all b64_text (base64_encode bs)"
proof (induction bs rule: base64_encode.induct)
  case 1
  then show ?case by simp
next
  case (2 a)
  then show ?case using pieces(1-6) [OF byte_of_less [of a] byte_of_less [of a] byte_of_less [of a]] by simp
next
  case (3 a b)
  then show ?case using pieces(1-6) [OF byte_of_less [of a] byte_of_less [of b] byte_of_less [of b]] by simp
next
  case (4 a b d r)
  then show ?case using pieces(1-6) [OF byte_of_less [of a] byte_of_less [of b] byte_of_less [of d]] by simp
qed

lemma encode_ascii: "list_all (\<lambda>c. byte_of c < 128) (base64_encode bs)"
  using encode_text [of bs] by (auto simp: list_all_iff dest: b64_textD)

lemma base64_decode_encode: "base64_decode (base64_encode bs) = Some bs"
proof -
  have "filter (\<lambda>c. c \<noteq> CHR 0x0A \<and> c \<noteq> CHR 0x0D) (base64_encode bs) = base64_encode bs"
    using encode_text [of bs] by (auto simp: list_all_iff filter_id_conv dest: b64_textD)
  then show ?thesis by (simp add: base64_decode_def decode_groups_encode)
qed

end
