(* ===== verification/HttpTransport.thy ===== *)
theory HttpTransport
  imports Transport RaftPersist Base64 Metrics
begin

text \<open>
  pkg/raft/transport_http.go: the RPCs as JSON over HTTP POST, the client (\<open>do\<close>) and the
  handler \<open>ServeRaftHTTP\<close>.  What \<open>net/http\<close> and the network do with a request is a parameter.
  Shown here: over a network that delivers, the HTTP transport does what the in-memory
  transport does with the request whose strings went through \<open>coerce_utf8\<close>, so the two
  agree on requests in UTF-8 and a follower receives an altered value otherwise.
\<close>

section \<open>The messages\<close>

definition VoteRequest_json :: "VoteRequest \<Rightarrow> json" where
  "VoteRequest_json q =
     JObj [(''Term'', int_json (vqTerm q)), (''CandidateID'', JStr (vqCandidateID q)),
           (''LastLogIndex'', int_json (vqLastLogIndex q)), (''LastLogTerm'', int_json (vqLastLogTerm q))]"

definition dec_VoteRequest :: "json \<Rightarrow> VoteRequest \<Rightarrow> VoteRequest option" where
  "dec_VoteRequest = dec_struct
     [(''Term'', \<lambda>j q. map_option (\<lambda>x. q\<lparr>vqTerm := x\<rparr>) (dec_int j (vqTerm q))),
      (''CandidateID'', \<lambda>j q. map_option (\<lambda>x. q\<lparr>vqCandidateID := x\<rparr>) (dec_string j (vqCandidateID q))),
      (''LastLogIndex'', \<lambda>j q. map_option (\<lambda>x. q\<lparr>vqLastLogIndex := x\<rparr>) (dec_int j (vqLastLogIndex q))),
      (''LastLogTerm'', \<lambda>j q. map_option (\<lambda>x. q\<lparr>vqLastLogTerm := x\<rparr>) (dec_int j (vqLastLogTerm q)))]"

definition zero_VoteRequest :: VoteRequest where
  "zero_VoteRequest = \<lparr>vqTerm = 0, vqCandidateID = '''', vqLastLogIndex = 0, vqLastLogTerm = 0\<rparr>"

definition VoteResponse_json :: "VoteResponse \<Rightarrow> json" where
  "VoteResponse_json r = JObj [(''Term'', int_json (vrTerm r)), (''VoteGranted'', JBool (vrVoteGranted r))]"

definition dec_VoteResponse :: "json \<Rightarrow> VoteResponse \<Rightarrow> VoteResponse option" where
  "dec_VoteResponse = dec_struct
     [(''Term'', \<lambda>j r. map_option (\<lambda>x. r\<lparr>vrTerm := x\<rparr>) (dec_int j (vrTerm r))),
      (''VoteGranted'', \<lambda>j r. map_option (\<lambda>x. r\<lparr>vrVoteGranted := x\<rparr>) (dec_bool j (vrVoteGranted r)))]"

definition zero_VoteResponse :: VoteResponse where
  "zero_VoteResponse = \<lparr>vrTerm = 0, vrVoteGranted = False\<rparr>"

text \<open>A nil slice is \<open>null\<close>; an empty one is \<open>[]\<close>, and both are read as no entries.\<close>

definition AppendEntriesRequest_json :: "AppendEntriesRequest \<Rightarrow> json" where
  "AppendEntriesRequest_json q =
     JObj [(''Term'', int_json (aqTerm q)), (''LeaderID'', JStr (aqLeaderID q)),
           (''PrevLogIndex'', int_json (aqPrevLogIndex q)), (''PrevLogTerm'', int_json (aqPrevLogTerm q)),
           (''Entries'', if aqEntries q = [] then JNull else JArr (map Entry_json (aqEntries q))),
           (''LeaderCommit'', int_json (aqLeaderCommit q))]"

definition dec_AppendEntriesRequest :: "json \<Rightarrow> AppendEntriesRequest \<Rightarrow> AppendEntriesRequest option" where
  "dec_AppendEntriesRequest = dec_struct
     [(''Term'', \<lambda>j q. map_option (\<lambda>x. q\<lparr>aqTerm := x\<rparr>) (dec_int j (aqTerm q))),
      (''LeaderID'', \<lambda>j q. map_option (\<lambda>x. q\<lparr>aqLeaderID := x\<rparr>) (dec_string j (aqLeaderID q))),
      (''PrevLogIndex'', \<lambda>j q. map_option (\<lambda>x. q\<lparr>aqPrevLogIndex := x\<rparr>) (dec_int j (aqPrevLogIndex q))),
      (''PrevLogTerm'', \<lambda>j q. map_option (\<lambda>x. q\<lparr>aqPrevLogTerm := x\<rparr>) (dec_int j (aqPrevLogTerm q))),
      (''Entries'', \<lambda>j q. map_option (\<lambda>x. q\<lparr>aqEntries := x\<rparr>) (dec_Log j)),
      (''LeaderCommit'', \<lambda>j q. map_option (\<lambda>x. q\<lparr>aqLeaderCommit := x\<rparr>) (dec_int j (aqLeaderCommit q)))]"

definition zero_AppendEntriesRequest :: AppendEntriesRequest where
  "zero_AppendEntriesRequest =
     \<lparr>aqTerm = 0, aqLeaderID = '''', aqPrevLogIndex = 0, aqPrevLogTerm = 0, aqEntries = [], aqLeaderCommit = 0\<rparr>"

definition AppendEntriesResponse_json :: "AppendEntriesResponse \<Rightarrow> json" where
  "AppendEntriesResponse_json r = JObj [(''Term'', int_json (arTerm r)), (''Success'', JBool (arSuccess r))]"

definition dec_AppendEntriesResponse :: "json \<Rightarrow> AppendEntriesResponse \<Rightarrow> AppendEntriesResponse option" where
  "dec_AppendEntriesResponse = dec_struct
     [(''Term'', \<lambda>j r. map_option (\<lambda>x. r\<lparr>arTerm := x\<rparr>) (dec_int j (arTerm r))),
      (''Success'', \<lambda>j r. map_option (\<lambda>x. r\<lparr>arSuccess := x\<rparr>) (dec_bool j (arSuccess r)))]"

definition zero_AppendEntriesResponse :: AppendEntriesResponse where
  "zero_AppendEntriesResponse = \<lparr>arTerm = 0, arSuccess = False\<rparr>"

definition InstallSnapshotRequest_json :: "InstallSnapshotRequest \<Rightarrow> json" where
  "InstallSnapshotRequest_json q =
     JObj [(''Term'', int_json (iqTerm q)), (''LeaderID'', JStr (iqLeaderID q)),
           (''LastIncludedIndex'', int_json (iqLastIncludedIndex q)),
           (''LastIncludedTerm'', int_json (iqLastIncludedTerm q)),
           (''Data'', if iqData q = [] then JNull else JStr (base64_encode (iqData q)))]"

fun dec_byte_list :: "json list \<Rightarrow> bytes option" where
  "dec_byte_list [] = Some []"
| "dec_byte_list (JNull # js) = map_option ((#) (char_of (0::nat))) (dec_byte_list js)"
| "dec_byte_list (JNum l # js) =
     (case parse_nat l of
        None \<Rightarrow> None
      | Some k \<Rightarrow> if k < 256 then map_option ((#) (char_of k)) (dec_byte_list js) else None)"
| "dec_byte_list _ = None"

fun dec_bytes :: "json \<Rightarrow> bytes option" where
  "dec_bytes JNull = Some []"
| "dec_bytes (JStr s) = base64_decode s"
| "dec_bytes (JArr js) = dec_byte_list js"
| "dec_bytes _ = None"

definition dec_InstallSnapshotRequest :: "json \<Rightarrow> InstallSnapshotRequest \<Rightarrow> InstallSnapshotRequest option" where
  "dec_InstallSnapshotRequest = dec_struct
     [(''Term'', \<lambda>j q. map_option (\<lambda>x. q\<lparr>iqTerm := x\<rparr>) (dec_int j (iqTerm q))),
      (''LeaderID'', \<lambda>j q. map_option (\<lambda>x. q\<lparr>iqLeaderID := x\<rparr>) (dec_string j (iqLeaderID q))),
      (''LastIncludedIndex'', \<lambda>j q. map_option (\<lambda>x. q\<lparr>iqLastIncludedIndex := x\<rparr>) (dec_int j (iqLastIncludedIndex q))),
      (''LastIncludedTerm'', \<lambda>j q. map_option (\<lambda>x. q\<lparr>iqLastIncludedTerm := x\<rparr>) (dec_int j (iqLastIncludedTerm q))),
      (''Data'', \<lambda>j q. map_option (\<lambda>x. q\<lparr>iqData := x\<rparr>) (dec_bytes j))]"

definition zero_InstallSnapshotRequest :: InstallSnapshotRequest where
  "zero_InstallSnapshotRequest =
     \<lparr>iqTerm = 0, iqLeaderID = '''', iqLastIncludedIndex = 0, iqLastIncludedTerm = 0, iqData = []\<rparr>"

definition InstallSnapshotResponse_json :: "InstallSnapshotResponse \<Rightarrow> json" where
  "InstallSnapshotResponse_json r = JObj [(''Term'', int_json (irTerm r)), (''Success'', JBool (irSuccess r))]"

definition dec_InstallSnapshotResponse :: "json \<Rightarrow> InstallSnapshotResponse \<Rightarrow> InstallSnapshotResponse option" where
  "dec_InstallSnapshotResponse = dec_struct
     [(''Term'', \<lambda>j r. map_option (\<lambda>x. r\<lparr>irTerm := x\<rparr>) (dec_int j (irTerm r))),
      (''Success'', \<lambda>j r. map_option (\<lambda>x. r\<lparr>irSuccess := x\<rparr>) (dec_bool j (irSuccess r)))]"

definition zero_InstallSnapshotResponse :: InstallSnapshotResponse where
  "zero_InstallSnapshotResponse = \<lparr>irTerm = 0, irSuccess = False\<rparr>"

section \<open>The client\<close>

text \<open>\<open>hcParses\<close> says which URLs \<open>http.NewRequest\<close> accepts; \<open>hcDo\<close> is a POST, with the status
  and body of the reply.\<close>

record 'w HttpClient =
  hcParses :: "string \<Rightarrow> bool"
  hcDo :: "string \<Rightarrow> bytes \<Rightarrow> 'w \<Rightarrow> (int \<times> bytes) res \<times> 'w"

definition http_do ::
    "'w HttpClient \<Rightarrow> string \<Rightarrow> string \<Rightarrow> json \<Rightarrow> (json \<Rightarrow> 'r \<Rightarrow> 'r option) \<Rightarrow> 'r \<Rightarrow> 'w \<Rightarrow> 'r res \<times> 'w" where
  "http_do c peer path q dec out w =
     (if \<not> hcParses c (peer @ path) then (Inl (Wrap ''raft: build rpc'' (ErrOther ''parse'')), w)
      else
        case hcDo c (peer @ path) (json_text q) w of
          (Inl e, w') \<Rightarrow> (Inl (Wrap (''raft: rpc '' @ path) e), w')
        | (Inr (status, body), w') \<Rightarrow>
            (if status \<noteq> 200 then Inl (ErrOther (''raft: rpc '' @ path @ '': status '' @ fmt_int status))
             else case json_decode body of
                    None \<Rightarrow> Inl (Wrap ''raft: decode rpc'' (ErrOther ''json''))
                  | Some (j, rest) \<Rightarrow>
                      (case dec j out of
                         None \<Rightarrow> Inl (Wrap ''raft: decode rpc'' (ErrOther ''json''))
                       | Some r \<Rightarrow> Inr r),
             w'))"

definition http_RequestVote :: "'w HttpClient \<Rightarrow> string \<Rightarrow> VoteRequest \<Rightarrow> 'w \<Rightarrow> VoteResponse res \<times> 'w" where
  "http_RequestVote c peer req =
     http_do c peer ''/raft/vote'' (VoteRequest_json req) dec_VoteResponse zero_VoteResponse"

definition http_AppendEntries ::
    "'w HttpClient \<Rightarrow> string \<Rightarrow> AppendEntriesRequest \<Rightarrow> 'w \<Rightarrow> AppendEntriesResponse res \<times> 'w" where
  "http_AppendEntries c peer req =
     http_do c peer ''/raft/append'' (AppendEntriesRequest_json req) dec_AppendEntriesResponse zero_AppendEntriesResponse"

definition http_InstallSnapshot ::
    "'w HttpClient \<Rightarrow> string \<Rightarrow> InstallSnapshotRequest \<Rightarrow> 'w \<Rightarrow> InstallSnapshotResponse res \<times> 'w" where
  "http_InstallSnapshot c peer req =
     http_do c peer ''/raft/snapshot'' (InstallSnapshotRequest_json req) dec_InstallSnapshotResponse
       zero_InstallSnapshotResponse"

section \<open>The server\<close>

definition writeRPC :: "json \<Rightarrow> int \<times> bytes" where
  "writeRPC v = (200, println (json_text v))"

definition serve_rpc ::
    "(json \<Rightarrow> 'q \<Rightarrow> 'q option) \<Rightarrow> 'q \<Rightarrow> ('r \<Rightarrow> json) \<Rightarrow> ('q \<Rightarrow> 'n \<Rightarrow> 'r \<times> 'n) \<Rightarrow> bytes \<Rightarrow> 'n \<Rightarrow> (int \<times> bytes) \<times> 'n" where
  "serve_rpc dec zero enc hdl body n =
     (case json_decode body of
        None \<Rightarrow> ((400, println ''bad request''), n)
      | Some (j, rest) \<Rightarrow>
          case dec j zero of
            None \<Rightarrow> ((400, println ''bad request''), n)
          | Some req \<Rightarrow> (case hdl req n of (resp, n') \<Rightarrow> (writeRPC (enc resp), n')))"

definition ServeRaftHTTP :: "string \<Rightarrow> bytes \<Rightarrow> ('s, 'd) Node \<Rightarrow> (int \<times> bytes) \<times> ('s, 'd) Node" where
  "ServeRaftHTTP path body n =
     (if path = ''/raft/vote''
      then serve_rpc dec_VoteRequest zero_VoteRequest VoteResponse_json HandleRequestVote body n
      else if path = ''/raft/append''
      then serve_rpc dec_AppendEntriesRequest zero_AppendEntriesRequest AppendEntriesResponse_json
             HandleAppendEntries body n
      else if path = ''/raft/snapshot''
      then serve_rpc dec_InstallSnapshotRequest zero_InstallSnapshotRequest InstallSnapshotResponse_json
             HandleInstallSnapshot body n
      else ((404, println ''404 page not found''), n))"

section \<open>Round trips\<close>

definition coerce_Entry :: "Entry \<Rightarrow> Entry" where
  "coerce_Entry e = e\<lparr>entCmd := (entCmd e)\<lparr>cmdKey := coerce_utf8 (cmdKey (entCmd e)),
     cmdOld := coerce_utf8 (cmdOld (entCmd e)), cmdValue := coerce_utf8 (cmdValue (entCmd e))\<rparr>\<rparr>"

definition coerce_vote :: "VoteRequest \<Rightarrow> VoteRequest" where
  "coerce_vote q = q\<lparr>vqCandidateID := coerce_utf8 (vqCandidateID q)\<rparr>"

definition coerce_append :: "AppendEntriesRequest \<Rightarrow> AppendEntriesRequest" where
  "coerce_append q = q\<lparr>aqLeaderID := coerce_utf8 (aqLeaderID q), aqEntries := map coerce_Entry (aqEntries q)\<rparr>"

definition coerce_install :: "InstallSnapshotRequest \<Rightarrow> InstallSnapshotRequest" where
  "coerce_install q = q\<lparr>iqLeaderID := coerce_utf8 (iqLeaderID q)\<rparr>"

text \<open>The integers of a request are Go's.\<close>

definition vote_ints :: "VoteRequest \<Rightarrow> bool" where
  "vote_ints q \<longleftrightarrow> int_ok (vqTerm q) \<and> int_ok (vqLastLogIndex q) \<and> int_ok (vqLastLogTerm q)"

definition append_ints :: "AppendEntriesRequest \<Rightarrow> bool" where
  "append_ints q \<longleftrightarrow> int_ok (aqTerm q) \<and> int_ok (aqPrevLogIndex q) \<and> int_ok (aqPrevLogTerm q) \<and>
     int_ok (aqLeaderCommit q) \<and> list_all (\<lambda>e. int_ok (entTerm e)) (aqEntries q)"

definition install_ints :: "InstallSnapshotRequest \<Rightarrow> bool" where
  "install_ints q \<longleftrightarrow> int_ok (iqTerm q) \<and> int_ok (iqLastIncludedIndex q) \<and> int_ok (iqLastIncludedTerm q)"

lemma rpc_names_utf8:
  "coerce_utf8 ''CandidateID'' = ''CandidateID''" "coerce_utf8 ''LastLogIndex'' = ''LastLogIndex''"
  "coerce_utf8 ''LastLogTerm'' = ''LastLogTerm''" "coerce_utf8 ''VoteGranted'' = ''VoteGranted''"
  "coerce_utf8 ''LeaderID'' = ''LeaderID''" "coerce_utf8 ''PrevLogIndex'' = ''PrevLogIndex''"
  "coerce_utf8 ''PrevLogTerm'' = ''PrevLogTerm''" "coerce_utf8 ''Entries'' = ''Entries''"
  "coerce_utf8 ''LeaderCommit'' = ''LeaderCommit''" "coerce_utf8 ''Success'' = ''Success''"
  "coerce_utf8 ''Data'' = ''Data''"
  by code_simp+

lemma wf_rpc [simp]:
  "wf_json (VoteRequest_json q1)" "wf_json (VoteResponse_json r1)" "wf_json (AppendEntriesRequest_json q2)"
  "wf_json (AppendEntriesResponse_json r2)" "wf_json (InstallSnapshotRequest_json q3)" "wf_json (InstallSnapshotResponse_json r3)"
  by (auto simp: VoteRequest_json_def VoteResponse_json_def AppendEntriesRequest_json_def AppendEntriesResponse_json_def
      InstallSnapshotRequest_json_def InstallSnapshotResponse_json_def int_json_def wf_Entry_json)

lemma norm_int_json [simp]: "json_norm (int_json i) = int_json i" by (simp add: int_json_def)

lemma norm_Entry: "json_norm (Entry_json e) = Entry_json (coerce_Entry e)"
  by (simp add: Entry_json_def Command_json_def coerce_Entry_def names_utf8)

lemma dec_Entries_coerced:
  "list_all (\<lambda>e. int_ok (entTerm e)) es \<Longrightarrow> dec_Entries (map Entry_json es) = Some es"
proof (induction es)
  case (Cons e es)
  then have "dec_Entry (Entry_json e) zero_Entry = Some e"
    by (cases e) (simp add: dec_Entry_def Entry_json_def zero_Entry_def find_field_def dec_int_json dec_Command_json)
  with Cons show ?case by simp
qed simp

lemma vote_roundtrip:
  "vote_ints q \<Longrightarrow> dec_VoteRequest (json_norm (VoteRequest_json q)) zero_VoteRequest = Some (coerce_vote q)"
  by (cases q) (simp add: dec_VoteRequest_def VoteRequest_json_def zero_VoteRequest_def find_field_def dec_int_json
      coerce_vote_def vote_ints_def names_utf8 rpc_names_utf8)

lemma append_roundtrip:
  assumes "append_ints q"
  shows "dec_AppendEntriesRequest (json_norm (AppendEntriesRequest_json q)) zero_AppendEntriesRequest = Some (coerce_append q)"
proof -
  let ?es = "map coerce_Entry (aqEntries q)"
  have n: "json_norm (if aqEntries q = [] then JNull else JArr (map Entry_json (aqEntries q))) =
      (if ?es = [] then JNull else JArr (map Entry_json ?es))"
    by (simp add: norm_Entry)
  have "dec_Entries (map Entry_json ?es) = Some ?es"
    using assms by (intro dec_Entries_coerced) (simp add: append_ints_def list_all_iff coerce_Entry_def)
  then have "dec_Log (if ?es = [] then JNull else JArr (map Entry_json ?es)) = Some ?es" by simp
  with assms n show ?thesis
    unfolding dec_AppendEntriesRequest_def AppendEntriesRequest_json_def zero_AppendEntriesRequest_def coerce_append_def
    by (cases q) (simp add: find_field_def dec_int_json append_ints_def names_utf8 rpc_names_utf8 del: dec_Log.simps)
qed

lemma install_roundtrip:
  assumes "install_ints q"
  shows "dec_InstallSnapshotRequest (json_norm (InstallSnapshotRequest_json q)) zero_InstallSnapshotRequest =
    Some (coerce_install q)"
proof -
  have "coerce_utf8 (base64_encode d) = base64_encode d" for d
    by (simp add: coerce_valid valid_utf8_ascii encode_ascii)
  then have "dec_bytes (json_norm (if iqData q = [] then JNull else JStr (base64_encode (iqData q)))) = Some (iqData q)"
    by (simp add: base64_decode_encode)
  with assms show ?thesis
    unfolding dec_InstallSnapshotRequest_def InstallSnapshotRequest_json_def zero_InstallSnapshotRequest_def coerce_install_def
    by (cases q) (simp add: find_field_def dec_int_json install_ints_def names_utf8 rpc_names_utf8 del: dec_bytes.simps)
qed

lemma vote_response_roundtrip:
  "int_ok (vrTerm r) \<Longrightarrow> dec_VoteResponse (json_norm (VoteResponse_json r)) zero_VoteResponse = Some r"
  by (cases r) (simp add: dec_VoteResponse_def VoteResponse_json_def zero_VoteResponse_def find_field_def dec_int_json
      names_utf8 rpc_names_utf8)

lemma append_response_roundtrip:
  "int_ok (arTerm r) \<Longrightarrow>
    dec_AppendEntriesResponse (json_norm (AppendEntriesResponse_json r)) zero_AppendEntriesResponse = Some r"
  by (cases r) (simp add: dec_AppendEntriesResponse_def AppendEntriesResponse_json_def zero_AppendEntriesResponse_def
      find_field_def dec_int_json names_utf8 rpc_names_utf8)

lemma install_response_roundtrip:
  "int_ok (irTerm r) \<Longrightarrow>
    dec_InstallSnapshotResponse (json_norm (InstallSnapshotResponse_json r)) zero_InstallSnapshotResponse = Some r"
  by (cases r) (simp add: dec_InstallSnapshotResponse_def InstallSnapshotResponse_json_def zero_InstallSnapshotResponse_def
      find_field_def dec_int_json names_utf8 rpc_names_utf8)

section \<open>A node answers in its own term or the sender's\<close>

lemma persist_term: "persist n = (r, n') \<Longrightarrow> nterm n' = nterm n"
  using persist_keeps(1) [of n] by simp

lemma vote_answer_term: "vrTerm (fst (HandleRequestVote req n)) \<in> {nterm n, vqTerm req}"
proof -
  obtain resp g n1 where d: "decide_vote req n = ((resp, g), n1)" by (metis surj_pair)
  obtain r n2 where p: "persist n1 = (r, n2)" by fastforce
  have "vrTerm resp = max (nterm n) (vqTerm req)"
  proof -
    have "vrTerm (fst (fst (decide_vote req n))) = max (nterm n) (vqTerm req)"
      by (simp add: decide_vote_def Let_def becomeFollower_def)
    with d show ?thesis by simp
  qed
  moreover have "nterm n1 = max (nterm n) (vqTerm req)" using decide_vote_fields(1) [of req n] d by simp
  ultimately show ?thesis
    using d p persist_term [OF p] by (cases r) (simp_all add: HandleRequestVote_def max_def)
qed

lemma append_answer_term: "arTerm (fst (HandleAppendEntries req n)) \<in> {nterm n, aqTerm req}"
proof -
  obtain resp g n1 where d: "accept_entries req n = ((resp, g), n1)" by (metis surj_pair)
  obtain r n2 where p: "persist n1 = (r, n2)" by fastforce
  have "arTerm resp = max (nterm n) (aqTerm req)" "nterm n1 = max (nterm n) (aqTerm req)"
    using d follow_term(1) [of n "aqTerm req" "aqLeaderID req"]
    by (auto simp: accept_entries_eq Let_def split: if_splits)
  then show ?thesis
    using d p persist_term [OF p] by (cases r) (simp_all add: HandleAppendEntries_def max_def)
qed

lemma install_answer_term: "irTerm (fst (HandleInstallSnapshot req n)) \<in> {nterm n, iqTerm req}"
  using follow_term(1) [of n "iqTerm req" "iqLeaderID req"]
  by (auto simp: HandleInstallSnapshot_def accept_snapshot_def Let_def)

section \<open>Over a network that delivers\<close>

text \<open>What a client may expect of a network that loses nothing: a POST to a registered peer is
  answered by that node's handler.\<close>

locale delivering =
  fixes c :: "('s, 'd) MemTransport HttpClient"
  assumes parses: "hcParses c url"
    and delivers: "m peer = Some h \<Longrightarrow> path \<in> {''/raft/vote'', ''/raft/append'', ''/raft/snapshot''} \<Longrightarrow>
      hcDo c (peer @ path) body m =
        (case ServeRaftHTTP path body h of (reply, h') \<Rightarrow> (Inr reply, Register peer h' m))"
begin

lemma do_serve:
  assumes "m peer = Some h" "path \<in> {''/raft/vote'', ''/raft/append'', ''/raft/snapshot''}"
    and "ServeRaftHTTP path (json_text q) h = serve_rpc decq zeroq encr hdl (json_text q) h"
    and "wf_json q" "decq (json_norm q) zeroq = Some req"
    and "wf_json (encr (fst (hdl req h)))" "dec (json_norm (encr (fst (hdl req h)))) out = Some (fst (hdl req h))"
  shows "http_do c peer path q dec out m = dispatch (hdl req) peer m"
proof -
  obtain resp h' where r: "hdl req h = (resp, h')" by fastforce
  have "json_decode (json_text q) = Some (json_norm q, [])" using json_decode_text [OF assms(4), of "[]"] by simp
  then have "ServeRaftHTTP path (json_text q) h = (writeRPC (encr resp), h')"
    using assms(3,5) r by (simp add: serve_rpc_def)
  moreover have "json_decode (println (json_text (encr resp))) = Some (json_norm (encr resp), nl)"
    using assms(6) r by (simp add: println_def nl_def json_decode_text value_end_def)
  ultimately show ?thesis
    using assms(7) r delivers [where m = m and peer = peer and path = path, OF assms(1,2)] assms(1)
    by (simp add: http_do_def parses writeRPC_def dispatch_def mem_handler_def)
qed

lemma http_vote:
  assumes "m peer = Some h" "vote_ints req" "int_ok (nterm h)"
  shows "http_RequestVote c peer req m = mem_RequestVote peer (coerce_vote req) m"
proof -
  have "int_ok (vqTerm (coerce_vote req))" using assms(2) by (simp add: coerce_vote_def vote_ints_def)
  then have "int_ok (vrTerm (fst (HandleRequestVote (coerce_vote req) h)))"
    using vote_answer_term [of "coerce_vote req" h] assms(3) by auto
  then show ?thesis
    unfolding http_RequestVote_def mem_RequestVote_def
    using assms by (intro do_serve [where hdl = HandleRequestVote and decq = dec_VoteRequest and zeroq = zero_VoteRequest
        and encr = VoteResponse_json])
      (auto simp: ServeRaftHTTP_def vote_roundtrip vote_response_roundtrip)
qed

lemma http_append:
  assumes "m peer = Some h" "append_ints req" "int_ok (nterm h)"
  shows "http_AppendEntries c peer req m = mem_AppendEntries peer (coerce_append req) m"
proof -
  have "int_ok (aqTerm (coerce_append req))" using assms(2) by (simp add: coerce_append_def append_ints_def)
  then have "int_ok (arTerm (fst (HandleAppendEntries (coerce_append req) h)))"
    using append_answer_term [of "coerce_append req" h] assms(3) by auto
  then show ?thesis
    unfolding http_AppendEntries_def mem_AppendEntries_def
    using assms by (intro do_serve [where hdl = HandleAppendEntries and decq = dec_AppendEntriesRequest and zeroq = zero_AppendEntriesRequest
        and encr = AppendEntriesResponse_json])
      (auto simp: ServeRaftHTTP_def append_roundtrip append_response_roundtrip)
qed

lemma http_install:
  assumes "m peer = Some h" "install_ints req" "int_ok (nterm h)"
  shows "http_InstallSnapshot c peer req m = mem_InstallSnapshot peer (coerce_install req) m"
proof -
  have "int_ok (iqTerm (coerce_install req))" using assms(2) by (simp add: coerce_install_def install_ints_def)
  then have "int_ok (irTerm (fst (HandleInstallSnapshot (coerce_install req) h)))"
    using install_answer_term [of "coerce_install req" h] assms(3) by auto
  then show ?thesis
    unfolding http_InstallSnapshot_def mem_InstallSnapshot_def
    using assms by (intro do_serve [where hdl = HandleInstallSnapshot and decq = dec_InstallSnapshotRequest and zeroq = zero_InstallSnapshotRequest
        and encr = InstallSnapshotResponse_json])
      (auto simp: ServeRaftHTTP_def install_roundtrip install_response_roundtrip)
qed

end

text \<open>The network in which every registered node is reachable under its base URL.\<close>

definition rpc_paths :: "string list" where
  "rpc_paths = [''/raft/vote'', ''/raft/append'', ''/raft/snapshot'']"

definition split_url :: "string \<Rightarrow> string \<times> string" where
  "split_url url =
     (case filter (\<lambda>p. drop (length url - length p) url = p) rpc_paths of
        [] \<Rightarrow> (url, '''')
      | p # _ \<Rightarrow> (take (length url - length p) url, p))"

definition lan_do :: "string \<Rightarrow> bytes \<Rightarrow> ('s, 'd) MemTransport \<Rightarrow> (int \<times> bytes) res \<times> ('s, 'd) MemTransport" where
  "lan_do url body m =
     (case split_url url of
        (peer, path) \<Rightarrow>
          case m peer of
            None \<Rightarrow> (Inl (ErrOther ''connection refused''), m)
          | Some h \<Rightarrow> (case ServeRaftHTTP path body h of (reply, h') \<Rightarrow> (Inr reply, Register peer h' m)))"

definition lan :: "('s, 'd) MemTransport HttpClient" where
  "lan = \<lparr>hcParses = (\<lambda>_. True), hcDo = lan_do\<rparr>"

lemma split_url_path:
  assumes "path \<in> {''/raft/vote'', ''/raft/append'', ''/raft/snapshot''}"
  shows "split_url (peer @ path) = (peer, path)"
proof -
  have other: "drop (length (peer @ path) - length p) (peer @ path) \<noteq> p" if "p \<in> set rpc_paths" "p \<noteq> path" for p
  proof
    assume "drop (length (peer @ path) - length p) (peer @ path) = p"
    then obtain t where t: "peer @ path = t @ p" by (metis append_take_drop_id)
    have "path \<noteq> []" "p \<noteq> []" using assms that by (auto simp: rpc_paths_def)
    then have "last path = last p" using arg_cong [OF t, of last] by simp
    with assms that show False by (auto simp: rpc_paths_def)
  qed
  have "filter (\<lambda>p. drop (length (peer @ path) - length p) (peer @ path) = p) rpc_paths = filter ((=) path) rpc_paths"
    using other by (intro filter_cong) auto
  moreover have "filter ((=) path) rpc_paths = [path]" using assms by (auto simp: rpc_paths_def)
  ultimately show ?thesis by (simp add: split_url_def)
qed

interpretation lan_net: delivering lan
  by unfold_locales (simp_all add: lan_def lan_do_def split_url_path)

end
