(* ===== verification/SnapshotBridge.thy ===== *)
theory SnapshotBridge
  imports Engines RaftElection RaftPersist Durability
begin

text \<open>
  cmd/server/snapshot_bridge.go: the disk store as raft's snapshot provider and sink, and the
  compactor.  \<open>Snapshot\<close> reads the index first and the data later; \<open>bridge_Snapshot\<close> is the
  two without anything in between.
\<close>

definition snapshotCompactThreshold :: int where
  "snapshotCompactThreshold = 1000"

definition bridge_Snapshot :: "int \<Rightarrow> (int \<Rightarrow> int) \<Rightarrow> DiskStore \<Rightarrow> Snapshot res" where
  "bridge_Snapshot applied logTerm s =
     (let idx = applied; t = logTerm idx
      in case SerializeSnapshot s of
           Inl e \<Rightarrow> Inl e
         | Inr data \<Rightarrow> Inr \<lparr>snLastIncludedIndex = idx, snLastIncludedTerm = t, snData = data\<rparr>)"

definition bridge_ApplySnapshot :: "bytes \<Rightarrow> DiskStore \<Rightarrow> unit res \<times> DiskStore" where
  "bridge_ApplySnapshot data s = RestoreSnapshot data s"

text \<open>One tick of the compactor; its errors are only logged.\<close>

definition compactor_tick :: "int \<Rightarrow> (DiskStore, 'd) Node \<Rightarrow> (DiskStore, 'd) Node" where
  "compactor_tick threshold n =
     (let threshold' = (if threshold \<le> 0 then snapshotCompactThreshold else threshold)
      in if ApplyIndex n - SnapshotBase n < threshold' then n
         else
           let idx = ApplyIndex n; t = LogTerm idx n
           in case compact (store n) of
                (Inl e, s) \<Rightarrow> n\<lparr>store := s\<rparr>
              | (Inr _, s) \<Rightarrow> snd (Flush (CompactLog idx t (n\<lparr>store := s\<rparr>))))"

section \<open>What they keep\<close>

lemma on_wal_mem: "dmem (snd (on_wal f s)) = dmem s"
  by (simp add: on_wal_def case_prod_unfold)

lemma and_then_mem:
  assumes "dmem (snd (f s)) = dmem s" "\<And>x s. dmem (snd (g x s)) = dmem s"
  shows "dmem (snd (and_then f g s)) = dmem s"
proof -
  obtain r s' where f: "f s = (r, s')" by fastforce
  then show ?thesis using assms by (cases r) (simp_all add: and_then_def)
qed

lemma compactLocked_mem: "dmem (snd (compactLocked s)) = dmem s"
proof -
  have "dmem (snd (saveSnapshot s)) = dmem s"
    unfolding saveSnapshot_def Let_def by (cases "dcipher s") (simp_all add: on_wal_mem and_then_mem)
  then show ?thesis unfolding compactLocked_def by (rule and_then_mem) (rule on_wal_mem)
qed

text \<open>A snapshot restored on another store gives it the provider's data.\<close>

lemma bridge_roundtrip:
  assumes "utf8_data (mdata (dmem s))" "bridge_Snapshot i lt s = Inr snap"
  shows "mdata (dmem (snd (bridge_ApplySnapshot (snData snap) s'))) = mdata (dmem s)" "snLastIncludedIndex snap = i"
proof -
  have d: "snData snap = marshal_snapshot (mdata (dmem s))" and i: "snLastIncludedIndex snap = i"
    using assms(2) by (auto simp: bridge_Snapshot_def SerializeSnapshot_def)
  let ?s = "s'\<lparr>dmem := (dmem s')\<lparr>mdata := mdata (dmem s)\<rparr>\<rparr>"
  have "RestoreSnapshot (snData snap) s' = compactLocked ?s"
    using decode_marshal_snapshot [OF assms(1)] by (simp add: RestoreSnapshot_def d compactLocked_def)
  then show "mdata (dmem (snd (bridge_ApplySnapshot (snData snap) s'))) = mdata (dmem s)" "snLastIncludedIndex snap = i"
    using i by (simp_all add: bridge_ApplySnapshot_def compactLocked_mem)
qed

text \<open>The compactor leaves the data, the term and the vote, and never moves the base back.\<close>

lemma compactor_tick_keeps:
  "nterm (compactor_tick th n) = nterm n" "votedFor (compactor_tick th n) = votedFor n"
  "dmem (store (compactor_tick th n)) = dmem (store n)" "SnapshotBase n \<le> SnapshotBase (compactor_tick th n)"
proof -
  obtain r s where c: "compactLocked (store n) = (r, s)" by fastforce
  then have s: "dmem s = dmem (store n)" using compactLocked_mem [of "store n"] by simp
  define m where "m = n\<lparr>store := s\<rparr>"
  have m: "nterm m = nterm n" "votedFor m = votedFor n" "dmem (store m) = dmem (store n)" "lastIncludedIndex m = lastIncludedIndex n"
    using s by (simp_all add: m_def)
  have cl: "nterm (CompactLog i t m) = nterm m" "votedFor (CompactLog i t m) = votedFor m" "store (CompactLog i t m) = store m"
    "lastIncludedIndex m \<le> lastIncludedIndex (CompactLog i t m)" for i t by (simp_all add: CompactLog_def Let_def)
  have "compactor_tick th n \<in> {n, m, snd (persist (CompactLog (ApplyIndex n) (LogTerm (ApplyIndex n) n) m))}"
    using c by (cases r) (simp_all add: compactor_tick_def compact_def Flush_def Let_def m_def)
  then show "nterm (compactor_tick th n) = nterm n" "votedFor (compactor_tick th n) = votedFor n"
    "dmem (store (compactor_tick th n)) = dmem (store n)" "SnapshotBase n \<le> SnapshotBase (compactor_tick th n)"
    using m cl by (auto simp: SnapshotBase_def)
qed

end
