(* ===== verification/ServerMain.thy ===== *)
theory ServerMain
  imports ApiDisk NodeEngine HttpTransport SnapshotBridge
begin

text \<open>
  cmd/server/main.go: the configuration read from the environment, the at-rest key, the health
  probes and the router around the API, and the start and the shutdown of the process, alone or
  as a member of a raft cluster.  The environment, the key file, the contents of the data
  directory and the cipher constructors are parameters.  Shown here: what keys are accepted,
  that a clustered node is ready exactly when it knows a leader, and what a restart restores:
  the data the store had, with the raft log to be applied again from its base.
\<close>

section \<open>Configuration\<close>

definition defaultPort :: string where
  "defaultPort = ''8081''"

definition defaultDataDir :: string where
  "defaultDataDir = ''./data''"

text \<open>\<open>os.Getenv\<close> gives the empty string for a variable that is not set.\<close>

definition envOr :: "(string \<Rightarrow> string) \<Rightarrow> string \<Rightarrow> string \<Rightarrow> string" where
  "envOr env key fallback = (if env key \<noteq> '''' then env key else fallback)"

text \<open>\<open>strings.TrimSpace\<close>: the UTF-8 encodings of the runes with the property White Space.\<close>

definition space_runes :: "string list" where
  "space_runes =
     [[CHR 0x09], [CHR 0x0A], [CHR 0x0B], [CHR 0x0C], [CHR 0x0D], [CHR 0x20], [CHR 0xC2, CHR 0x85], [CHR 0xC2, CHR 0xA0],
      [CHR 0xE1, CHR 0x9A, CHR 0x80]] @
     map (\<lambda>i. [CHR 0xE2, CHR 0x80, char_of (0x80 + i)]) [0..<11] @
     [[CHR 0xE2, CHR 0x80, CHR 0xA8], [CHR 0xE2, CHR 0x80, CHR 0xA9], [CHR 0xE2, CHR 0x80, CHR 0xAF],
      [CHR 0xE2, CHR 0x81, CHR 0x9F], [CHR 0xE3, CHR 0x80, CHR 0x80]]"

definition strip_one :: "string list \<Rightarrow> string \<Rightarrow> string option" where
  "strip_one ps s =
     (case filter (\<lambda>p. p \<noteq> [] \<and> take (length p) s = p) ps of [] \<Rightarrow> None | p # _ \<Rightarrow> Some (drop (length p) s))"

lemma strip_one_shorter: "strip_one ps s = Some s' \<Longrightarrow> length s' < length s"
proof -
  assume s: "strip_one ps s = Some s'"
  then obtain p qs where p: "filter (\<lambda>p. p \<noteq> [] \<and> take (length p) s = p) ps = p # qs" "s' = drop (length p) s"
    by (auto simp: strip_one_def split: list.splits)
  then have "p \<in> set (filter (\<lambda>p. p \<noteq> [] \<and> take (length p) s = p) ps)" by simp
  then have "p \<noteq> []" "take (length p) s = p" by simp_all
  then have "length p \<le> length s" by (metis length_take min.cobounded1)
  with \<open>p \<noteq> []\<close> p(2) show "length s' < length s" by (cases p) simp_all
qed

function strip_all :: "string list \<Rightarrow> string \<Rightarrow> string" where
  "strip_all ps s = (case strip_one ps s of None \<Rightarrow> s | Some s' \<Rightarrow> strip_all ps s')"
  by auto
termination by (relation "measure (length \<circ> snd)") (auto dest: strip_one_shorter)

declare strip_all.simps [simp del]

definition TrimSpace :: "string \<Rightarrow> string" where
  "TrimSpace s = rev (strip_all (map rev space_runes) (rev (strip_all space_runes s)))"

fun hex_DecodeString :: "string \<Rightarrow> bytes option" where
  "hex_DecodeString [] = Some []"
| "hex_DecodeString [_] = None"
| "hex_DecodeString (a # b # s) =
     (case (hex_value a, hex_value b, hex_DecodeString s) of
        (Some x, Some y, Some r) \<Rightarrow> Some (char_of (x * 16 + y) # r)
      | _ \<Rightarrow> None)"

definition decodeEncryptionKey :: "string \<Rightarrow> bytes res" where
  "decodeEncryptionKey s =
     (case hex_DecodeString s of
        Some b \<Rightarrow> if length b = AtRestKeySize then Inr b
                   else if length s = AtRestKeySize then Inr s
                   else Inl (ErrOther ''encryption key must be 32 bytes (64 hex chars or raw)'')
      | None \<Rightarrow> if length s = AtRestKeySize then Inr s
                else Inl (ErrOther ''encryption key must be 32 bytes (64 hex chars or raw)''))"

definition resolveEncryptionKey :: "(string \<Rightarrow> string) \<Rightarrow> (string \<Rightarrow> string res) \<Rightarrow> bytes option res" where
  "resolveEncryptionKey env readFile =
     (if env ''KEY_FILE'' \<noteq> '''' then
        (case readFile (env ''KEY_FILE'') of
           Inl e \<Rightarrow> Inl (Wrap ''read KEY_FILE'' e)
         | Inr data \<Rightarrow> map_sum id Some (decodeEncryptionKey (TrimSpace data)))
      else if env ''ENCRYPTION_KEY'' \<noteq> '''' then map_sum id Some (decodeEncryptionKey (TrimSpace (env ''ENCRYPTION_KEY'')))
      else Inr None)"

fun split_comma :: "string \<Rightarrow> string list" where
  "split_comma [] = [[]]"
| "split_comma (c # s) = (if c = CHR '','' then [] # split_comma s
     else case split_comma s of [] \<Rightarrow> [[c]] | p # ps \<Rightarrow> (c # p) # ps)"

section \<open>The router\<close>

text \<open>\<open>hasLeader\<close> is absent when there is no raft node.  A \<open>GET\<close> pattern also serves \<open>HEAD\<close>.\<close>

definition withHealth :: "'s handler \<Rightarrow> ('s \<Rightarrow> bool) option \<Rightarrow> 's handler" where
  "withHealth api hasLeader r x =
     (if rqPath r = [''healthz''] \<and> rqMethod r \<in> {''GET'', ''HEAD''} then write_body (println ''ok'') x
      else if rqPath r = [''readyz''] \<and> rqMethod r \<in> {''GET'', ''HEAD''} then
        (case hasLeader of
           Some f \<Rightarrow> if \<not> f (svStore (xServer x)) then write_body (println ''no leader'') (WriteHeader 503 x)
                      else write_body (println ''ready'') x
         | None \<Rightarrow> write_body (println ''ready'') x)
      else api r x)"

text \<open>The raft endpoints beside the API; a body that cannot be read does not decode.\<close>

definition raft_routes :: "('s, 'd) Node handler \<Rightarrow> ('s, 'd) Node handler" where
  "raft_routes api r x =
     (if rqMethod r = ''POST'' \<and> rqPath r \<in> {[''raft'', ''vote''], [''raft'', ''append''], [''raft'', ''snapshot'']} then
        let path = ''/raft/'' @ rqPath r ! 1; sv = xServer x;
            body = (case rqBody r of Inr b \<Rightarrow> b | Inl _ \<Rightarrow> '''')
        in (case ServeRaftHTTP path body (svStore sv) of
              ((status, text), n) \<Rightarrow>
                (let y = x\<lparr>xServer := sv\<lparr>svStore := n\<rparr>\<rparr>
                 in if status = 200 then write_body text (set_header ''Content-Type'' ''application/json'' y)
                    else write_body text (WriteHeader status (set_header ''X-Content-Type-Options'' ''nosniff''
                           (set_header ''Content-Type'' ''text/plain; charset=utf-8'' y)))))
      else api r x)"

definition standalone_handler :: "clocks \<Rightarrow> 's handler" where
  "standalone_handler ck = withHealth (Handler ck) None"

definition cluster_handler :: "clocks \<Rightarrow> ('s, 'd) Node handler" where
  "cluster_handler ck = withHealth (raft_routes (Handler ck)) (Some HasLeader)"

section \<open>The process\<close>

datatype process =
    Standalone "DiskStore Server"
  | Clustered "(DiskStore, stateDisk) Node Server"

text \<open>Wiring the node: a state store that cannot be loaded is logged and stays wired.\<close>

definition start_node ::
    "string \<Rightarrow> string list \<Rightarrow> stateDisk RaftStore \<Rightarrow> DiskStore \<Rightarrow> stateDisk \<Rightarrow> (DiskStore, stateDisk) Node" where
  "start_node nodeID ps rs st rd =
     (let n = NewNode nodeID ps disk_engine st rd;
          n1 = snd (SetRaftStore (Some rs) n);
          n2 = SetSnapshotSink (Some bridge_ApplySnapshot) (SetSnapshotter (Some bridge_Snapshot) n1)
      in StartApply n2)"

text \<open>What the process needs from outside: the clock readings of the replay, the files of the
  data directory, the cipher constructors, the clock at the start, and how a caller of \<open>Incr\<close>,
  \<open>CAS\<close> or \<open>Expire\<close> waits.\<close>

record 'blk surroundings =
  suEnv :: "string \<Rightarrow> string"
  suReadFile :: "string \<Rightarrow> string res"
  suWorld :: world
  suState :: stateDisk
  suClock :: "nat \<Rightarrow> int64"
  suNewAES :: "bytes \<Rightarrow> 'blk res"
  suNewGCM :: "'blk \<Rightarrow> AEAD res"
  suNow :: int64
  suWait :: "int \<Rightarrow> string list \<Rightarrow> (DiskStore, stateDisk) Node \<Rightarrow> wait_event \<times> (DiskStore, stateDisk) Node"

definition open_store :: "'blk surroundings \<Rightarrow> bytes option \<Rightarrow> DiskStore res" where
  "open_store su encKey =
     (case encKey of
        Some k \<Rightarrow> fst (OpenDiskStoreWithKey (suNewAES su) (suNewGCM su) k (suClock su) (suWorld su))
      | None \<Rightarrow> fst (OpenDiskStore (suClock su) (suWorld su)))"

definition raft_store_of :: "'blk surroundings \<Rightarrow> bytes option \<Rightarrow> stateDisk RaftStore res" where
  "raft_store_of su encKey =
     (case encKey of
        None \<Rightarrow> Inr NewFileRaftStore
      | Some k \<Rightarrow> map_sum id NewEncryptedFileRaftStore (NewAtRestCipher (suNewAES su) (suNewGCM su) k))"

definition main_start :: "'blk surroundings \<Rightarrow> process res" where
  "main_start su =
     (let env = suEnv su; port = envOr env ''PORT'' defaultPort
      in case resolveEncryptionKey env (suReadFile su) of
           Inl e \<Rightarrow> Inl (Wrap ''encryption key'' e)
         | Inr encKey \<Rightarrow>
             (case open_store su encKey of
                Inl e \<Rightarrow> Inl (Wrap ''failed to open storage engine'' e)
              | Inr st \<Rightarrow>
                  let peersRaw = env ''PEERS'';
                      proc = (if peersRaw \<noteq> '''' then
                                (case raft_store_of su encKey of
                                   Inl e \<Rightarrow> Inl e
                                 | Inr rs \<Rightarrow>
                                     Inr (Clustered (NewServer (node_engine (suWait su))
                                       (start_node (envOr env ''NODE_ID'' (''http://127.0.0.1:'' @ port)) (split_comma peersRaw)
                                          rs st (suState su))
                                       None None (suNow su))))
                              else Inr (Standalone (NewServer disk_engine st (Some disk_Size)
                                     (Some disk_ExpiredCount) (suNow su))))
                  in case proc of
                       Inl e \<Rightarrow> Inl e
                     | Inr p \<Rightarrow>
                         if (env ''TLS_CERT'' = '''') \<noteq> (env ''TLS_KEY'' = '''')
                         then Inl (ErrOther ''TLS_CERT and TLS_KEY must be set together'') else Inr p))"

text \<open>One request, and the end of \<open>main\<close> once the server has stopped; errors are only logged.\<close>

definition close_store :: "DiskStore \<Rightarrow> DiskStore" where
  "close_store s = snd (engClose disk_engine s)"

fun process_serve :: "clocks \<Rightarrow> http_req \<Rightarrow> process \<Rightarrow> (int \<times> string) \<times> process" where
  "process_serve ck r (Standalone sv) =
     (let x = standalone_handler ck r (new_exchange sv) in ((xStatus x, xBody x), Standalone (xServer x)))"
| "process_serve ck r (Clustered sv) =
     (let x = cluster_handler ck r (new_exchange sv) in ((xStatus x, xBody x), Clustered (xServer x)))"

fun main_shutdown :: "process \<Rightarrow> process" where
  "main_shutdown (Standalone sv) = Standalone (sv\<lparr>svStore := close_store (svStore sv)\<rparr>)"
| "main_shutdown (Clustered sv) =
     (let n = Stop (svStore sv) in Clustered (sv\<lparr>svStore := n\<lparr>store := close_store (store n)\<rparr>\<rparr>))"

section \<open>Keys and probes\<close>

definition hex_EncodeToString :: "bytes \<Rightarrow> string" where
  "hex_EncodeToString b = concat (map (\<lambda>c. [hex_digit (byte_of c div 16), hex_digit (byte_of c mod 16)]) b)"

lemma hex_Decode_Encode: "hex_DecodeString (hex_EncodeToString b) = Some b"
proof (induction b)
  case (Cons c b)
  have "byte_of c div 16 < 16" "byte_of c mod 16 < 16" using byte_of_less [of c] by simp_all
  with Cons show ?case by (simp add: hex_EncodeToString_def)
qed (simp add: hex_EncodeToString_def)

text \<open>A key of the right size is accepted in hex, and raw unless its text happens to be hex.\<close>

lemma key_accepted:
  assumes "length b = AtRestKeySize"
  shows "decodeEncryptionKey (hex_EncodeToString b) = Inr b"
    and "hex_DecodeString b = None \<or> (\<exists>x. hex_DecodeString b = Some x \<and> length x \<noteq> AtRestKeySize) \<Longrightarrow> decodeEncryptionKey b = Inr b"
  using assms by (auto simp: decodeEncryptionKey_def hex_Decode_Encode)

lemma decoded_key_size: "decodeEncryptionKey s = Inr k \<Longrightarrow> length k = AtRestKeySize"
  by (auto simp: decodeEncryptionKey_def split: option.splits if_splits)

text \<open>A raw key is trimmed like text: one that ends in a byte that is white space is refused.\<close>

lemma raw_key_trimmed: "decodeEncryptionKey (TrimSpace (replicate 31 (CHR 0x01) @ [CHR 0x0A])) =
    Inl (ErrOther ''encryption key must be 32 bytes (64 hex chars or raw)'')"
  by code_simp

lemma resolved_key_size: "resolveEncryptionKey env rf = Inr (Some k) \<Longrightarrow> length k = AtRestKeySize"
proof -
  have "map_sum id Some x = Inr (Some k) \<Longrightarrow> x = Inr k" for x :: "bytes res" by (cases x) auto
  then show "resolveEncryptionKey env rf = Inr (Some k) \<Longrightarrow> length k = AtRestKeySize"
    by (auto simp: resolveEncryptionKey_def decoded_key_size split: if_splits sum.splits)
qed

lemma ready_iff_leader:
  assumes "rqPath r = [''readyz'']" "rqMethod r = ''GET''"
  shows "xStatus (cluster_handler ck r (new_exchange sv)) = (if HasLeader (svStore sv) then 200 else 503)"
  using assms by (simp add: cluster_handler_def withHealth_def new_exchange_def write_body_def WriteHeader_def)

text \<open>A client request goes through the same handler in both modes.\<close>

lemma api_routes:
  assumes "rqPath r \<notin> {[''healthz''], [''readyz'']}" "hd (rqPath r) \<noteq> ''raft'' \<or> rqMethod r \<noteq> ''POST''"
  shows "standalone_handler ck r x = Handler ck r x" "cluster_handler ck r y = Handler ck r y"
  using assms by (auto simp: standalone_handler_def cluster_handler_def withHealth_def raft_routes_def)

section \<open>Restart\<close>

text \<open>When the raft state cannot be read the node starts all the same, in term 0 and free to vote.\<close>

lemma unreadable_state_ignored:
  assumes "rsLoad rs rd = Inl e"
  shows "nterm (start_node i ps rs st rd) = 0 \<and> votedFor (start_node i ps rs st rd) = None \<and> nlog (start_node i ps rs st rd) = []"
  using assms by (simp add: start_node_def NewNode_def SetRaftStore_def StartApply_def SetSnapshotSink_def SetSnapshotter_def Let_def)

text \<open>What a crashed node is after \<open>main\<close> has started it again on its files: the data its store
  had, its term, vote and log, and nothing of the log applied beyond the compaction base.\<close>

lemma restart_state:
  assumes "disk_inv D (store n)" "dcipher (store n) = None" "rsLoad NewFileRaftStore (rdisk n) = Inr (durable_part n)"
    and "\<And>i. unreached D (clk i)" "0 \<le> lastIncludedIndex n"
  obtains s' where "openDiskStore None clk (power_loss (dworld (store n))) = (Inr s', dworld s')"
    "mdata (dmem s') = mdata (dmem (store n))" "disk_inv D s'" "store (start_node i ps NewFileRaftStore s' (rdisk n)) = s'"
    "nlog (start_node i ps NewFileRaftStore s' (rdisk n)) = nlog n"
    "nterm (start_node i ps NewFileRaftStore s' (rdisk n)) = nterm n"
    "votedFor (start_node i ps NewFileRaftStore s' (rdisk n)) = votedFor n"
    "lastIncludedIndex (start_node i ps NewFileRaftStore s' (rdisk n)) = lastIncludedIndex n"
    "lastApplied (start_node i ps NewFileRaftStore s' (rdisk n)) = lastIncludedIndex n"
    "engine (start_node i ps NewFileRaftStore s' (rdisk n)) = disk_engine" "\<not> stopped (start_node i ps NewFileRaftStore s' (rdisk n))"
proof -
  obtain s' where s': "openDiskStore None clk (power_loss (dworld (store n))) = (Inr s', dworld s')"
      "mdata (dmem s') = mdata (dmem (store n))" "disk_inv D s'"
    using recovery [OF assms(1), of clk] assms(2,4) by auto
  show thesis
    by (rule that [OF s'])
      (use assms(3,5) in \<open>simp_all add: start_node_def NewNode_def SetRaftStore_def StartApply_def SetSnapshotSink_def
        SetSnapshotter_def durable_part_def Let_def\<close>)
qed

text \<open>The commands between the base and what had been applied are run once more, on data that
  has them already.\<close>

lemma restart_runs_again:
  assumes "disk_inv D (store n)" "dcipher (store n) = None" "rsLoad NewFileRaftStore (rdisk n) = Inr (durable_part n)"
    and "\<And>i. unreached D (clk i)" "0 \<le> lastIncludedIndex n" "apply_ok n"
  shows "\<exists>s'. openDiskStore None clk (power_loss (dworld (store n))) = (Inr s', dworld s') \<and>
    mdata (dmem s') = mdata (dmem (store n)) \<and> disk_inv D s' \<and>
    store (applyLoop ts ((start_node i ps NewFileRaftStore s' (rdisk n))\<lparr>commitIndex := lastApplied n\<rparr>)) =
      run_cmds disk_engine ts (map entCmd (take (nat (lastApplied n - lastIncludedIndex n)) (nlog n))) s'"
proof -
  obtain s' where s': "openDiskStore None clk (power_loss (dworld (store n))) = (Inr s', dworld s')"
    "mdata (dmem s') = mdata (dmem (store n))" "disk_inv D s'" and
    n': "store (start_node i ps NewFileRaftStore s' (rdisk n)) = s'"
    "nlog (start_node i ps NewFileRaftStore s' (rdisk n)) = nlog n"
    "lastIncludedIndex (start_node i ps NewFileRaftStore s' (rdisk n)) = lastIncludedIndex n"
    "lastApplied (start_node i ps NewFileRaftStore s' (rdisk n)) = lastIncludedIndex n"
    "engine (start_node i ps NewFileRaftStore s' (rdisk n)) = disk_engine" "\<not> stopped (start_node i ps NewFileRaftStore s' (rdisk n))"
    by (rule restart_state [OF assms(1-5)])
  let ?n = "(start_node i ps NewFileRaftStore s' (rdisk n))\<lparr>commitIndex := lastApplied n\<rparr>"
  have "apply_ok ?n" using assms(6) n' by (simp add: apply_ok_def lastLogIndex_def)
  from applyLoop_runs [OF this, of ts] n' s' show ?thesis by (intro exI [of _ s']) (simp add: pending_def)
qed

lemma open_not_closed:
  assumes "openDiskStore c clk w = (Inr s, w')"
  shows "\<not> dclosed s"
proof -
  have load: "dclosed s1 = dclosed s0" if "loadSnapshot s0 = (r, s1)" for s0 s1 r
    using that by (auto simp: loadSnapshot_def fillSnapshot_def and_then_def on_wal_def Let_def
        split: option.splits sum.splits prod.splits if_splits)
  show ?thesis using assms by (auto simp: openDiskStore_def and_then_def split: prod.splits sum.splits dest: load)
qed

lemma disk_Incr_quiet:
  assumes "quiet (dworld s)" "\<not> dclosed s"
  shows "dmem (snd (disk_Incr clk k s)) = snd (mem_Incr (clk 0) k (dmem s))"
proof -
  obtain w1 where w1: "wal_append (dcipher s) (rec_bytes (RecIncr k)) (dworld s) = (Inr (), w1)"
    "logged (dcipher s) (dworld s) [RecIncr k] w1" using quiet_append [OF assms(1)] .
  have "quiet w1" using w1(2) assms(1) by (rule quiet_logged)
  moreover obtain r m where "mem_Incr (clk 0) k (dmem s) = (r, m)" by fastforce
  ultimately show ?thesis
    using assms(2) w1(1) by (cases r) (simp_all add: disk_Incr_def submit_single new_req_def writeSingle_def opIncr_def and_then_def
        on_wal_def Append_rec_bytes quiet_sync)
qed

end
