(* ===== verification/Logger.thy ===== *)
theory Logger
  imports Json Metrics
begin

text \<open>
  pkg/util/logger.go: the JSON log lines.  A field is given by its JSON, or \<open>None\<close> when
  \<open>json.Marshal\<close> refuses it.  Shown here: a line reads back as the entry that was logged, and the
  fields of the caller win over \<open>level\<close>, \<open>msg\<close> and \<open>ts\<close>.
\<close>

type_synonym log_fields = "(string, json option) fmap"

definition logf_entry :: "string \<Rightarrow> string \<Rightarrow> string \<Rightarrow> log_fields \<Rightarrow> log_fields" where
  "logf_entry level msg ts flds =
     fmupd ''ts'' (Some (JStr ts)) (fmupd ''msg'' (Some (JStr msg)) (fmupd ''level'' (Some (JStr level)) fmempty)) ++\<^sub>f flds"

definition logf :: "string \<Rightarrow> string \<Rightarrow> string \<Rightarrow> log_fields \<Rightarrow> string option" where
  "logf level msg ts flds =
     (let entry = sorted_list_of_fmap (logf_entry level msg ts flds)
      in if list_all (\<lambda>(k, v). v \<noteq> None) entry
         then Some (println (json_text (JObj (map (\<lambda>(k, v). (k, the v)) entry))))
         else None)"

definition log_Info :: "string \<Rightarrow> string \<Rightarrow> log_fields \<Rightarrow> string option" where
  "log_Info = logf ''info''"

definition log_Error :: "string \<Rightarrow> string \<Rightarrow> log_fields \<Rightarrow> string option" where
  "log_Error = logf ''error''"

lemma logf_reads_back:
  assumes "logf level msg ts flds = Some line" "\<And>k v. fmlookup flds k = Some (Some v) \<Longrightarrow> wf_json v"
  shows "json_decode line =
    Some (json_norm (JObj (map (\<lambda>(k, v). (k, the v)) (sorted_list_of_fmap (logf_entry level msg ts flds)))), nl)"
proof -
  let ?es = "sorted_list_of_fmap (logf_entry level msg ts flds)"
  have line: "line = println (json_text (JObj (map (\<lambda>(k, v). (k, the v)) ?es)))" "list_all (\<lambda>(k, v). v \<noteq> None) ?es"
    using assms(1) by (auto simp: logf_def Let_def split: if_splits)
  have "wf_json (the v)" if "(k, v) \<in> set ?es" for k v
  proof -
    have "fmlookup (logf_entry level msg ts flds) k = Some v"
      using that by (auto simp: sorted_list_of_fmap_def fmlookup_dom_iff)
    moreover have "v \<noteq> None" using that line(2) by (auto simp: list_all_iff)
    ultimately show ?thesis using assms(2) by (auto simp: logf_entry_def split: if_splits)
  qed
  then have "wf_json (JObj (map (\<lambda>(k, v). (k, the v)) ?es))" by auto
  then show ?thesis using line(1) by (simp add: println_def nl_def json_decode_text value_end_def del: json_text.simps)
qed

lemma fields_win: "fmlookup flds ''level'' = Some v \<Longrightarrow> fmlookup (logf_entry level msg ts flds) ''level'' = Some v"
  by (auto simp: logf_entry_def fmlookup_dom_iff)

end
