(* ===== verification/ServerRun.thy ===== *)
theory ServerRun
  imports ServerMain Logger
begin

text \<open>
  The life of the process in cmd/server/main.go: what is logged at the start, the requests and
  the background ticks of the store while it serves, what ends it, and the exit.  Shown here:
  whatever a standalone server was asked to do and however it ended, one started again on what
  was synced answers every read as the old one would have.
\<close>

section \<open>Serving\<close>

text \<open>\<open>expireLoop\<close> and \<open>snapshotLoop\<close> run beside the requests, also below a raft node.\<close>

datatype proc_event = Request clocks http_req | SweepTick int64 | SnapshotTick

definition on_store :: "(DiskStore \<Rightarrow> DiskStore) \<Rightarrow> process \<Rightarrow> process" where
  "on_store f p =
     (case p of
        Standalone sv \<Rightarrow> Standalone (sv\<lparr>svStore := f (svStore sv)\<rparr>)
      | Clustered sv \<Rightarrow> Clustered (sv\<lparr>svStore := (svStore sv)\<lparr>store := f (store (svStore sv))\<rparr>\<rparr>))"

fun run_event :: "proc_event \<Rightarrow> process \<Rightarrow> process" where
  "run_event (Request ck r) p = snd (process_serve ck r p)"
| "run_event (SweepTick now) p = on_store (expireLoop_tick now) p"
| "run_event SnapshotTick p = on_store snapshotLoop_tick p"

text \<open>What \<open>select\<close> receives: the result of \<open>ListenAndServe\<close> or the signal.  \<open>log.Fatal\<close> ends the
  process on the spot; otherwise \<open>main\<close> returns after the shutdown.\<close>

datatype stop_cause = ListenFailed kv_error | ListenClosed | Signalled

datatype exit = Returned | Fatal kv_error

definition main_stop :: "stop_cause \<Rightarrow> process \<Rightarrow> exit \<times> process" where
  "main_stop cause p =
     (case cause of
        ListenFailed e \<Rightarrow> (Fatal e, p)
      | ListenClosed \<Rightarrow> (Returned, main_shutdown p)
      | Signalled \<Rightarrow> (Returned, main_shutdown p))"

definition main :: "'blk surroundings \<Rightarrow> proc_event list \<Rightarrow> stop_cause \<Rightarrow> (exit \<times> process) res" where
  "main su evs cause = map_sum id (\<lambda>p. main_stop cause (fold run_event evs p)) (main_start su)"

section \<open>The log\<close>

definition listens_tls :: "(string \<Rightarrow> string) \<Rightarrow> bool" where
  "listens_tls env \<longleftrightarrow> env ''TLS_CERT'' \<noteq> ''''"

definition start_fields :: "(string \<Rightarrow> string) \<Rightarrow> bytes option \<Rightarrow> log_fields" where
  "start_fields env encKey = fmap_of_list
     [(''port'', Some (JStr (envOr env ''PORT'' defaultPort))),
      (''data_dir'', Some (JStr (envOr env ''DATA_DIR'' defaultDataDir))),
      (''peers'', Some (JStr (env ''PEERS''))),
      (''node_id'', Some (JStr (envOr env ''NODE_ID'' ''''))),
      (''tls'', Some (JBool (listens_tls env))),
      (''encrypted'', Some (JBool (encKey \<noteq> None)))]"

definition error_field :: "kv_error \<Rightarrow> log_fields" where
  "error_field e = fmap_of_list [(''error'', Some (JStr (Error_text e)))]"

text \<open>The messages from the start on, given the outcome of \<open>Shutdown\<close> and of closing the store.\<close>

definition main_log :: "(string \<Rightarrow> string) \<Rightarrow> bytes option \<Rightarrow> stop_cause \<Rightarrow> unit res \<Rightarrow> unit res \<Rightarrow> (bool \<times> string \<times> log_fields) list" where
  "main_log env encKey cause shutdown closed =
     (let failed = (\<lambda>msg r. case r of Inl e \<Rightarrow> [(False, msg, error_field e)] | Inr () \<Rightarrow> []);
          closing = failed ''graceful shutdown failed'' shutdown @ [(True, ''stopping raft node'', fmempty)] @
            [(True, ''closing storage engine'', fmempty)] @ failed ''engine close failed'' closed @
            [(True, ''server stopped'', fmempty)]
      in (True, ''kv-store starting'', start_fields env encKey) #
         (case cause of
            ListenFailed e \<Rightarrow> [(False, ''server failed'', error_field e)]
          | ListenClosed \<Rightarrow> closing
          | Signalled \<Rightarrow> (True, ''shutdown signal received'', fmempty) # closing))"

section \<open>A request keeps the store recoverable\<close>

text \<open>What a history may contain: the clock has reached no deadline in play, fields fit into log
  records, bodies are UTF-8, and a new deadline is one of those in play.\<close>

definition request_good :: "int64 set \<Rightarrow> clocks \<Rightarrow> http_req \<Rightarrow> bool" where
  "request_good D ck r \<longleftrightarrow> unreached D (ckNow ck) \<and>
     (\<forall>k \<in> set (rqPath r). length k \<le> maxRecordField) \<and> (\<forall>b. rqBody r = Inr b \<longrightarrow> valid_utf8 b) \<and>
     (\<forall>b c k. rqBody r = Inr b \<longrightarrow> unmarshal_cas b = Some c \<longrightarrow> k \<in> set (rqPath r) \<longrightarrow>
        length k + length (cbOld c) + length (cbNew c) \<le> maxRecordField \<and> valid_utf8 (cbNew c)) \<and>
     (\<forall>ttl. ParseInt (rqQuery r ''ttl'') = Some ttl \<longrightarrow> ckNow ck + ttl \<in> D)"

fun proc_event_good :: "int64 set \<Rightarrow> proc_event \<Rightarrow> bool" where
  "proc_event_good D (Request ck r) = request_good D ck r"
| "proc_event_good D (SweepTick now) = unreached D now"
| "proc_event_good D SnapshotTick = True"

lemma submit_inv:
  assumes "disk_inv D s" "req_good D (dcipher s) req" "\<And>i. unreached D (clk i)"
  shows "disk_inv D (snd (submit clk req s)) \<and> dcipher (snd (submit clk req s)) = dcipher s"
proof -
  let ?l = "batchLoop_step TimerFired (batchLoop_step (Recv req clk) (start_loop s))"
  have "loop_inv D (dcipher s) ?l" using assms by (intro batchLoop_inv start_loop_inv) simp_all
  then show ?thesis using assms(1) by (simp add: submit_def Let_def loop_inv_def)
qed

text \<open>Every operation of the store, with arguments that can be logged.\<close>

definition keeps :: "int64 set \<Rightarrow> WAL \<Rightarrow> (DiskStore \<Rightarrow> 'a \<times> DiskStore) \<Rightarrow> bool" where
  "keeps D c f \<longleftrightarrow> (\<forall>s. disk_inv D s \<longrightarrow> dcipher s = c \<longrightarrow> disk_inv D (snd (f s)) \<and> dcipher (snd (f s)) = c)"

lemma keeps_submit:
  assumes "req_good D c req" "\<And>i. unreached D (clk i)" "\<And>s. snd (f s) = snd (submit clk req s)"
  shows "keeps D c f"
  using submit_inv assms by (simp add: keeps_def)

lemma result_store:
  "snd (drop_result x) = snd x"
  "snd (disk_Incr clk k s) = snd (submit clk (new_req opIncr k) s)"
  "snd (disk_CAS clk k a b s) = snd (submit clk ((new_req opCAS k)\<lparr>brOld := a, brValue := b\<rparr>) s)"
  by (auto simp: drop_result_def disk_Incr_def disk_CAS_def split: prod.splits sum.splits brResult.splits)

lemmas req_good_defs = req_good_def new_req_def req_recs_def rec_good_def loggable_def rec_within_def field_ok_def
  maxRecordField_def maxBodyBytes_def rec_bytes_def field_bytes_def opPut_def opDelete_def opClear_def opIncr_def opCAS_def opExpire_def

lemma disk_ops_keep:
  assumes "unreached D now" "keyPattern k" "length k \<le> maxRecordField"
  shows "keeps D c (engGet disk_engine now k)" "keeps D c (engDelete disk_engine now k)" "keeps D c (engIncr disk_engine now k)"
    and "length b \<le> maxBodyBytes \<Longrightarrow> valid_utf8 b \<Longrightarrow> keeps D c (engPut disk_engine now k b)"
    and "length k + length a + length b \<le> maxRecordField \<Longrightarrow> valid_utf8 b \<Longrightarrow> keeps D c (engCAS disk_engine now k a b)"
    and "t \<in> D \<Longrightarrow> keeps D c (engExpire disk_engine now k t)"
proof -
  note k = keyPattern_utf8 [OF assms(2)]
  show "keeps D c (engGet disk_engine now k)"
    using disk_Get_calm [OF _ assms(1)] by (simp add: keeps_def disk_engine_def split: option.split)
  show "keeps D c (engDelete disk_engine now k)"
    by (rule keeps_submit [where req = "new_req opDelete k" and clk = "\<lambda>_. now"])
      (use assms k in \<open>simp_all add: req_good_defs disk_engine_def disk_Delete_def result_store\<close>)
  show "keeps D c (engIncr disk_engine now k)"
    by (rule keeps_submit [where req = "new_req opIncr k" and clk = "\<lambda>_. now"])
      (use assms k in \<open>simp_all add: req_good_defs disk_engine_def result_store\<close>)
  show "keeps D c (engPut disk_engine now k b)" if "length b \<le> maxBodyBytes" "valid_utf8 b"
    by (rule keeps_submit [where req = "(new_req opPut k)\<lparr>brValue := b\<rparr>" and clk = "\<lambda>_. now"])
      (use assms k that in \<open>simp_all add: req_good_defs disk_engine_def disk_Put_def result_store\<close>)
  show "keeps D c (engCAS disk_engine now k a b)" if "length k + length a + length b \<le> maxRecordField" "valid_utf8 b"
    by (rule keeps_submit [where req = "(new_req opCAS k)\<lparr>brOld := a, brValue := b\<rparr>" and clk = "\<lambda>_. now"])
      (use assms k that in \<open>simp_all add: req_good_defs disk_engine_def result_store\<close>)
  show "keeps D c (engExpire disk_engine now k t)" if "t \<in> D"
    by (rule keeps_submit [where req = "(new_req opExpire k)\<lparr>brExpiresAt := t\<rparr>" and clk = "\<lambda>_. now"])
      (use assms k that in \<open>simp_all add: req_good_defs disk_engine_def disk_Expire_def result_store\<close>)
qed

text \<open>An exchange over a recoverable store, and the handlers on it.\<close>

definition held :: "int64 set \<Rightarrow> WAL \<Rightarrow> DiskStore exchange \<Rightarrow> bool" where
  "held D c x \<longleftrightarrow> svEngine (xServer x) = disk_engine \<and> disk_inv D (svStore (xServer x)) \<and> dcipher (svStore (xServer x)) = c"

lemma held_writers [simp]:
  "held D c (set_header a b x) = held D c x" "held D c (WriteHeader st x) = held D c x" "held D c (write_body s x) = held D c x"
  "held D c (http_Error m st x) = held D c x" "held D c (writeJSON st j x) = held D c x"
  "held D c (write_failed r e x) = held D c x" "held D c (read_failed e x) = held D c x"
  "held D c (on_metrics f x) = held D c x" "held D c (x\<lparr>xPanic := p\<rparr>) = held D c x" "held D c (x\<lparr>xLogged := l\<rparr>) = held D c x"
  by (simp_all add: held_def read_failed_def)

lemma held_call:
  assumes "held D c x" "keeps D c f" "\<And>res y. held D c y \<Longrightarrow> held D c (k res y)"
  shows "held D c (call_engine f k x)"
proof -
  obtain r st where f: "f (svStore (xServer x)) = (r, st)" by fastforce
  have "held D c (x\<lparr>xServer := (xServer x)\<lparr>svStore := st\<rparr>\<rparr>)"
    using assms(1,2) f unfolding held_def keeps_def by (metis (no_types, lifting) Server.select_convs(1,2) Server.surjective
        Server.update_convs(2) exchange.select_convs(6) exchange.surjective exchange.update_convs(6) snd_conv)
  with assms(3) show ?thesis by (auto simp: call_engine_eq [of f x, OF f] held_def split: option.splits)
qed

lemma keeps_pure: "keeps D c (\<lambda>s. (g s, s))"
  by (simp add: keeps_def)

text \<open>The request as a handler sees it, with a key that has been validated.\<close>

lemma held_route:
  assumes "held D c x" "request_good D ck r" "keyPattern (rqKey r) \<Longrightarrow> rqKey r \<in> set (rqPath r)"
  shows "held D c (serve_route ck rt r x)"
proof (cases "keyPattern (rqKey r)")
  case True
  have g: "unreached D (ckNow ck)" "length (rqKey r) \<le> maxRecordField"
    using assms(2,3) True by (auto simp: request_good_def)
  note ops = disk_ops_keep [where c = c, OF g(1) True g(2)]
  have eng: "svEngine (xServer y) = disk_engine" if "held D c y" for y using that by (simp add: held_def)
  show ?thesis
    using assms True ops eng
    by (cases rt)
      (auto simp: serve_route_def validateKey_def limitBody_def handleGet_def handlePut_def handleDelete_def handleExpire_def
        handleIncr_def handleCAS_def handleScan_def handleMetrics_def Let_def request_good_def keeps_pure intro!: held_call
        split: sum.splits option.splits prod.splits)
next
  case False
  with assms(1) show ?thesis
    by (cases rt)
      (auto simp: serve_route_def validateKey_def handleScan_def handleMetrics_def Let_def keeps_pure intro!: held_call
        split: sum.splits option.splits prod.splits)
qed

lemma routed_key: "routes_of path = (k, rts) \<Longrightarrow> keyPattern k \<Longrightarrow> k \<in> set path"
  by (auto simp: routes_of_def keyPattern_def split: list.splits if_splits)

lemma held_mux:
  assumes "held D c x" "request_good D ck r"
  shows "held D c (mux ck r x)"
proof -
  obtain k rts where k: "routes_of (rqPath r) = (k, rts)" by fastforce
  have "request_good D ck (r\<lparr>rqKey := k\<rparr>)" using assms(2) by (simp add: request_good_def)
  then have "held D c (serve_route ck rt (r\<lparr>rqKey := k\<rparr>) x)" for rt
    using assms(1) routed_key [OF k] by (intro held_route) simp_all
  with assms(1) k show ?thesis by (auto simp: mux_def split: option.splits)
qed

lemma held_Handler:
  assumes "held D c x" "request_good D ck r"
  shows "held D c (Handler ck r x)"
proof -
  have "held D c (mux ck r y)" if "held D c y" for y using held_mux [OF that assms(2)] .
  then have "held D c (logRequests (ckElapsed ck) (mux ck) r y)" if "held D c y" for y
    using that by (auto simp: logRequests_def Let_def split: option.splits)
  with assms(1) show ?thesis by (auto simp: Handler_def cors_def recoverPanic_def Let_def split: option.splits)
qed

definition alone :: "int64 set \<Rightarrow> WAL \<Rightarrow> process \<Rightarrow> bool" where
  "alone D c p \<longleftrightarrow> (\<exists>sv. p = Standalone sv \<and> svEngine sv = disk_engine \<and> disk_inv D (svStore sv) \<and> dcipher (svStore sv) = c)"

lemma event_alone:
  assumes "alone D c p" "proc_event_good D ev"
  shows "alone D c (run_event ev p)"
proof -
  obtain sv where p: "p = Standalone sv" and sv: "svEngine sv = disk_engine" "disk_inv D (svStore sv)" "dcipher (svStore sv) = c"
    using assms(1) by (auto simp: alone_def)
  have tick: "disk_inv D (lstore (store_step e (start_loop (svStore sv))))" "dcipher (lstore (store_step e (start_loop (svStore sv)))) = c"
    if "event_good D c e" for e
    using store_step_inv [OF start_loop_inv [OF sv(2)], of e] that sv(3) by (auto simp: loop_inv_def)
  show ?thesis
  proof (cases ev)
    case (Request ck r)
    have "held D c (new_exchange sv)" using sv by (simp add: held_def new_exchange_def)
    then have "held D c (standalone_handler ck r (new_exchange sv))"
      using held_Handler assms(2) Request by (auto simp: standalone_handler_def withHealth_def)
    then show ?thesis using Request p by (simp add: alone_def held_def Let_def)
  next
    case (SweepTick now)
    then show ?thesis using tick [of "EvExpireTick now"] assms(2) sv p by (simp add: alone_def on_store_def start_loop_def)
  next
    case SnapshotTick
    then show ?thesis using tick [of EvSnapshotTick] sv p by (simp add: alone_def on_store_def start_loop_def)
  qed
qed

lemma events_alone: "alone D c p \<Longrightarrow> list_all (proc_event_good D) evs \<Longrightarrow> alone D c (fold run_event evs p)"
  by (induction evs arbitrary: p) (auto simp: event_alone)

section \<open>The shutdown\<close>

lemma close_inv:
  assumes "disk_inv D s"
  shows "disk_inv D (close_store s) \<and> dcipher (close_store s) = dcipher s \<and> mdata (dmem (close_store s)) = mdata (dmem s)"
proof (cases "dclosed s")
  case True
  then show ?thesis using assms by (simp add: close_store_def disk_engine_def disk_Close_def start_loop_def)
next
  case False
  let ?s = "s\<lparr>dclosed := True\<rparr>"
  have i: "disk_inv D ?s" using assms by (simp add: disk_inv_def)
  then have s: "quiet (dworld ?s)" "cipher_ok (dcipher ?s)" by (simp_all add: disk_inv_def)
  note comp = compact_loop_inv [OF s disk_inv_calm(2,1) [OF i]]
  have l1: "lstore (batchLoop_step ChanClosed (start_loop ?s)) = ?s"
    by (simp add: batchLoop_step_def flush_def start_loop_def writeBatch_def)
  have q: "disk_inv D (s'\<lparr>dworld := (dworld s')\<lparr>ioCnt := n\<rparr>\<rparr>) = disk_inv D s'" for s' :: DiskStore and n
    by (simp add: disk_inv_def quiet_def fully_synced_def)
  obtain r s1 where s1: "compactLocked ?s = (r, s1)" by fastforce
  have "ioAt (dworld s1) = (\<lambda>_. None)" using comp(1) s1 by (simp add: disk_inv_def quiet_def)
  with False comp l1 q s1 show ?thesis
    by (simp add: close_store_def disk_engine_def disk_Close_def Let_def compact_def on_wal_def wal_Close_def io_raw_def start_loop_def)
qed

text \<open>However the process ends, the store it leaves is recoverable and holds the data it had.\<close>

definition proc_data :: "process \<Rightarrow> (string, entry) fmap" where
  "proc_data p = (case p of Standalone sv \<Rightarrow> mdata (dmem (svStore sv)) | Clustered sv \<Rightarrow> mdata (dmem (store (svStore sv))))"

definition proc_world :: "process \<Rightarrow> world" where
  "proc_world p = (case p of Standalone sv \<Rightarrow> dworld (svStore sv) | Clustered sv \<Rightarrow> dworld (store (svStore sv)))"

lemma stop_alone:
  assumes "alone D c p"
  shows "alone D c (snd (main_stop cause p)) \<and> proc_data (snd (main_stop cause p)) = proc_data p"
proof -
  obtain sv where "p = Standalone sv" "svEngine sv = disk_engine" "disk_inv D (svStore sv)" "dcipher (svStore sv) = c"
    using assms by (auto simp: alone_def)
  with close_inv [of D "svStore sv"] show ?thesis
    by (cases cause) (simp_all add: main_stop_def alone_def proc_data_def)
qed

section \<open>Reads\<close>

definition is_read :: "http_req \<Rightarrow> bool" where
  "is_read r \<longleftrightarrow> rqMethod r \<in> {''GET'', ''HEAD''} \<and> (rqPath r = [''kv''] \<or> (\<exists>k. rqPath r = [''kv'', k]))"

lemma scan_data: "mdata m' = mdata m \<Longrightarrow> mem_Scan now cursor cnt pat m' = mem_Scan now cursor cnt pat m"
  by (simp add: mem_Scan_def)

text \<open>What a read answers depends on the data only.\<close>

lemma read_route:
  fixes r :: http_req
  assumes "alone D c (Standalone sv)" "alone D c' (Standalone sv')" "mdata (dmem (svStore sv)) = mdata (dmem (svStore sv'))"
    and "unreached D (ckNow ck)" "rt \<in> {RGet, RScan}"
  defines "x \<equiv> serve_route ck rt r (entered sv)" and "y \<equiv> serve_route ck rt r (entered sv')"
  shows "xStatus x = xStatus y \<and> xBody x = xBody y \<and> xPanic x = None \<and> xPanic y = None"
proof -
  have e: "svEngine sv = disk_engine" "svEngine sv' = disk_engine" "disk_inv D (svStore sv)" "disk_inv D (svStore sv')"
    using assms(1,2) by (auto simp: alone_def)
  note get = disk_Get_calm [OF e(3) assms(4)] disk_Get_calm [OF e(4) assms(4)]
  have scan: "mem_Scan (ckNow ck) a n b (dmem (svStore sv)) = mem_Scan (ckNow ck) a n b (dmem (svStore sv'))" for a n b
    by (rule scan_data [OF assms(3)])
  have np: "is_panic (mem_Scan t a n b m) = None" for t a n b m
    by (simp add: mem_Scan_def is_panic_def Let_def)
  show ?thesis
    using assms(5) get assms(3) e scan np
    by (auto simp: x_def y_def serve_route_def validateKey_def handleGet_def handleScan_def call_engine_def disk_engine_def
        disk_Scan_def is_panic_def Let_def http_Error_def writeJSON_def split: option.splits sum.splits prod.splits)
qed

lemma read_same:
  assumes "alone D c p" "alone D c' p'" "proc_data p = proc_data p'" "unreached D (ckNow ck)" "is_read r"
  shows "fst (process_serve ck r p) = fst (process_serve ck r p')"
proof -
  obtain sv sv' where p: "p = Standalone sv" "p' = Standalone sv'" using assms(1,2) by (auto simp: alone_def)
  have api: "standalone_handler ck r (new_exchange s) = serve ck r s" for s :: "DiskStore Server"
    using assms(5) by (auto simp: is_read_def standalone_handler_def withHealth_def serve_def)
  have m: "rqMethod r \<noteq> ''OPTIONS''" using assms(5) by (auto simp: is_read_def)
  obtain k rts where k: "routes_of (rqPath r) = (k, rts)" by fastforce
  have rt: "map_of rts (rqMethod r) = None \<or> map_of rts (rqMethod r) \<in> Some ` {RGet, RScan}"
    using assms(5) k by (auto simp: is_read_def routes_of_def split: if_splits)
  let ?x = "mux ck r (entered sv)" and ?y = "mux ck r (entered sv')"
  have "xStatus ?x = xStatus ?y \<and> xBody ?x = xBody ?y \<and> xPanic ?x = None \<and> xPanic ?y = None"
  proof (cases "map_of rts (rqMethod r)")
    case None
    then show ?thesis by (simp add: mux_def k http_Error_def)
  next
    case (Some t)
    then show ?thesis
      using read_route [of D c sv c' sv' ck t "r\<lparr>rqKey := k\<rparr>"] assms(1-4) p rt
      by (auto simp: mux_def k proc_data_def)
  qed
  then show ?thesis
    using serve_fields(3) [OF m, of ck sv] serve_fields(3) [OF m, of ck sv'] by (simp add: p api Let_def)
qed

section \<open>Starting again\<close>

lemma opened_wal: "(case c of Some ci \<Rightarrow> OpenWALEncrypted ci | None \<Rightarrow> OpenWAL) w = (Inr c', w') \<Longrightarrow> c' = c"
  by (auto simp: OpenWALEncrypted_def OpenWAL_def and_then_def split: prod.splits sum.splits option.splits if_splits)

lemma opened_cipher: "openDiskStore c clk w = (Inr s, w') \<Longrightarrow> dcipher s = c"
proof -
  have load: "dcipher s1 = dcipher s0" if "loadSnapshot s0 = (r, s1)" for s0 s1 r
    using that by (auto simp: loadSnapshot_def fillSnapshot_def and_then_def on_wal_def Let_def
        split: option.splits sum.splits prod.splits if_splits)
  assume "openDiskStore c clk w = (Inr s, w')"
  then show "dcipher s = c"
    by (auto simp: openDiskStore_def and_then_def split: prod.splits sum.splits dest!: load opened_wal)
qed

text \<open>The store of a standalone process is opened with the cipher of its key, so on other files
  with the same configuration it is opened in the same way.\<close>

lemma reopen_store:
  assumes "open_store su encKey = Inr s" "fst (openDiskStore (dcipher s) clk w) = Inr s'"
  shows "open_store (su\<lparr>suWorld := w, suClock := clk\<rparr>) encKey = Inr s'"
proof -
  obtain c w1 where c: "openDiskStore c (suClock su) (suWorld su) = (Inr s, w1)"
      "encKey = None \<and> c = None \<or> (\<exists>k ci. encKey = Some k \<and> c = Some ci \<and> newAtRestCipher (suNewAES su) (suNewGCM su) k = Inr ci)"
    using assms(1)
    by (cases encKey)
      (auto simp: open_store_def OpenDiskStore_def OpenDiskStoreWithKey_def split: sum.splits, (metis prod.collapse)+)
  then have "dcipher s = c" by (auto dest: opened_cipher)
  with c(2) assms(2) show ?thesis by (auto simp: open_store_def OpenDiskStore_def OpenDiskStoreWithKey_def)
qed

lemma start_again:
  assumes "main_start su = Inr (Standalone sv)" "fst (openDiskStore (dcipher (svStore sv)) clk w) = Inr s'"
  shows "main_start (su\<lparr>suWorld := w, suClock := clk\<rparr>) =
    Inr (Standalone (NewServer disk_engine s' (Some disk_Size) (Some disk_ExpiredCount) (suNow su)))"
proof -
  obtain encKey where k: "resolveEncryptionKey (suEnv su) (suReadFile su) = Inr encKey" "open_store su encKey = Inr (svStore sv)"
      "suEnv su ''PEERS'' = ''''" "(suEnv su ''TLS_CERT'' = '''') = (suEnv su ''TLS_KEY'' = '''')"
    using assms(1) by (auto simp: main_start_def Let_def NewServer_def split: sum.splits if_splits)
  from reopen_store [OF k(2) assms(2)] k show ?thesis by (simp add: main_start_def Let_def)
qed

lemma start_engine: "main_start su = Inr (Standalone sv) \<Longrightarrow> svEngine sv = disk_engine"
  by (auto simp: main_start_def Let_def NewServer_def split: sum.splits if_splits)

text \<open>The whole life of a standalone server, and its next start after a power loss.\<close>

lemma restart_answers:
  assumes "main_start su = Inr (Standalone sv)" "disk_inv D (svStore sv)" "list_all (proc_event_good D) evs"
    and "main su evs cause = Inr (ex, p)" "\<And>i. unreached D (clk i)"
  shows "\<exists>p'. main_start (su\<lparr>suWorld := power_loss (proc_world p), suClock := clk\<rparr>) = Inr p' \<and>
    (\<forall>ck r. is_read r \<longrightarrow> unreached D (ckNow ck) \<longrightarrow> fst (process_serve ck r p') = fst (process_serve ck r p))"
proof -
  let ?c = "dcipher (svStore sv)"
  have "alone D ?c (Standalone sv)" using assms(1,2) start_engine by (simp add: alone_def)
  from stop_alone [OF events_alone [OF this assms(3)], of cause]
  have p: "alone D ?c p" using assms(1,4) by (auto simp: main_def)
  then obtain svp where svp: "p = Standalone svp" "disk_inv D (svStore svp)" "dcipher (svStore svp) = ?c" by (auto simp: alone_def)
  obtain s' where s': "openDiskStore ?c clk (power_loss (dworld (svStore svp))) = (Inr s', dworld s')"
      "mdata (dmem s') = mdata (dmem (svStore svp))" "disk_inv D s'" "dcipher s' = ?c"
    using recovery [OF svp(2), of clk] assms(5) svp(3) by auto
  let ?p' = "Standalone (NewServer disk_engine s' (Some disk_Size) (Some disk_ExpiredCount) (suNow su))"
  have "main_start (su\<lparr>suWorld := power_loss (proc_world p), suClock := clk\<rparr>) = Inr ?p'"
    using start_again [OF assms(1), of clk] s'(1) by (simp add: svp(1) proc_world_def)
  moreover have "alone D ?c ?p'" "proc_data ?p' = proc_data p"
    using s' by (simp_all add: alone_def NewServer_def proc_data_def svp(1))
  ultimately show ?thesis using read_same [OF _ p] by blast
qed

end
