(* ===== verification/RecordLimit.thy ===== *)
theory RecordLimit
  imports ApiDisk
begin

text \<open>
  The bound \<open>maxRecordField\<close> of pkg/storage/wal.go.  Its comment relies on the HTTP layer to refuse
  larger fields.  The body of a compare-and-swap is bounded before it is decoded, and decoding
  replaces every byte that is not UTF-8 by the three bytes of U+FFFD, so a body within the bound
  can carry a field beyond it.  Shown here: such a swap is acknowledged and logged, and the log
  cannot be replayed any more.
\<close>

section \<open>The reader of the log\<close>

lemma readString_big:
  assumes "maxRecordField < length s" "length s < 2 ^ 32"
  shows "\<exists>e r. readString (field_bytes s @ rest) rem = (Inl e, r)"
proof -
  have n: "unat (of_nat (length s) :: uint32) = length s" using assms(2) by (rule unat_of_nat_uint32)
  then have "Uint32 (be_bytes 4 (length s)) = of_nat (length s)" using Uint32_be_bytes [of "of_nat (length s)"] by simp
  with n assms(1) show ?thesis by (simp add: readString_def ReadFull_def field_bytes_def Let_def)
qed

lemma replayPlain_big:
  assumes "list_all rec_ok rs" "field_ok k" "field_ok old" "maxRecordField < length new" "length new < 2 ^ 32"
  shows "\<exists>e m'. replayPlain clk (recs_bytes (rs @ [RecCAS k old new])) m = (Inl e, m')"
proof -
  let ?rc = "RecCAS k old new"
  obtain e r where big: "readString (field_bytes new) (4 + int (length new)) = (Inl e, r)"
    using readString_big [OF assms(4,5), of "[]"] by fastforce
  have "\<exists>e r. applyRecord now (rec_op ?rc) (rec_fields ?rc) (int (length (rec_fields ?rc))) m' = (Inl e, r, m')" for now m'
    using readString_field [OF assms(2), of "int (length (rec_fields ?rc))" "field_bytes old @ field_bytes new"]
      readString_field [OF assms(3), of "int (length (rec_fields ?rc)) - (4 + int (length k))" "field_bytes new"] big
    by (simp add: applyRecord_def read_field_def)
  then obtain e' r' where "applyRecord (clk (length rs)) (rec_op ?rc) (rec_fields ?rc) (int (length (rec_fields ?rc)))
      (recs_apply clk 0 rs m) = (Inl e', r', recs_apply clk 0 rs m)" by blast
  then show ?thesis
    using replay_loop_recs [OF assms(1), of "int (length (recs_bytes (rs @ [?rc])))" clk 0 "rec_bytes ?rc" m]
    by (simp add: replayPlain_def rec_bytes_def replay_loop.simps add.commute)
qed

lemma open_big:
  assumes "quiet w" "snap_holds None (snapFile w) d" "walFile w = recs_bytes (rs @ [RecCAS k old new])" "list_all rec_ok rs"
    and "field_ok k" "field_ok old" "maxRecordField < length new" "length new < 2 ^ 32"
  shows "\<exists>e. fst (openDiskStore None clk w) = Inl e"
proof -
  let ?w = "w\<lparr>ioCnt := ioCnt w + 1\<rparr>"
  obtain w1 where w1: "OpenWAL ?w = (Inr None, w1)" "same_files ?w w1"
    using assms(1) by (auto simp: OpenWAL_def and_then_def io_call_quiet quiet_def same_files_def)
  have f: "walFile w1 = walFile w" "snapFile w1 = snapFile w" "quiet w1"
    using same_files_simps [OF w1(2)] assms(1) by (simp_all add: quiet_def)
  obtain e m' where "replayPlain clk (walFile w) (NewMemStore\<lparr>mdata := d\<rparr>) = (Inl e, m')"
    using replayPlain_big [OF assms(4-8)] assms(3) by metis
  then show ?thesis
    using open_steps [of w None w1 d clk] assms(1,2) w1(1) f by (auto simp: Replay_def)
qed

section \<open>The swap\<close>

lemma disk_CAS_logged:
  assumes "disk_inv D s" "dcipher s = None" "\<not> dclosed s" "\<And>i. unreached D (clk i)"
    and "fmlookup (mdata (dmem s)) k = Some e" "eValue e = old"
  obtains s' where "disk_CAS clk k old new s = (Inr True, s')" "advances [RecCAS k old new] s s'"
proof -
  have q: "quiet (dworld s)" using assms(1) by (simp add: disk_inv_def)
  note calm = disk_inv_calm(1) [OF assms(1)]
  obtain w1 where w1: "wal_append (dcipher s) (rec_bytes (RecCAS k old new)) (dworld s) = (Inr (), w1)"
    "logged (dcipher s) (dworld s) [RecCAS k old new] w1" using quiet_append [OF q] .
  have "quiet w1" using w1(2) q by (rule quiet_logged)
  have live: "\<not> entryExpired e (clk i)" for i using calm_not_expired [OF calm assms(4,5)] .
  obtain s' where s': "disk_CAS clk k old new s = (Inr True, s')" "s' = snd (writeSingle clk ((new_req opCAS k)\<lparr>brOld := old, brValue := new\<rparr>) s)"
    using assms(3,5,6) live w1 \<open>quiet w1\<close>
    by (auto simp: disk_CAS_def submit_single new_req_def writeSingle_def and_then_def on_wal_def Append_rec_bytes quiet_sync
        mem_Get_def mem_CAS_def opCAS_def opIncr_def Let_def split: prod.splits sum.splits)
  show thesis
  proof (rule that [OF s'(1)])
    show "advances [RecCAS k old new] s s'"
      using assms(3,5,6) live w1 \<open>quiet w1\<close> rec_apply_calm [OF calm assms(4), of 1 "RecCAS k old new"] s'(2)
      by (auto simp: new_req_def writeSingle_def and_then_def on_wal_def Append_rec_bytes quiet_sync
          mem_Get_def mem_CAS_def mem_Put_def opCAS_def opIncr_def Let_def advances_def logged_sync fully_synced_def split: prod.splits sum.splits)
  qed
qed

section \<open>The body\<close>

text \<open>A swap from \<open>old\<close> to \<open>n\<close> bytes none of which begins a UTF-8 sequence.\<close>

definition junk_cas :: "string \<Rightarrow> nat \<Rightarrow> string" where
  "junk_cas old n =
     ''{'' @ quote ''old'' @ '':'' @ quote old @ '','' @ quote ''new'' @ '':'' @ CHR 0x22 # replicate n (CHR 0xFF) @ [CHR 0x22] @ ''}''"

definition junk_value :: "nat \<Rightarrow> string" where
  "junk_value n = concat (replicate n replacement)"

lemma junk_value_length: "length (junk_value n) = 3 * n"
  by (induction n) (simp_all add: junk_value_def replacement_def)

lemma junk_cas_length: "length (junk_cas old n) = n + length (junk_cas old 0)"
  by (simp add: junk_cas_def)

lemma read_string_junk: "read_string (replicate n (CHR 0xFF) @ CHR 0x22 # rest) = Some (junk_value n, rest)"
proof (induction n)
  case (Suc n)
  have "utf8_len (CHR 0xFF # s) = 0" for s
    by (cases "(255::nat, s)" rule: utf8_len2.cases) (simp_all add: utf8_len.simps utf8_len2.simps byte_of_def)
  with Suc show ?case by (simp add: read_string.simps junk_value_def byte_of_def Let_def)
qed (simp add: read_string.simps junk_value_def)

lemma unmarshal_junk:
  assumes "valid_utf8 old"
  shows "unmarshal_cas (junk_cas old n) = Some \<lparr>cbOld = old, cbNew = junk_value n\<rparr>"
proof -
  have c: "coerce_utf8 old = old" "coerce_utf8 ''old'' = ''old''" "coerce_utf8 ''new'' = ''new''"
    using assms by (auto intro!: coerce_valid valid_utf8_ascii simp: byte_of_def)
  obtain f where f: "2 * length (junk_cas old n) + 2 = Suc (Suc (Suc (Suc (Suc f))))"
    by (rule that [of "2 * length (junk_cas old n) - 3"]) (simp add: junk_cas_def quote_def)
  have "json_decode (junk_cas old n) = Some (JObj [(''old'', JStr old), (''new'', JStr (junk_value n))], [])"
    unfolding json_decode_def f
    by (simp add: junk_cas_def quote_def c read_string_escape read_string_junk)
  then show ?thesis by (simp add: unmarshal_cas_def json_parse_def dec_cas_body_def find_field_def)
qed

section \<open>The request\<close>

lemma junk_swap:
  assumes "svEngine sv = disk_engine" "disk_inv D (svStore sv)" "dcipher (svStore sv) = None" "\<not> dclosed (svStore sv)"
    and "fmlookup (mdata (dmem (svStore sv))) k = Some e" "keyPattern k" "field_ok k" "field_ok (eValue e)" "unreached D (ckNow ck)"
    and "rqMethod r = ''PUT''" "rqPath r = [''kv'', k, ''cas'']" "rqBody r = Inr (junk_cas (eValue e) n)"
    and "length (junk_cas (eValue e) n) \<le> maxBodyBytes" "maxRecordField < 3 * n"
  shows "xStatus (serve ck r sv) = 200 \<and>
    (\<exists>err. fst (openDiskStore None clk (power_loss (dworld (svStore (xServer (serve ck r sv)))))) = Inl err)"
proof -
  let ?s = "svStore sv" and ?new = "junk_value n"
  have "valid_utf8 (eValue e)" using disk_inv_calm(2) [OF assms(2)] assms(5) by (auto simp: utf8_data_def)
  note body = unmarshal_junk [OF this, of n]
  obtain s' where cas: "disk_CAS (\<lambda>_. ckNow ck) k (eValue e) ?new ?s = (Inr True, s')" "advances [RecCAS k (eValue e) ?new] ?s s'"
    using disk_CAS_logged [OF assms(2-4) assms(9) assms(5) refl] by blast
  have op: "engCAS (svEngine sv) (ckNow ck) k (eValue e) ?new ?s = (Inr True, s')" using cas(1) by (simp add: assms(1) disk_engine_def)
  note w = serve_cas [OF assms(10,11,6,12,13) body, of sv ck, simplified, OF op]
  obtain d rs where i: "quiet (dworld ?s)" "fully_synced (dworld ?s)" "snap_holds None (snapFile (dworld ?s)) d"
      "walFile (dworld ?s) = recs_bytes rs" "list_all rec_ok rs"
    using assms(2,3) by (auto simp: disk_inv_def wal_image_def)
  have w': "walFile (dworld s') = recs_bytes (rs @ [RecCAS k (eValue e) ?new])" "snapFile (dworld s') = snapFile (dworld ?s)"
      "quiet (dworld s')" "power_loss (dworld s') = dworld s'"
    using cas(2) i assms(3) by (auto simp: advances_def logged_def power_loss_def fully_synced_def quiet_def)
  have "n \<le> length (junk_cas (eValue e) n)" by (simp add: junk_cas_def)
  then have "length ?new < 2 ^ 32" "maxRecordField < length ?new"
    using assms(13,14) by (simp_all add: junk_value_length maxBodyBytes_def)
  from open_big [OF w'(3) _ w'(1) i(5) assms(7,8) this(2,1), of d clk] i(3) w'(2,4) w show ?thesis by simp
qed

end
