(* ===== verification/Faults.thy ===== *)
theory Faults
  imports Complex_Main Transport RaftPersist
begin

text \<open>
  pkg/chaos/faults.go and pkg/chaos/transport.go: the fault model of the chaos harness, the
  transport that injects message faults and the raft store that injects fsync failures.  The
  numbers the seeded generator draws are functions given to \<open>newFaultConfig\<close>; rates, which are
  only compared, are reals.  Shown here: a
  partition drops exactly the messages between its sides, a message is delivered at most twice,
  and the faulty store still keeps the contract \<open>raft_store\<close>.
\<close>

section \<open>The fault model\<close>

datatype fault_Kind =
    FaultCrash | FaultLeaderIsolation | FaultMinorityPartition | FaultMajorityPartition | FaultAsymmetricPartition
  | FaultPacketLoss | FaultDuplication | FaultReordering | FaultDelay | FaultClockSkew | FaultFsError

record Fault =
  fKind :: fault_Kind
  fTarget :: string
  fPeer :: string
  fAt :: int64
  fFor :: int64
  fRate :: real
  fDelay :: int64

text \<open>\<open>rngFloat i\<close> and \<open>rngInt i n\<close> are what the i-th draw gives as \<open>Float64()\<close> and as \<open>IntN(n)\<close>.\<close>

record FaultConfig =
  rngFloat :: "nat \<Rightarrow> real"
  rngInt :: "nat \<Rightarrow> int \<Rightarrow> int"
  rngCnt :: nat
  isolated :: "string \<Rightarrow> bool"
  edgeDrop :: "string \<times> string \<Rightarrow> bool"
  lossRate :: real
  dupRate :: real
  reorder :: real
  delayMin :: int64
  delayMax :: int64
  skew :: "string \<Rightarrow> int64"
  failFsync :: "string \<Rightarrow> bool"

definition newFaultConfig :: "(nat \<Rightarrow> real) \<Rightarrow> (nat \<Rightarrow> int \<Rightarrow> int) \<Rightarrow> FaultConfig" where
  "newFaultConfig floats ints =
     \<lparr>rngFloat = floats, rngInt = ints, rngCnt = 0, isolated = (\<lambda>_. False), edgeDrop = (\<lambda>_. False), lossRate = 0,
      dupRate = 0, reorder = 0, delayMin = 0, delayMax = 0, skew = (\<lambda>_. 0), failFsync = (\<lambda>_. False)\<rparr>"

definition drawn :: "FaultConfig \<Rightarrow> FaultConfig" where
  "drawn c = c\<lparr>rngCnt := rngCnt c + 1\<rparr>"

text \<open>\<open>rate > 0 && rng.Float64() < rate\<close>: nothing is drawn when the rate is zero.\<close>

definition chance :: "real \<Rightarrow> FaultConfig \<Rightarrow> bool \<times> FaultConfig" where
  "chance rate c = (if rate > 0 then (rngFloat c (rngCnt c) < rate, drawn c) else (False, c))"

definition draw_below :: "int64 \<Rightarrow> FaultConfig \<Rightarrow> int64 \<times> FaultConfig" where
  "draw_below d c = (word_of_int (rngInt c (rngCnt c) (sint d)), drawn c)"

definition route :: "string \<Rightarrow> string \<Rightarrow> FaultConfig \<Rightarrow> (bool \<times> int64) \<times> FaultConfig" where
  "route from to c =
     (if isolated c from \<or> isolated c to then ((True, 0), c)
      else if edgeDrop c (from, to) then ((True, 0), c)
      else
        case chance (lossRate c) c of
          (True, c1) \<Rightarrow> ((True, 0), c1)
        | (False, c1) \<Rightarrow>
            let (latency, c2) =
                  (if sint (delayMax c1) > sint (delayMin c1)
                   then (case draw_below (delayMax c1 - delayMin c1) c1 of (d, c2) \<Rightarrow> (delayMin c1 + d, c2))
                   else (delayMin c1, c1));
                latency1 = latency + skew c2 from
            in (case chance (reorder c2) c2 of
                  (False, c3) \<Rightarrow> ((False, latency1), c3)
                | (True, c3) \<Rightarrow>
                    let jitter = (if sint (delayMax c3) > 100000000 then delayMax c3 else 100000000)
                    in (case draw_below jitter c3 of (d, c4) \<Rightarrow> ((False, latency1 + d), c4))))"

definition shouldDuplicate :: "FaultConfig \<Rightarrow> bool \<times> FaultConfig" where
  "shouldDuplicate c = chance (dupRate c) c"

definition fsyncFails :: "string \<Rightarrow> FaultConfig \<Rightarrow> bool" where
  "fsyncFails i c \<longleftrightarrow> failFsync c '''' \<or> failFsync c i"

definition setPartition :: "string list \<Rightarrow> string list \<Rightarrow> FaultConfig \<Rightarrow> FaultConfig" where
  "setPartition side all c =
     fold (\<lambda>a. fold (\<lambda>b c.
       if (a \<in> set side) \<noteq> (b \<in> set side)
       then c\<lparr>edgeDrop := (edgeDrop c)((a, b) := True, (b, a) := True)\<rparr> else c) all) all c"

definition clearPartition :: "FaultConfig \<Rightarrow> FaultConfig" where
  "clearPartition c = c\<lparr>edgeDrop := (\<lambda>_. False)\<rparr>"

definition setEdgeDrop :: "string \<Rightarrow> string \<Rightarrow> FaultConfig \<Rightarrow> FaultConfig" where
  "setEdgeDrop from to c = c\<lparr>edgeDrop := (edgeDrop c)((from, to) := True)\<rparr>"

definition clearEdgeDrop :: "string \<Rightarrow> string \<Rightarrow> FaultConfig \<Rightarrow> FaultConfig" where
  "clearEdgeDrop from to c = c\<lparr>edgeDrop := (edgeDrop c)((from, to) := False)\<rparr>"

definition setLoss :: "real \<Rightarrow> FaultConfig \<Rightarrow> FaultConfig" where
  "setLoss rate c = c\<lparr>lossRate := rate\<rparr>"

definition setDup :: "real \<Rightarrow> FaultConfig \<Rightarrow> FaultConfig" where
  "setDup rate c = c\<lparr>dupRate := rate\<rparr>"

definition setReorder :: "real \<Rightarrow> int64 \<Rightarrow> FaultConfig \<Rightarrow> FaultConfig" where
  "setReorder rate jitter c =
     (let c1 = c\<lparr>reorder := rate\<rparr> in if sint jitter > 0 then c1\<lparr>delayMax := jitter\<rparr> else c1)"

definition setDelay :: "int64 \<Rightarrow> FaultConfig \<Rightarrow> FaultConfig" where
  "setDelay d c = c\<lparr>delayMin := d, delayMax := d\<rparr>"

definition setSkew :: "string \<Rightarrow> int64 \<Rightarrow> FaultConfig \<Rightarrow> FaultConfig" where
  "setSkew i d c = c\<lparr>skew := (skew c)(i := d)\<rparr>"

definition clearSkew :: "string \<Rightarrow> FaultConfig \<Rightarrow> FaultConfig" where
  "clearSkew i c = c\<lparr>skew := (skew c)(i := 0)\<rparr>"

definition setFsync :: "string \<Rightarrow> bool \<Rightarrow> FaultConfig \<Rightarrow> FaultConfig" where
  "setFsync i on c = c\<lparr>failFsync := (failFsync c)(i := on)\<rparr>"

section \<open>The transport and the store\<close>

definition errDropped :: kv_error where
  "errDropped = ErrOther ''chaos: message dropped''"

text \<open>The three methods of \<open>faultTransport\<close> differ in the call they wrap; the sleep only lets time
  pass.\<close>

definition fault_call ::
    "string \<Rightarrow> string \<Rightarrow> ('w \<Rightarrow> 'r res \<times> 'w) \<Rightarrow> FaultConfig \<times> 'w \<Rightarrow> 'r res \<times> FaultConfig \<times> 'w" where
  "fault_call i peer call cw =
     (case cw of (c, w) \<Rightarrow>
        case route i peer c of
          ((True, _), c1) \<Rightarrow> (Inl errDropped, c1, w)
        | ((False, _), c1) \<Rightarrow>
            (case shouldDuplicate c1 of
               (dup, c2) \<Rightarrow>
                 let w1 = (if dup then snd (call w) else w)
                 in (case call w1 of (r, w2) \<Rightarrow> (r, c2, w2))))"

definition fault_RequestVote where
  "fault_RequestVote i peer req = fault_call i peer (mem_RequestVote peer req)"

definition fault_AppendEntries where
  "fault_AppendEntries i peer req = fault_call i peer (mem_AppendEntries peer req)"

definition fault_InstallSnapshot where
  "fault_InstallSnapshot i peer req = fault_call i peer (mem_InstallSnapshot peer req)"

text \<open>\<open>fails\<close> is \<open>cfg.fsyncFails(id)\<close> at the time of the call; \<open>Load\<close> is the embedded store's.\<close>

definition faultStore :: "bool \<Rightarrow> 'd RaftStore \<Rightarrow> 'd RaftStore" where
  "faultStore fails rs =
     \<lparr>rsSave = (\<lambda>st d. if fails then (Inl errDropped, d) else rsSave rs st d), rsLoad = rsLoad rs\<rparr>"

section \<open>What they do\<close>

lemma fold_edges:
  "edgeDrop (fold (\<lambda>b c. if P b then c\<lparr>edgeDrop := (edgeDrop c)((a, b) := True, (b, a) := True)\<rparr> else c) bs c) (x, y) \<longleftrightarrow>
    edgeDrop c (x, y) \<or> (\<exists>b \<in> set bs. P b \<and> ((x, y) = (a, b) \<or> (x, y) = (b, a)))"
  by (induction bs arbitrary: c) auto

text \<open>Between the sides of a partition everything is cut, inside a side nothing is.\<close>

lemma setPartition_edge:
  "edgeDrop (setPartition side all c) (x, y) \<longleftrightarrow>
    edgeDrop c (x, y) \<or> x \<in> set all \<and> y \<in> set all \<and> (x \<in> set side) \<noteq> (y \<in> set side)"
proof -
  let ?f = "\<lambda>a. fold (\<lambda>b c. if (a \<in> set side) \<noteq> (b \<in> set side)
    then c\<lparr>edgeDrop := (edgeDrop c)((a, b) := True, (b, a) := True)\<rparr> else c) all"
  have "edgeDrop (fold ?f xs c) (x, y) \<longleftrightarrow> edgeDrop c (x, y) \<or>
      (\<exists>a \<in> set xs. \<exists>b \<in> set all. (a \<in> set side) \<noteq> (b \<in> set side) \<and> ((x, y) = (a, b) \<or> (x, y) = (b, a)))" for xs
  proof (induction xs arbitrary: c)
    case (Cons a xs)
    show ?case unfolding fold_Cons o_apply Cons fold_edges by auto
  qed simp
  from this [of all] show ?thesis unfolding setPartition_def by auto
qed

lemma setPartition_keeps:
  assumes "\<And>c e. g (c\<lparr>edgeDrop := e\<rparr>) = g c"
  shows "g (setPartition side all c) = g c"
proof -
  have inner: "g (fold (\<lambda>b c. if P b then c\<lparr>edgeDrop := (edgeDrop c)((a, b) := True, (b, a) := True)\<rparr> else c) bs c) = g c"
    for P a bs c by (induction bs arbitrary: c) (simp_all add: assms)
  have "g (fold (\<lambda>a. fold (\<lambda>b c. if (a \<in> set side) \<noteq> (b \<in> set side)
      then c\<lparr>edgeDrop := (edgeDrop c)((a, b) := True, (b, a) := True)\<rparr> else c) all) xs c) = g c" for xs
    by (induction xs arbitrary: c) (simp_all add: inner)
  then show ?thesis by (simp add: setPartition_def)
qed

lemma setPartition_fields [simp]:
  "lossRate (setPartition side all c) = lossRate c" "dupRate (setPartition side all c) = dupRate c"
  "reorder (setPartition side all c) = reorder c" "delayMin (setPartition side all c) = delayMin c"
  "skew (setPartition side all c) = skew c" "failFsync (setPartition side all c) = failFsync c"
  "isolated (setPartition side all c) = isolated c"
  by (rule setPartition_keeps, simp)+

text \<open>A configuration in which nothing is lost but what the edges say.\<close>

definition lossless :: "FaultConfig \<Rightarrow> bool" where
  "lossless c \<longleftrightarrow> lossRate c \<le> 0 \<and> isolated c = (\<lambda>_. False)"

lemma route_lossless: "lossless c \<Longrightarrow> fst (fst (route x y c)) \<longleftrightarrow> edgeDrop c (x, y)"
  by (auto simp: lossless_def route_def chance_def Let_def split: prod.splits bool.splits if_splits)

lemma setPartition_lossless: "lossless c \<Longrightarrow> lossless (setPartition side all c)"
  by (simp add: lossless_def)

lemma partition_routes:
  assumes "lossless c" "edgeDrop c = (\<lambda>_. False)" "x \<in> set all" "y \<in> set all"
  shows "fst (fst (route x y (setPartition side all c))) \<longleftrightarrow> (x \<in> set side) \<noteq> (y \<in> set side)"
  using assms by (simp add: route_lossless setPartition_lossless setPartition_edge)

text \<open>Clearing a partition leaves no edge cut, an asymmetric cut of another fault included.\<close>

lemma clearPartition_routes: "lossless c \<Longrightarrow> \<not> fst (fst (route x y (clearPartition c)))"
  by (subst route_lossless) (simp_all add: lossless_def clearPartition_def)

text \<open>Clearing a reordering fault keeps its jitter as the maximal delay.\<close>

lemma reorder_leaves_delay:
  "0 < sint d \<Longrightarrow> delayMax (setReorder 0 0 (setReorder r d c)) = d"
  by (simp add: setReorder_def)

text \<open>A call through the fault transport is dropped, made once, or made twice.\<close>

lemma fault_call_cases:
  assumes "fault_call i peer call (c, w) = (r, c', w')"
  shows "r = Inl errDropped \<and> w' = w \<or> (r, w') = call w \<or> (r, w') = call (snd (call w))"
  using assms by (auto simp: fault_call_def Let_def split: prod.splits bool.splits if_splits)

text \<open>With the base store's contract the faulty store has it too.\<close>

lemma faultStore_keeps:
  assumes "raft_store rs ok good"
  shows "raft_store (faultStore fails rs) ok good"
proof -
  note laws = raft_store.save_load [OF assms] raft_store.save_failed [OF assms] raft_store.save_good [OF assms]
  show ?thesis by unfold_locales (use laws in \<open>auto simp: faultStore_def split: if_splits\<close>)
qed

interpretation faulted: raft_store "faultStore fails NewFileRaftStore" state_ok file_good for fails
  by (rule faultStore_keeps) (rule filed.raft_store_axioms)

end
