(* ===== verification/ChaosCluster.thy ===== *)
theory ChaosCluster
  imports Faults SnapshotBridge
begin

text \<open>
  pkg/chaos/cluster.go: the harness that runs an in-process cluster under a schedule of faults.
  A node object is shared by the harness and the in-memory transport, so a cluster holds each
  node once and says which of them are registered.  What the nodes do by themselves between
  two steps of the harness is a function given to the step, and so are the iteration orders of
  Go maps and the clock.  A call of \<open>t.Fatalf\<close> is an error value.  Shown here: the version
  written into a value is the one read back, and a run that ends has cleared every fault of its
  schedule, except that a reordering fault leaves its delay behind.
\<close>

section \<open>The cluster\<close>

type_synonym chaos_node = "(DiskStore, stateDisk) Node"

definition chaos_Snapshot :: "int \<Rightarrow> (int \<Rightarrow> int) \<Rightarrow> DiskStore \<Rightarrow> Snapshot res" where
  "chaos_Snapshot applied logTerm s =
     (let idx = applied
      in case SerializeSnapshot s of
           Inl e \<Rightarrow> Inl e
         | Inr data \<Rightarrow> Inr \<lparr>snLastIncludedIndex = idx, snLastIncludedTerm = logTerm idx, snData = data\<rparr>)"

definition chaos_ApplySnapshot :: "bytes \<Rightarrow> DiskStore \<Rightarrow> unit res \<times> DiskStore" where
  "chaos_ApplySnapshot data s = RestoreSnapshot data s"

record chaos_op =
  opKind :: string
  opSeq :: uint64
  opKey :: string
  opValue :: string
  opStart :: int64
  opEnd :: int64
  opAcked :: bool
  opReadOn :: string

text \<open>\<open>chFiles\<close> is what the directory of a node holds while the node is down.\<close>

record Cluster =
  chIds :: "string list"
  chCfg :: FaultConfig
  chNodes :: "string \<rightharpoonup> chaos_node"
  chRegistered :: "string \<Rightarrow> bool"
  chFiles :: "string \<Rightarrow> world \<times> stateDisk"
  chStarted :: "string \<Rightarrow> bool"
  chHist :: "chaos_op list"

definition NewCluster ::
    "nat \<Rightarrow> (nat \<Rightarrow> real) \<Rightarrow> (nat \<Rightarrow> int \<Rightarrow> int) \<Rightarrow> (string \<Rightarrow> world \<times> stateDisk) \<Rightarrow> Cluster" where
  "NewCluster n floats ints files =
     \<lparr>chIds = map (\<lambda>i. CHR ''n'' # format_nat i) [0..<n], chCfg = newFaultConfig floats ints, chNodes = Map.empty,
      chRegistered = (\<lambda>_. False), chFiles = files, chStarted = (\<lambda>_. False), chHist = []\<rparr>"

definition chaos_peers :: "string \<Rightarrow> Cluster \<Rightarrow> string list" where
  "chaos_peers i c = filter (\<lambda>other. other \<noteq> i) (chIds c)"

text \<open>The transport as the registered nodes see it.\<close>

definition base_of :: "Cluster \<Rightarrow> (DiskStore, stateDisk) MemTransport" where
  "base_of c = (\<lambda>i. if chRegistered c i then chNodes c i else None)"

definition via_faults ::
    "(FaultConfig \<times> (DiskStore, stateDisk) MemTransport \<Rightarrow> 'r res \<times> FaultConfig \<times> (DiskStore, stateDisk) MemTransport) \<Rightarrow>
     Cluster \<Rightarrow> 'r res \<times> Cluster" where
  "via_faults call c =
     (case call (chCfg c, base_of c) of
        (r, cfg, m) \<Rightarrow> (r, c\<lparr>chCfg := cfg, chNodes := (\<lambda>i. if chRegistered c i then m i else chNodes c i)\<rparr>))"

text \<open>The raft store of every node as the fault configuration has it now.\<close>

definition rewire :: "Cluster \<Rightarrow> Cluster" where
  "rewire c =
     c\<lparr>chNodes := (\<lambda>i. map_option (\<lambda>n. n\<lparr>raftStore := Some (faultStore (fsyncFails i (chCfg c)) NewFileRaftStore)\<rparr>) (chNodes c i))\<rparr>"

definition Start :: "(nat \<Rightarrow> int64) \<Rightarrow> string \<Rightarrow> Cluster \<Rightarrow> Cluster res" where
  "Start clk i c =
     (if chStarted c i then Inr c
      else
        case OpenDiskStore clk (fst (chFiles c i)) of
          (Inl e, _) \<Rightarrow> Inl (Wrap (''open store for '' @ i) e)
        | (Inr st, _) \<Rightarrow>
            (case SetRaftStore (Some (faultStore (fsyncFails i (chCfg c)) NewFileRaftStore))
                    (NewNode i (chaos_peers i c) disk_engine st (snd (chFiles c i))) of
               (Inl e, _) \<Rightarrow> Inl (Wrap (''raft store for '' @ i) e)
             | (Inr _, n) \<Rightarrow>
                 let n1 = SetSnapshotSink (Some chaos_ApplySnapshot) (SetSnapshotter (Some chaos_Snapshot) n)
                 in Inr (c\<lparr>chNodes := (chNodes c)(i \<mapsto> StartApply n1), chRegistered := (chRegistered c)(i := True),
                          chStarted := (chStarted c)(i := True)\<rparr>)))"

definition stopNode :: "string \<Rightarrow> Cluster \<Rightarrow> Cluster" where
  "stopNode i c =
     (if \<not> chStarted c i then c
      else
        case chNodes c i of
          None \<Rightarrow> c\<lparr>chStarted := (chStarted c)(i := False)\<rparr>
        | Some n \<Rightarrow>
            let s = snd (engClose disk_engine (store n)); n1 = (Stop n)\<lparr>store := s\<rparr>
            in c\<lparr>chStarted := (chStarted c)(i := False), chNodes := (chNodes c)(i \<mapsto> n1),
                 chRegistered := (chRegistered c)(i := False), chFiles := (chFiles c)(i := (dworld s, rdisk n1))\<rparr>)"

definition chaos_Stop :: "string \<Rightarrow> Cluster \<Rightarrow> Cluster" where
  "chaos_Stop = stopNode"

definition Restart :: "(nat \<Rightarrow> int64) \<Rightarrow> string \<Rightarrow> Cluster \<Rightarrow> Cluster res" where
  "Restart clk i c = Start clk i (chaos_Stop i c)"

text \<open>\<open>order\<close> is the order in which the map of nodes is ranged over.\<close>

definition leads :: "Cluster \<Rightarrow> string \<Rightarrow> bool" where
  "leads c i \<longleftrightarrow> chStarted c i \<and> (case chNodes c i of None \<Rightarrow> False | Some n \<Rightarrow> IsLeader n)"

definition chaos_leaderID :: "string list \<Rightarrow> Cluster \<Rightarrow> string" where
  "chaos_leaderID order c = (case filter (leads c) order of [] \<Rightarrow> '''' | i # _ \<Rightarrow> i)"

definition chaos_Leader :: "string list \<Rightarrow> Cluster \<Rightarrow> (string \<times> chaos_node) option" where
  "chaos_Leader order c =
     (let i = chaos_leaderID order c in if i = '''' then None else map_option (Pair i) (chNodes c i))"

text \<open>Each poll has its map order; between polls the cluster moves on.\<close>

fun waitLeader :: "(string list \<times> (Cluster \<Rightarrow> Cluster)) list \<Rightarrow> Cluster \<Rightarrow> Cluster res" where
  "waitLeader [] c = Inl (ErrOther ''no leader elected'')"
| "waitLeader ((order, env) # polls) c = (if chaos_Leader order c \<noteq> None then Inr c else waitLeader polls (env c))"

fun start_each :: "(nat \<Rightarrow> int64) \<Rightarrow> string list \<Rightarrow> Cluster \<Rightarrow> Cluster res" where
  "start_each clk [] c = Inr c"
| "start_each clk (i # is) c = (case Start clk i c of Inl e \<Rightarrow> Inl e | Inr c1 \<Rightarrow> start_each clk is c1)"

definition StartAll :: "(nat \<Rightarrow> int64) \<Rightarrow> (string list \<times> (Cluster \<Rightarrow> Cluster)) list \<Rightarrow> Cluster \<Rightarrow> Cluster res" where
  "StartAll clk polls c = (case start_each clk (chIds c) c of Inl e \<Rightarrow> Inl e | Inr c1 \<Rightarrow> waitLeader polls c1)"

definition startedNodes :: "Cluster \<Rightarrow> string \<rightharpoonup> chaos_node" where
  "startedNodes c = (\<lambda>i. if chStarted c i then chNodes c i else None)"

definition started_ids :: "Cluster \<Rightarrow> string list" where
  "started_ids c = filter (\<lambda>i. startedNodes c i \<noteq> None) (chIds c)"

definition randomStartedNode :: "(nat \<Rightarrow> nat) \<Rightarrow> Cluster \<Rightarrow> (string \<times> chaos_node) option" where
  "randomStartedNode rnd c =
     (let is = sort (started_ids c)
      in if is = [] then None
         else let i = is ! rnd (length is) in map_option (Pair i) (chNodes c i))"

section \<open>The workload\<close>

definition hist_add :: "chaos_op \<Rightarrow> Cluster \<Rightarrow> Cluster" where
  "hist_add p c = c\<lparr>chHist := chHist c @ [p]\<rparr>"

definition hist_snapshot :: "Cluster \<Rightarrow> chaos_op list" where
  "hist_snapshot c = chHist c"

definition node_read :: "int64 \<Rightarrow> string \<Rightarrow> string \<Rightarrow> Cluster \<Rightarrow> string res \<times> Cluster" where
  "node_read now i key c =
     (case chNodes c i of
        None \<Rightarrow> (Inl ErrNotFound, c)
      | Some n \<Rightarrow> (case node_Get now key n of (r, n') \<Rightarrow> (r, c\<lparr>chNodes := (chNodes c)(i \<mapsto> n')\<rparr>)))"

fun count_value :: "int64 \<Rightarrow> string \<Rightarrow> string \<Rightarrow> string list \<Rightarrow> Cluster \<Rightarrow> nat \<times> Cluster" where
  "count_value now key val [] c = (0, c)"
| "count_value now key val (i # is) c =
     (case node_read now i key c of
        (r, c1) \<Rightarrow> (case count_value now key val is c1 of (k, c2) \<Rightarrow> (if r = Inr val then k + 1 else k, c2)))"

fun waitMajorityValue ::
    "string \<Rightarrow> string \<Rightarrow> (int64 \<times> (Cluster \<Rightarrow> Cluster)) list \<Rightarrow> Cluster \<Rightarrow> bool \<times> Cluster" where
  "waitMajorityValue key val [] c = (False, c)"
| "waitMajorityValue key val ((now, env) # polls) c =
     (case count_value now key val (started_ids c) c of
        (k, c1) \<Rightarrow> if k \<ge> length (chIds c) div 2 + 1 then (True, c1) else waitMajorityValue key val polls (env c1))"

text \<open>\<open>fmt.Sscanf(value, "v%d", &seq)\<close>: white space before the number is skipped, but not a line
  break; what follows the digits is ignored; a number that does not fit is an error.\<close>

definition scan_space :: "char \<Rightarrow> bool" where
  "scan_space ch \<longleftrightarrow> ch \<in> {CHR 0x09, CHR 0x0B, CHR 0x0C, CHR 0x0D, CHR 0x20}"

definition readSeq :: "string \<Rightarrow> uint64" where
  "readSeq val =
     (case val of
        [] \<Rightarrow> 0
      | ch # rest \<Rightarrow>
          if ch \<noteq> CHR ''v'' then 0
          else case parse_nat (takeWhile is_digit (dropWhile scan_space rest)) of
                 None \<Rightarrow> 0
               | Some k \<Rightarrow> if k < 2 ^ 64 then of_nat k else 0)"

text \<open>What one turn of \<open>RunWorkload\<close> meets: map order, clock readings, the polls, the random pick.\<close>

record tick =
  tkOrder :: "string list"
  tkStart :: int64
  tkPolls :: "(int64 \<times> (Cluster \<Rightarrow> Cluster)) list"
  tkEnd :: int64
  tkPick :: "nat \<Rightarrow> nat"
  tkReadStart :: int64
  tkReadEnd :: int64

definition work_tick :: "tick \<Rightarrow> uint64 \<times> Cluster \<Rightarrow> uint64 \<times> Cluster" where
  "work_tick tk sc =
     (case sc of (seq, c) \<Rightarrow>
        case chaos_Leader (tkOrder tk) c of
          None \<Rightarrow> (seq, c)
        | Some (i, n) \<Rightarrow>
            let seq1 = seq + 1; val = CHR ''v'' # format_nat (unat seq1)
            in (case node_Put (tkStart tk) ''k'' val n of
                  ((Inl e, ps), n') \<Rightarrow> (seq1, c\<lparr>chNodes := (chNodes c)(i \<mapsto> n')\<rparr>)
                | ((Inr _, ps), n') \<Rightarrow>
                    (case waitMajorityValue ''k'' val (tkPolls tk) (c\<lparr>chNodes := (chNodes c)(i \<mapsto> n')\<rparr>) of
                       (acked, c1) \<Rightarrow>
                         let c2 = hist_add \<lparr>opKind = ''write'', opSeq = seq1, opKey = ''k'', opValue = val, opStart = tkStart tk,
                                            opEnd = tkEnd tk, opAcked = acked, opReadOn = ''''\<rparr> c1
                         in (case randomStartedNode (tkPick tk) c2 of
                               None \<Rightarrow> (seq1, c2)
                             | Some (j, _) \<Rightarrow>
                                 (case node_read (tkReadStart tk) j ''k'' c2 of
                                    (r, c3) \<Rightarrow>
                                      let v = (case r of Inr v \<Rightarrow> v | Inl _ \<Rightarrow> '''')
                                      in (seq1, hist_add \<lparr>opKind = ''read'', opSeq = readSeq v, opKey = ''k'', opValue = v,
                                            opStart = tkReadStart tk, opEnd = tkReadEnd tk, opAcked = (\<exists>v. r = Inr v),
                                            opReadOn = j\<rparr> c3))))))"

definition RunWorkload :: "tick list \<Rightarrow> Cluster \<Rightarrow> Cluster" where
  "RunWorkload ticks c = snd (fold work_tick ticks (0, c))"

section \<open>The schedule\<close>

definition with_cfg :: "(FaultConfig \<Rightarrow> FaultConfig) \<Rightarrow> Cluster \<Rightarrow> Cluster" where
  "with_cfg f c = c\<lparr>chCfg := f (chCfg c)\<rparr>"

definition applyFault :: "string list \<Rightarrow> Fault \<Rightarrow> Cluster \<Rightarrow> Cluster" where
  "applyFault order f c =
     (case fKind f of
        FaultCrash \<Rightarrow> chaos_Stop (fTarget f) c
      | FaultLeaderIsolation \<Rightarrow>
          (let i = chaos_leaderID order c in if i \<noteq> '''' then with_cfg (setPartition [i] (chIds c)) c else c)
      | FaultMinorityPartition \<Rightarrow> with_cfg (setPartition (take (length (chIds c) div 2) (chIds c)) (chIds c)) c
      | FaultMajorityPartition \<Rightarrow> with_cfg (setPartition (take ((length (chIds c) + 1) div 2) (chIds c)) (chIds c)) c
      | FaultAsymmetricPartition \<Rightarrow> with_cfg (setEdgeDrop (fTarget f) (fPeer f)) c
      | FaultPacketLoss \<Rightarrow> with_cfg (setLoss (fRate f)) c
      | FaultDuplication \<Rightarrow> with_cfg (setDup (fRate f)) c
      | FaultReordering \<Rightarrow> with_cfg (setReorder (fRate f) (fDelay f)) c
      | FaultDelay \<Rightarrow> with_cfg (setDelay (fDelay f)) c
      | FaultClockSkew \<Rightarrow> with_cfg (setSkew (fTarget f) (fDelay f)) c
      | FaultFsError \<Rightarrow> rewire (with_cfg (setFsync (fTarget f) True) c))"

definition clearFault :: "(nat \<Rightarrow> int64) \<Rightarrow> Fault \<Rightarrow> Cluster \<Rightarrow> Cluster res" where
  "clearFault clk f c =
     (case fKind f of
        FaultCrash \<Rightarrow> Start clk (fTarget f) c
      | FaultLeaderIsolation \<Rightarrow> Inr (with_cfg clearPartition c)
      | FaultMinorityPartition \<Rightarrow> Inr (with_cfg clearPartition c)
      | FaultMajorityPartition \<Rightarrow> Inr (with_cfg clearPartition c)
      | FaultAsymmetricPartition \<Rightarrow> Inr (with_cfg (clearEdgeDrop (fTarget f) (fPeer f)) c)
      | FaultPacketLoss \<Rightarrow> Inr (with_cfg (setLoss 0) c)
      | FaultDuplication \<Rightarrow> Inr (with_cfg (setDup 0) c)
      | FaultReordering \<Rightarrow> Inr (with_cfg (setReorder 0 0) c)
      | FaultDelay \<Rightarrow> Inr (with_cfg (setDelay 0) c)
      | FaultClockSkew \<Rightarrow> Inr (with_cfg (clearSkew (fTarget f)) c)
      | FaultFsError \<Rightarrow> Inr (rewire (with_cfg (setFsync (fTarget f) False) c)))"

text \<open>The events in the order of their times; for equal times \<open>sort.Slice\<close> promises no order, here
  they keep theirs.\<close>

type_synonym event = "int64 \<times> Fault \<times> bool"

definition schedule :: "Fault list \<Rightarrow> event list" where
  "schedule faults =
     sort_key (\<lambda>e. sint (fst e)) (concat (map (\<lambda>f. [(fAt f, f, True), (fAt f + fFor f, f, False)]) faults))"

text \<open>The inner loop of \<open>Run\<close>; \<open>applied\<close> is the set of faults in effect.\<close>

fun due_events ::
    "string list \<Rightarrow> (nat \<Rightarrow> int64) \<Rightarrow> int64 \<Rightarrow> event list \<Rightarrow> Fault list \<Rightarrow> Cluster \<Rightarrow> (event list \<times> Fault list \<times> Cluster) res" where
  "due_events order clk elapsed [] applied c = Inr ([], applied, c)"
| "due_events order clk elapsed ((t, f, ap) # evs) applied c =
     (if sint t > sint elapsed then Inr ((t, f, ap) # evs, applied, c)
      else if ap then due_events order clk elapsed evs (if f \<in> set applied then applied else f # applied) (applyFault order f c)
      else case clearFault clk f c of
             Inl e \<Rightarrow> Inl e
           | Inr c1 \<Rightarrow> due_events order clk elapsed evs (removeAll f applied) c1)"

text \<open>One turn of the outer loop: the time since the start, the map order and clock for what it does,
  and what the cluster does until the next turn.\<close>

record turn =
  tuElapsed :: int64
  tuOrder :: "string list"
  tuClock :: "nat \<Rightarrow> int64"
  tuEnv :: "Cluster \<Rightarrow> Cluster"

fun run_loop :: "int64 \<Rightarrow> turn list \<Rightarrow> event list \<Rightarrow> Fault list \<Rightarrow> Cluster \<Rightarrow> (Fault list \<times> Cluster) res" where
  "run_loop total_d [] evs applied c = Inr (applied, c)"
| "run_loop total_d (tu # tus) evs applied c =
     (if sint (tuElapsed tu) \<ge> sint total_d then Inr (applied, c)
      else case due_events (tuOrder tu) (tuClock tu) (tuElapsed tu) evs applied c of
             Inl e \<Rightarrow> Inl e
           | Inr (evs1, applied1, c1) \<Rightarrow> run_loop total_d tus evs1 applied1 (tuEnv tu c1))"

fun clear_all :: "(nat \<Rightarrow> int64) \<Rightarrow> Fault list \<Rightarrow> Cluster \<Rightarrow> Cluster res" where
  "clear_all clk [] c = Inr c"
| "clear_all clk (f # fs) c = (case clearFault clk f c of Inl e \<Rightarrow> Inl e | Inr c1 \<Rightarrow> clear_all clk fs c1)"

definition Run :: "Fault list \<Rightarrow> int64 \<Rightarrow> turn list \<Rightarrow> (nat \<Rightarrow> int64) \<Rightarrow> (Cluster \<Rightarrow> Cluster) \<Rightarrow> Cluster \<Rightarrow> Cluster res" where
  "Run faults total_d tus clk settle c =
     (case run_loop total_d tus (schedule faults) [] c of
        Inl e \<Rightarrow> Inl e
      | Inr (applied, c1) \<Rightarrow> (case clear_all clk applied c1 of Inl e \<Rightarrow> Inl e | Inr c2 \<Rightarrow> Inr (settle c2)))"

section \<open>Versions\<close>

lemma readSeq_written: "readSeq (CHR ''v'' # format_nat (unat seq)) = seq"
proof -
  have d: "list_all is_digit (format_nat k)" "format_nat k \<noteq> []" for k
    using format_nat_digits [of k] by simp_all
  have "\<not> scan_space x" if "is_digit x" for x using that by (auto simp: is_digit_def scan_space_def)
  then have "dropWhile scan_space (format_nat k) = format_nat k" for k
    using d [of k] by (cases "format_nat k") auto
  moreover have "takeWhile is_digit (format_nat k) = format_nat k" for k
    using d(1) [of k] by (simp only: list_all_iff takeWhile_eq_all_conv)
  moreover have "unat seq < 2 ^ 64" using unsigned_less [of seq, where ?'a = nat] by simp
  ultimately show ?thesis by (simp add: readSeq_def del: takeWhile_eq_all_conv)
qed

section \<open>Healing\<close>

text \<open>Everything the configuration does to messages and nodes is the work of a fault in \<open>A\<close>.\<close>

definition explained :: "Cluster \<Rightarrow> Fault set \<Rightarrow> bool" where
  "explained c A \<longleftrightarrow>
     (lossRate (chCfg c) \<noteq> 0 \<longrightarrow> (\<exists>f \<in> A. fKind f = FaultPacketLoss)) \<and>
     (dupRate (chCfg c) \<noteq> 0 \<longrightarrow> (\<exists>f \<in> A. fKind f = FaultDuplication)) \<and>
     (reorder (chCfg c) \<noteq> 0 \<longrightarrow> (\<exists>f \<in> A. fKind f = FaultReordering)) \<and>
     (delayMin (chCfg c) \<noteq> 0 \<longrightarrow> (\<exists>f \<in> A. fKind f = FaultDelay)) \<and>
     (\<forall>i. skew (chCfg c) i \<noteq> 0 \<longrightarrow> (\<exists>f \<in> A. fKind f = FaultClockSkew \<and> fTarget f = i)) \<and>
     (\<forall>i. failFsync (chCfg c) i \<longrightarrow> (\<exists>f \<in> A. fKind f = FaultFsError \<and> fTarget f = i)) \<and>
     (\<forall>x y. edgeDrop (chCfg c) (x, y) \<longrightarrow>
        (\<exists>f \<in> A. fKind f \<in> {FaultLeaderIsolation, FaultMinorityPartition, FaultMajorityPartition} \<or>
                  fKind f = FaultAsymmetricPartition \<and> fTarget f = x \<and> fPeer f = y)) \<and>
     (\<forall>i \<in> set (chIds c). \<not> chStarted c i \<longrightarrow> (\<exists>f \<in> A. fKind f = FaultCrash \<and> fTarget f = i))"

definition healed :: "Cluster \<Rightarrow> bool" where
  "healed c \<longleftrightarrow> explained c {}"

text \<open>What may happen between the steps of the schedule: anything but a change of the faults.\<close>

definition faults_kept :: "Cluster \<Rightarrow> Cluster \<Rightarrow> bool" where
  "faults_kept c c' \<longleftrightarrow> (\<exists>k. chCfg c' = (chCfg c)\<lparr>rngCnt := k\<rparr>) \<and> chStarted c' = chStarted c \<and> chIds c' = chIds c"

lemma explained_kept: "explained c A \<Longrightarrow> faults_kept c c' \<Longrightarrow> explained c' A"
  by (auto simp: explained_def faults_kept_def)

lemma explained_mono: "explained c A \<Longrightarrow> A \<subseteq> B \<Longrightarrow> explained c B"
  unfolding explained_def by blast

lemma Start_effect:
  assumes "Start clk i c = Inr c'"
  shows "chCfg c' = chCfg c" "chIds c' = chIds c" "chStarted c' = (chStarted c)(i := True)"
  using assms by (auto simp: Start_def Let_def fun_upd_idem split: if_splits prod.splits sum.splits)

lemma stopNode_effect:
  "chCfg (stopNode i c) = chCfg c" "chIds (stopNode i c) = chIds c" "chStarted (stopNode i c) = (chStarted c)(i := False)"
  by (auto simp: stopNode_def Let_def fun_upd_idem split: option.split)

lemma with_cfg_effect [simp]:
  "chCfg (with_cfg g c) = g (chCfg c)" "chIds (with_cfg g c) = chIds c" "chStarted (with_cfg g c) = chStarted c"
  "chCfg (rewire c) = chCfg c" "chIds (rewire c) = chIds c" "chStarted (rewire c) = chStarted c"
  by (simp_all add: with_cfg_def rewire_def)

lemmas fault_setters = setLoss_def setDup_def setReorder_def setDelay_def setSkew_def clearSkew_def setFsync_def setEdgeDrop_def
  clearEdgeDrop_def clearPartition_def

lemma apply_explained:
  assumes "explained c A"
  shows "explained (applyFault order f c) (insert f A)"
proof -
  have "explained c (insert f A)" using assms by (rule explained_mono) blast
  then show ?thesis
    by (cases "fKind f")
      (auto simp: explained_def applyFault_def chaos_Stop_def stopNode_effect setPartition_edge fault_setters Let_def)
qed

lemma clear_cases:
  assumes "clearFault clk f c = Inr c'"
  shows "chIds c' = chIds c \<and> (fKind f = FaultCrash \<and> chCfg c' = chCfg c \<and> chStarted c' = (chStarted c)(fTarget f := True) \<or>
    fKind f \<noteq> FaultCrash \<and> chStarted c' = chStarted c \<and>
      chCfg c' = (case fKind f of
          FaultAsymmetricPartition \<Rightarrow> clearEdgeDrop (fTarget f) (fPeer f) (chCfg c)
        | FaultPacketLoss \<Rightarrow> setLoss 0 (chCfg c)
        | FaultDuplication \<Rightarrow> setDup 0 (chCfg c)
        | FaultReordering \<Rightarrow> setReorder 0 0 (chCfg c)
        | FaultDelay \<Rightarrow> setDelay 0 (chCfg c)
        | FaultClockSkew \<Rightarrow> clearSkew (fTarget f) (chCfg c)
        | FaultFsError \<Rightarrow> setFsync (fTarget f) False (chCfg c)
        | _ \<Rightarrow> clearPartition (chCfg c)))"
  using assms Start_effect [of clk "fTarget f" c c'] by (cases "fKind f") (auto simp: clearFault_def)

text \<open>What is still in effect after clearing \<open>f\<close> was in effect before and is not \<open>f\<close>'s.\<close>

lemma clear_leaves:
  assumes "clearFault clk f c = Inr c'"
  shows "lossRate (chCfg c') \<noteq> 0 \<Longrightarrow> lossRate (chCfg c) \<noteq> 0 \<and> fKind f \<noteq> FaultPacketLoss"
    and "dupRate (chCfg c') \<noteq> 0 \<Longrightarrow> dupRate (chCfg c) \<noteq> 0 \<and> fKind f \<noteq> FaultDuplication"
    and "reorder (chCfg c') \<noteq> 0 \<Longrightarrow> reorder (chCfg c) \<noteq> 0 \<and> fKind f \<noteq> FaultReordering"
    and "delayMin (chCfg c') \<noteq> 0 \<Longrightarrow> delayMin (chCfg c) \<noteq> 0 \<and> fKind f \<noteq> FaultDelay"
    and "skew (chCfg c') i \<noteq> 0 \<Longrightarrow> skew (chCfg c) i \<noteq> 0 \<and> \<not> (fKind f = FaultClockSkew \<and> fTarget f = i)"
    and "failFsync (chCfg c') i \<Longrightarrow> failFsync (chCfg c) i \<and> \<not> (fKind f = FaultFsError \<and> fTarget f = i)"
    and "edgeDrop (chCfg c') (x, y) \<Longrightarrow> edgeDrop (chCfg c) (x, y) \<and>
      \<not> (fKind f \<in> {FaultLeaderIsolation, FaultMinorityPartition, FaultMajorityPartition} \<or>
         fKind f = FaultAsymmetricPartition \<and> fTarget f = x \<and> fPeer f = y)"
    and "\<not> chStarted c' i \<Longrightarrow> \<not> chStarted c i \<and> \<not> (fKind f = FaultCrash \<and> fTarget f = i)"
proof -
  note k = clear_cases [OF assms]
  show "lossRate (chCfg c') \<noteq> 0 \<Longrightarrow> lossRate (chCfg c) \<noteq> 0 \<and> fKind f \<noteq> FaultPacketLoss"
    using k by (cases "fKind f") (simp_all add: fault_setters)
  show "dupRate (chCfg c') \<noteq> 0 \<Longrightarrow> dupRate (chCfg c) \<noteq> 0 \<and> fKind f \<noteq> FaultDuplication"
    using k by (cases "fKind f") (simp_all add: fault_setters)
  show "reorder (chCfg c') \<noteq> 0 \<Longrightarrow> reorder (chCfg c) \<noteq> 0 \<and> fKind f \<noteq> FaultReordering"
    using k by (cases "fKind f") (simp_all add: fault_setters)
  show "delayMin (chCfg c') \<noteq> 0 \<Longrightarrow> delayMin (chCfg c) \<noteq> 0 \<and> fKind f \<noteq> FaultDelay"
    using k by (cases "fKind f") (simp_all add: fault_setters)
  show "skew (chCfg c') i \<noteq> 0 \<Longrightarrow> skew (chCfg c) i \<noteq> 0 \<and> \<not> (fKind f = FaultClockSkew \<and> fTarget f = i)"
    using k by (cases "fKind f") (simp_all add: fault_setters split: if_splits)
  show "failFsync (chCfg c') i \<Longrightarrow> failFsync (chCfg c) i \<and> \<not> (fKind f = FaultFsError \<and> fTarget f = i)"
    using k by (cases "fKind f") (simp_all add: fault_setters split: if_splits)
  show "edgeDrop (chCfg c') (x, y) \<Longrightarrow> edgeDrop (chCfg c) (x, y) \<and>
      \<not> (fKind f \<in> {FaultLeaderIsolation, FaultMinorityPartition, FaultMajorityPartition} \<or>
         fKind f = FaultAsymmetricPartition \<and> fTarget f = x \<and> fPeer f = y)"
    using k by (cases "fKind f") (auto simp: fault_setters split: if_splits)
  show "\<not> chStarted c' i \<Longrightarrow> \<not> chStarted c i \<and> \<not> (fKind f = FaultCrash \<and> fTarget f = i)"
    using k by (cases "fKind f") (simp_all split: if_splits)
qed

lemma keep_cause: "\<exists>g \<in> A. P g \<Longrightarrow> \<not> P f \<Longrightarrow> \<exists>g \<in> A - {f}. P g"
  by blast

lemma explainedD:
  assumes "explained c A"
  shows "lossRate (chCfg c) \<noteq> 0 \<Longrightarrow> \<exists>f \<in> A. fKind f = FaultPacketLoss"
    "dupRate (chCfg c) \<noteq> 0 \<Longrightarrow> \<exists>f \<in> A. fKind f = FaultDuplication"
    "reorder (chCfg c) \<noteq> 0 \<Longrightarrow> \<exists>f \<in> A. fKind f = FaultReordering"
    "delayMin (chCfg c) \<noteq> 0 \<Longrightarrow> \<exists>f \<in> A. fKind f = FaultDelay"
    "skew (chCfg c) i \<noteq> 0 \<Longrightarrow> \<exists>f \<in> A. fKind f = FaultClockSkew \<and> fTarget f = i"
    "failFsync (chCfg c) i \<Longrightarrow> \<exists>f \<in> A. fKind f = FaultFsError \<and> fTarget f = i"
    "edgeDrop (chCfg c) (x, y) \<Longrightarrow> \<exists>f \<in> A. fKind f \<in> {FaultLeaderIsolation, FaultMinorityPartition, FaultMajorityPartition} \<or>
       fKind f = FaultAsymmetricPartition \<and> fTarget f = x \<and> fPeer f = y"
    "i \<in> set (chIds c) \<Longrightarrow> \<not> chStarted c i \<Longrightarrow> \<exists>f \<in> A. fKind f = FaultCrash \<and> fTarget f = i"
  using assms unfolding explained_def by simp_all

lemma clear_explained:
  assumes "explained c A" "clearFault clk f c = Inr c'"
  shows "explained c' (A - {f})"
proof -
  note left = clear_leaves [OF assms(2)] and cause = explainedD [OF assms(1)]
  have ids: "chIds c' = chIds c" using clear_cases [OF assms(2)] by simp
  show ?thesis
    unfolding explained_def ids
  proof (intro conjI allI ballI impI)
    show "\<exists>f \<in> A - {f}. fKind f = FaultPacketLoss" if "lossRate (chCfg c') \<noteq> 0"
      by (rule keep_cause [OF cause(1) [OF left(1) [OF that, THEN conjunct1]] left(1) [OF that, THEN conjunct2]])
    show "\<exists>f \<in> A - {f}. fKind f = FaultDuplication" if "dupRate (chCfg c') \<noteq> 0"
      by (rule keep_cause [OF cause(2) [OF left(2) [OF that, THEN conjunct1]] left(2) [OF that, THEN conjunct2]])
    show "\<exists>f \<in> A - {f}. fKind f = FaultReordering" if "reorder (chCfg c') \<noteq> 0"
      by (rule keep_cause [OF cause(3) [OF left(3) [OF that, THEN conjunct1]] left(3) [OF that, THEN conjunct2]])
    show "\<exists>f \<in> A - {f}. fKind f = FaultDelay" if "delayMin (chCfg c') \<noteq> 0"
      by (rule keep_cause [OF cause(4) [OF left(4) [OF that, THEN conjunct1]] left(4) [OF that, THEN conjunct2]])
    show "\<exists>f \<in> A - {f}. fKind f = FaultClockSkew \<and> fTarget f = i" if "skew (chCfg c') i \<noteq> 0" for i
      by (rule keep_cause [OF cause(5) [OF left(5) [OF that, THEN conjunct1]] left(5) [OF that, THEN conjunct2]])
    show "\<exists>f \<in> A - {f}. fKind f = FaultFsError \<and> fTarget f = i" if "failFsync (chCfg c') i" for i
      by (rule keep_cause [OF cause(6) [OF left(6) [OF that, THEN conjunct1]] left(6) [OF that, THEN conjunct2]])
    show "\<exists>f \<in> A - {f}. fKind f \<in> {FaultLeaderIsolation, FaultMinorityPartition, FaultMajorityPartition} \<or>
        fKind f = FaultAsymmetricPartition \<and> fTarget f = x \<and> fPeer f = y" if "edgeDrop (chCfg c') (x, y)" for x y
      by (rule keep_cause [OF cause(7) [OF left(7) [OF that, THEN conjunct1]] left(7) [OF that, THEN conjunct2]])
    show "\<exists>f \<in> A - {f}. fKind f = FaultCrash \<and> fTarget f = i" if "i \<in> set (chIds c)" "\<not> chStarted c' i" for i
      by (rule keep_cause [OF cause(8) [OF that(1) left(8) [OF that(2), THEN conjunct1]] left(8) [OF that(2), THEN conjunct2]])
  qed
qed

lemma due_events_explained:
  "due_events order clk elapsed evs applied c = Inr (evs', applied', c') \<Longrightarrow> explained c (set applied) \<Longrightarrow>
    explained c' (set applied')"
proof (induction order clk elapsed evs applied c rule: due_events.induct)
  case (2 order clk elapsed t f ap evs applied c)
  consider "sint t > sint elapsed" | "\<not> sint t > sint elapsed" "ap" | "\<not> sint t > sint elapsed" "\<not> ap" by blast
  then show ?case
  proof cases
    case 2
    have "set (if f \<in> set applied then applied else f # applied) = insert f (set applied)" by auto
    with 2 "2.IH"(1) "2.prems" apply_explained [OF "2.prems"(2), of order f] show ?thesis by simp
  next
    case 3
    with "2.prems" obtain c1 where c1: "clearFault clk f c = Inr c1" by (auto split: sum.splits)
    have "explained c1 (set (removeAll f applied))" using clear_explained [OF "2.prems"(2) c1] by simp
    with 3 c1 "2.IH"(2) "2.prems"(1) show ?thesis by simp
  qed (use "2.prems" in simp)
qed simp

lemma run_loop_explained:
  assumes "run_loop total_d tus evs applied c = Inr (applied', c')" "explained c (set applied)"
    and "\<And>tu c. tu \<in> set tus \<Longrightarrow> faults_kept c (tuEnv tu c)"
  shows "explained c' (set applied')"
  using assms
proof (induction tus arbitrary: evs applied c)
  case (Cons tu tus)
  show ?case
  proof (cases "sint total_d \<le> sint (tuElapsed tu)")
    case False
    with Cons.prems(1) obtain evs1 applied1 c1 where
      d: "due_events (tuOrder tu) (tuClock tu) (tuElapsed tu) evs applied c = Inr (evs1, applied1, c1)" and
      r: "run_loop total_d tus evs1 applied1 (tuEnv tu c1) = Inr (applied', c')" by (auto split: sum.splits)
    have "explained c1 (set applied1)" using due_events_explained [OF d Cons.prems(2)] .
    moreover have "faults_kept c1 (tuEnv tu c1)" using Cons.prems(3) by simp
    ultimately have "explained (tuEnv tu c1) (set applied1)" by (rule explained_kept)
    from Cons.IH [OF r this] Cons.prems(3) show ?thesis by simp
  qed (use Cons.prems in simp)
qed simp

lemma clear_all_explained:
  "clear_all clk fs c = Inr c' \<Longrightarrow> explained c A \<Longrightarrow> explained c' (A - set fs)"
proof (induction fs arbitrary: c A)
  case (Cons f fs)
  then obtain c1 where c1: "clearFault clk f c = Inr c1" "clear_all clk fs c1 = Inr c'" by (auto split: sum.splits)
  from Cons.IH [OF c1(2) clear_explained [OF Cons.prems(2) c1(1)]] show ?case by (simp add: Diff_insert2 [symmetric])
qed simp

lemma Run_healed:
  assumes "Run faults total_d tus clk settle c = Inr c'" "healed c"
    and "\<And>tu c. tu \<in> set tus \<Longrightarrow> faults_kept c (tuEnv tu c)" "\<And>c. faults_kept c (settle c)"
  shows "healed c'"
proof -
  obtain applied c1 c2 where r: "run_loop total_d tus (schedule faults) [] c = Inr (applied, c1)" "clear_all clk applied c1 = Inr c2"
      "c' = settle c2"
    using assms(1) by (auto simp: Run_def split: sum.splits)
  have "explained c1 (set applied)" using run_loop_explained [OF r(1) _ assms(3)] assms(2) by (simp add: healed_def)
  from clear_all_explained [OF r(2) this] explained_kept [of c2 "{}", OF _ assms(4)] r(3) show ?thesis by (simp add: healed_def)
qed

lemma healed_delivers:
  assumes "healed c" "isolated (chCfg c) = (\<lambda>_. False)"
  shows "\<not> fst (fst (route x y (chCfg c)))" "fst (shouldDuplicate (chCfg c)) = False" "\<not> fsyncFails x (chCfg c)"
proof -
  have h: "lossRate (chCfg c) = 0" "dupRate (chCfg c) = 0" "\<not> edgeDrop (chCfg c) (x, y)" "\<not> failFsync (chCfg c) i" for i
    using assms(1) unfolding healed_def explained_def by auto
  then show "\<not> fst (fst (route x y (chCfg c)))" using assms(2) by (simp add: route_lossless lossless_def)
  show "fst (shouldDuplicate (chCfg c)) = False" "\<not> fsyncFails x (chCfg c)" using h by (simp_all add: shouldDuplicate_def chance_def fsyncFails_def)
qed

end
