(* ===== verification/Linearizability.thy ===== *)
theory Linearizability
  imports KV_Prelude
begin

text \<open>
  pkg/linearizability/checker.go: the checker of single-key histories.  Shown here: it reports
  nothing exactly when no reader's versions go back and no read ends before the write it saw
  began, and every history that has a linearization passes.
\<close>

section \<open>The checker\<close>

datatype lin_Kind = Write | Read

record lin_Op =
  loKind :: lin_Kind
  loSeq :: uint64
  loReader :: string
  loStart :: int64
  loEnd :: int64

text \<open>The errors, with the values their messages print.\<close>

datatype violation =
    ReadBeforeWrite (vReader: string) (vSeq: uint64) (vEnd: int64) (vStart: int64)
  | RolledBack (vReader: string) (vSeq: uint64) (vEnd: int64) (vPrev: uint64) (vPrevAt: int64) "lin_Op list"

definition writes_of :: "lin_Op list \<Rightarrow> uint64 \<rightharpoonup> lin_Op" where
  "writes_of ops = fold (\<lambda>x m. if loKind x = Write then m(loSeq x \<mapsto> x) else m) ops Map.empty"

record check_state =
  maxSeen :: "string \<rightharpoonup> uint64"
  maxSeenAt :: "string \<Rightarrow> int64"
  timeline :: "string \<Rightarrow> lin_Op list"
  errs :: "violation list"

definition early :: "lin_Op \<Rightarrow> lin_Op \<Rightarrow> bool" where
  "early x w \<longleftrightarrow> sint (loStart w) > 0 \<and> sint (loEnd x) > 0 \<and> sint (loEnd x) \<le> sint (loStart w)"

definition check_op :: "(uint64 \<rightharpoonup> lin_Op) \<Rightarrow> lin_Op \<Rightarrow> check_state \<Rightarrow> check_state" where
  "check_op writes x c =
     (if loKind x \<noteq> Read \<or> loSeq x = 0 then c
      else
        let r = loReader x;
            e1 = (case writes (loSeq x) of
                    None \<Rightarrow> []
                  | Some w \<Rightarrow> if early x w then [ReadBeforeWrite r (loSeq x) (loEnd x) (loStart w)] else []);
            e2 = (case maxSeen c r of
                    None \<Rightarrow> []
                  | Some prev \<Rightarrow>
                      if loSeq x < prev
                      then [RolledBack r (loSeq x) (loEnd x) prev (maxSeenAt c r) (timeline c r)] else []);
            c1 = c\<lparr>errs := errs c @ e1 @ e2\<rparr>;
            c2 = (if loSeq x > (case maxSeen c1 r of None \<Rightarrow> 0 | Some v \<Rightarrow> v)
                  then c1\<lparr>maxSeen := (maxSeen c1)(r \<mapsto> loSeq x), maxSeenAt := (maxSeenAt c1)(r := loEnd x)\<rparr>
                  else c1)
        in c2\<lparr>timeline := (timeline c2)(r := timeline c2 r @ [x])\<rparr>)"

definition Check :: "lin_Op list \<Rightarrow> violation list" where
  "Check ops =
     errs (fold (check_op (writes_of ops)) ops
       \<lparr>maxSeen = Map.empty, maxSeenAt = (\<lambda>_. 0), timeline = (\<lambda>_. []), errs = []\<rparr>)"

section \<open>What it decides\<close>

definition counted :: "lin_Op \<Rightarrow> bool" where
  "counted x \<longleftrightarrow> loKind x = Read \<and> loSeq x \<noteq> 0"

definition seen_by :: "string \<Rightarrow> lin_Op list \<Rightarrow> uint64 list" where
  "seen_by r ops = map loSeq (filter (\<lambda>x. counted x \<and> loReader x = r) ops)"

lemma seen_by_Cons:
  "seen_by r (x # ops) = (if counted x \<and> loReader x = r then loSeq x # seen_by r ops else seen_by r ops)"
  by (simp add: seen_by_def)

lemma check_op_skip: "\<not> counted x \<Longrightarrow> check_op writes x c = c"
  by (auto simp: check_op_def counted_def)

lemma check_op_errs:
  assumes "counted x"
  shows "errs (check_op writes x c) = [] \<longleftrightarrow> errs c = [] \<and> (\<forall>w. writes (loSeq x) = Some w \<longrightarrow> \<not> early x w) \<and>
    (\<forall>prev. maxSeen c (loReader x) = Some prev \<longrightarrow> prev \<le> loSeq x)"
  using assms by (auto simp: check_op_def counted_def Let_def not_less split: option.splits)

lemma check_op_maxSeen:
  assumes "counted x" "\<forall>prev. maxSeen c (loReader x) = Some prev \<longrightarrow> prev \<le> loSeq x"
  shows "maxSeen (check_op writes x c) = (maxSeen c)(loReader x \<mapsto> loSeq x)"
proof -
  have "0 < loSeq x" using assms(1) by (simp add: counted_def word_gt_0)
  then show ?thesis
    using assms by (auto simp: check_op_def counted_def Let_def fun_eq_iff not_less split: option.splits)
qed

lemma errs_kept: "errs (fold (check_op writes) ops c) = [] \<Longrightarrow> errs c = []"
proof (induction ops arbitrary: c)
  case (Cons x ops)
  then have "errs (check_op writes x c) = []" by simp
  then show ?case by (cases "counted x") (simp_all add: check_op_skip check_op_errs)
qed simp

lemma check_fold:
  "errs (fold (check_op writes) ops c) = [] \<longleftrightarrow> errs c = [] \<and>
     (\<forall>x \<in> set ops. counted x \<longrightarrow> (\<forall>w. writes (loSeq x) = Some w \<longrightarrow> \<not> early x w)) \<and>
     (\<forall>r. sorted (case maxSeen c r of None \<Rightarrow> seen_by r ops | Some m \<Rightarrow> m # seen_by r ops))"
proof (induction ops arbitrary: c)
  case Nil
  then show ?case by (simp add: seen_by_def split: option.splits)
next
  case (Cons x ops)
  show ?case
  proof (cases "counted x")
    case False
    then show ?thesis using Cons.IH [of c] by (simp add: check_op_skip seen_by_Cons cong: option.case_cong)
  next
    case True
    show ?thesis
    proof (cases "\<forall>prev. maxSeen c (loReader x) = Some prev \<longrightarrow> prev \<le> loSeq x")
      case mono: True
      have "(\<forall>r. sorted (case maxSeen (check_op writes x c) r of None \<Rightarrow> seen_by r ops | Some m \<Rightarrow> m # seen_by r ops)) \<longleftrightarrow>
          (\<forall>r. sorted (case maxSeen c r of None \<Rightarrow> seen_by r (x # ops) | Some m \<Rightarrow> m # seen_by r (x # ops)))"
      proof (intro iff_allI)
        fix r
        show "sorted (case maxSeen (check_op writes x c) r of None \<Rightarrow> seen_by r ops | Some m \<Rightarrow> m # seen_by r ops) \<longleftrightarrow>
            sorted (case maxSeen c r of None \<Rightarrow> seen_by r (x # ops) | Some m \<Rightarrow> m # seen_by r (x # ops))"
          using True mono by (auto simp: check_op_maxSeen seen_by_Cons split: option.splits)
      qed
      with True mono show ?thesis using Cons.IH [of "check_op writes x c"] by (simp add: check_op_errs)
    next
      case False
      then obtain prev where prev: "maxSeen c (loReader x) = Some prev" "\<not> prev \<le> loSeq x" by blast
      then have "errs (fold (check_op writes) (x # ops) c) \<noteq> []"
        using True errs_kept [of writes ops "check_op writes x c"] by (auto simp: check_op_errs)
      moreover have "\<not> sorted (case maxSeen c (loReader x) of None \<Rightarrow> seen_by (loReader x) (x # ops)
          | Some m \<Rightarrow> m # seen_by (loReader x) (x # ops))"
        using True prev by (simp add: seen_by_Cons)
      ultimately show ?thesis by blast
    qed
  qed
qed

lemma Check_iff:
  "Check ops = [] \<longleftrightarrow> (\<forall>r. sorted (seen_by r ops)) \<and>
     (\<forall>x \<in> set ops. counted x \<longrightarrow> (\<forall>w. writes_of ops (loSeq x) = Some w \<longrightarrow> \<not> early x w))"
  unfolding Check_def check_fold by auto

section \<open>Linearizable histories pass\<close>

text \<open>A linearization places every operation at an instant between its start and its end, such
  that a later version is written later, and a read returns the newest version written before
  it.  Each reader's reads do not overlap.\<close>

definition linearizes :: "(nat \<Rightarrow> int) \<Rightarrow> lin_Op list \<Rightarrow> bool" where
  "linearizes pt ops \<longleftrightarrow>
     (\<forall>i < length ops. sint (loStart (ops ! i)) \<le> pt i \<and> pt i \<le> sint (loEnd (ops ! i))) \<and>
     (\<forall>i < length ops. \<forall>j < length ops. loKind (ops ! i) = Write \<longrightarrow> loKind (ops ! j) = Write \<longrightarrow>
        loSeq (ops ! i) = loSeq (ops ! j) \<longrightarrow> i = j) \<and>
     (\<forall>i < length ops. counted (ops ! i) \<longrightarrow>
        (\<exists>k < length ops. loKind (ops ! k) = Write \<and> loSeq (ops ! k) = loSeq (ops ! i) \<and> pt k < pt i) \<and>
        (\<forall>k < length ops. loKind (ops ! k) = Write \<longrightarrow> pt k < pt i \<longrightarrow> loSeq (ops ! k) \<le> loSeq (ops ! i))) \<and>
     (\<forall>i j. i < j \<longrightarrow> j < length ops \<longrightarrow> counted (ops ! i) \<longrightarrow> counted (ops ! j) \<longrightarrow>
        loReader (ops ! i) = loReader (ops ! j) \<longrightarrow> sint (loEnd (ops ! i)) \<le> sint (loStart (ops ! j)))"

lemma writes_of_fold:
  "fold (\<lambda>x m. if loKind x = Write then m(loSeq x \<mapsto> x) else m) ops m s = Some w \<Longrightarrow>
   m s = Some w \<or> w \<in> set ops \<and> loKind w = Write \<and> loSeq w = s"
  by (induction ops arbitrary: m) (fastforce split: if_splits)+

lemma writes_of_Some: "writes_of ops s = Some w \<Longrightarrow> w \<in> set ops \<and> loKind w = Write \<and> loSeq w = s"
  unfolding writes_of_def using writes_of_fold [of ops Map.empty s w] by simp

lemma sorted_seen_by:
  assumes "\<And>i j. i < j \<Longrightarrow> j < length ops \<Longrightarrow> counted (ops ! i) \<Longrightarrow> counted (ops ! j) \<Longrightarrow>
    loReader (ops ! i) = loReader (ops ! j) \<Longrightarrow> loSeq (ops ! i) \<le> loSeq (ops ! j)"
  shows "sorted (seen_by r ops)"
proof -
  have "sorted_wrt (\<lambda>x y. counted x \<longrightarrow> counted y \<longrightarrow> loReader x = loReader y \<longrightarrow> loSeq x \<le> loSeq y) ops"
    using assms by (auto simp: sorted_wrt_iff_nth_less)
  then have "sorted_wrt (\<lambda>x y. counted x \<longrightarrow> counted y \<longrightarrow> loReader x = loReader y \<longrightarrow> loSeq x \<le> loSeq y)
      (filter (\<lambda>x. counted x \<and> loReader x = r) ops)" by (rule sorted_wrt_filter)
  then have "sorted_wrt (\<lambda>x y. loSeq x \<le> loSeq y) (filter (\<lambda>x. counted x \<and> loReader x = r) ops)"
    by (rule sorted_wrt_mono_rel [rotated]) auto
  then show ?thesis by (simp add: seen_by_def sorted_wrt_map)
qed

lemma linearizes_Check:
  assumes "linearizes pt ops"
  shows "Check ops = []"
proof -
  note lin = assms [unfolded linearizes_def]
  note span = lin [THEN conjunct1, rule_format]
  note uniq = lin [THEN conjunct2, THEN conjunct1, rule_format]
  note reads = lin [THEN conjunct2, THEN conjunct2, THEN conjunct1, rule_format]
  note source = reads [THEN conjunct1] and newest = reads [THEN conjunct2, rule_format]
  note order = lin [THEN conjunct2, THEN conjunct2, THEN conjunct2, rule_format]
  have "loSeq (ops ! i) \<le> loSeq (ops ! j)"
    if a: "i < j" "j < length ops" "counted (ops ! i)" "counted (ops ! j)" "loReader (ops ! i) = loReader (ops ! j)" for i j
  proof -
    obtain k where k: "k < length ops" "loKind (ops ! k) = Write" "loSeq (ops ! k) = loSeq (ops ! i)" "pt k < pt i"
      using source [of i] a by auto
    have "pt i \<le> pt j" using span [of i] span [of j] order [OF a] a by simp
    with newest [OF a(2,4) k(1,2)] k show ?thesis by simp
  qed
  moreover have "\<not> early x w" if x: "x \<in> set ops" "counted x" "writes_of ops (loSeq x) = Some w" for x w
  proof -
    obtain i j where i: "i < length ops" "ops ! i = x" and j: "j < length ops" "ops ! j = w" "loKind w = Write" "loSeq w = loSeq x"
      using x(1) writes_of_Some [OF x(3)] by (auto simp: in_set_conv_nth)
    obtain k where k: "k < length ops" "loKind (ops ! k) = Write" "loSeq (ops ! k) = loSeq x" "pt k < pt i"
      using source [of i] i x by auto
    then have "k = j" using j by (intro uniq) simp_all
    then show ?thesis using span [of j] span [of i] i j k by (auto simp: early_def)
  qed
  ultimately show ?thesis unfolding Check_iff by (blast intro: sorted_seen_by)
qed

end
