(* ===== verification/Oracles.thy ===== *)
theory Oracles
  imports ChaosCluster Linearizability
begin

text \<open>
  pkg/chaos/oracles.go and \<open>AssertInvariants\<close>: the five oracles of the chaos harness.  \<open>order\<close> is
  the order in which the map of started nodes is ranged over.  Shown here: what a silent
  election, log or apply oracle says about the cluster, whatever the order.
\<close>

section \<open>The oracles\<close>

datatype oracle_error =
    TwoLeaders int string string
  | LogDivergence int string string Command Command
  | AppliedDifferent int string string Command Command
  | Unreadable string uint64 string kv_error
  | ReadsBack string uint64 string string
  | BadHistory violation

fun election_scan :: "Cluster \<Rightarrow> string list \<Rightarrow> (int \<rightharpoonup> string) \<Rightarrow> oracle_error list" where
  "election_scan c [] leaders = []"
| "election_scan c (i # is) leaders =
     (case startedNodes c i of
        None \<Rightarrow> election_scan c is leaders
      | Some n \<Rightarrow>
          if \<not> IsLeader n then election_scan c is leaders
          else
            (case leaders (Term n) of
               Some prev \<Rightarrow> if prev \<noteq> i then [TwoLeaders (Term n) prev i] else []
             | None \<Rightarrow> []) @ election_scan c is (leaders(Term n \<mapsto> i)))"

definition electionSafety_Check :: "string list \<Rightarrow> Cluster \<Rightarrow> oracle_error list" where
  "electionSafety_Check order c = election_scan c order Map.empty"

lemma LogEntry_bound: "LogEntry i n = Some e \<Longrightarrow> i \<le> lastLogIndex n"
  by (auto simp: LogEntry_def entryAt_eq split: if_splits)

function log_scan :: "string \<Rightarrow> string \<Rightarrow> ('s, 'd) Node \<Rightarrow> ('s, 'd) Node \<Rightarrow> int \<Rightarrow> oracle_error list" where
  "log_scan i j a b idx =
     (case (LogEntry idx a, LogEntry idx b) of
        (Some ea, Some eb) \<Rightarrow>
          if entTerm ea = entTerm eb \<and> entCmd ea \<noteq> entCmd eb then [LogDivergence idx i j (entCmd ea) (entCmd eb)]
          else log_scan i j a b (idx + 1)
      | _ \<Rightarrow> [])"
  by auto
termination
  by (relation "measure (\<lambda>(i, j, a, b, idx). nat (lastLogIndex a + 1 - idx))") (auto dest: LogEntry_bound [OF sym])

function apply_scan :: "string \<Rightarrow> string \<Rightarrow> ('s, 'd) Node \<Rightarrow> ('s, 'd) Node \<Rightarrow> int \<Rightarrow> int \<Rightarrow> oracle_error list" where
  "apply_scan i j a b limit idx =
     (if idx > limit then []
      else
        case (LogEntry idx a, LogEntry idx b) of
          (Some ea, Some eb) \<Rightarrow>
            if entCmd ea \<noteq> entCmd eb then [AppliedDifferent idx i j (entCmd ea) (entCmd eb)]
            else apply_scan i j a b limit (idx + 1)
        | _ \<Rightarrow> [])"
  by auto
termination
  by (relation "measure (\<lambda>(i, j, a, b, limit, idx). nat (limit + 1 - idx))") auto

declare log_scan.simps [simp del] apply_scan.simps [simp del]

fun all_pairs :: "'a list \<Rightarrow> ('a \<times> 'a) list" where
  "all_pairs [] = []"
| "all_pairs (x # xs) = map (Pair x) xs @ all_pairs xs"

definition on_pair ::
    "(string \<Rightarrow> string \<Rightarrow> chaos_node \<Rightarrow> chaos_node \<Rightarrow> oracle_error list) \<Rightarrow> Cluster \<Rightarrow> string \<times> string \<Rightarrow> oracle_error list" where
  "on_pair f c p =
     (case p of (i, j) \<Rightarrow>
        case (startedNodes c i, startedNodes c j) of
          (Some a, Some b) \<Rightarrow> f i j a b
        | _ \<Rightarrow> [])"

definition logMatching_Check :: "string list \<Rightarrow> Cluster \<Rightarrow> oracle_error list" where
  "logMatching_Check order c = concat (map (on_pair (\<lambda>i j a b. log_scan i j a b 1) c) (all_pairs order))"

definition stateMachineSafety_Check :: "string list \<Rightarrow> Cluster \<Rightarrow> oracle_error list" where
  "stateMachineSafety_Check order c =
     concat (map (on_pair (\<lambda>i j a b.
       let limit = (if ApplyIndex b < ApplyIndex a then ApplyIndex b else ApplyIndex a)
       in apply_scan i j a b limit 1) c) (all_pairs order))"

text \<open>The acknowledged writes, by version; a later one replaces an earlier one.\<close>

definition acked_writes :: "chaos_op list \<Rightarrow> (uint64 \<times> string) list" where
  "acked_writes ops =
     fold (\<lambda>p m. if opKind p = ''write'' \<and> opAcked p then filter (\<lambda>(s, v). s \<noteq> opSeq p) m @ [(opSeq p, opValue p)] else m) ops []"

fun read_all :: "int64 \<Rightarrow> uint64 \<times> string \<Rightarrow> string list \<Rightarrow> Cluster \<Rightarrow> oracle_error list \<times> Cluster" where
  "read_all now sv [] c = ([], c)"
| "read_all now sv (i # is) c =
     (case node_read now i ''k'' c of
        (r, c1) \<Rightarrow>
          (case read_all now sv is c1 of
             (es, c2) \<Rightarrow>
               ((case r of
                   Inl e \<Rightarrow> [Unreadable (snd sv) (fst sv) i e]
                 | Inr v \<Rightarrow> if readSeq v < fst sv then [ReadsBack (snd sv) (fst sv) i v] else []) @ es, c2)))"

fun check_acked :: "int64 \<Rightarrow> (uint64 \<times> string) list \<Rightarrow> string list \<Rightarrow> Cluster \<Rightarrow> oracle_error list \<times> Cluster" where
  "check_acked now [] is c = ([], c)"
| "check_acked now (sv # svs) is c =
     (case read_all now sv is c of
        (e1, c1) \<Rightarrow> (case check_acked now svs is c1 of (e2, c2) \<Rightarrow> (e1 @ e2, c2)))"

text \<open>The polls after the first one, the last of them past the deadline, each with its clock and
  what happened before it.\<close>

fun durability_poll ::
    "(uint64 \<times> string) list \<Rightarrow> string list \<Rightarrow> int64 \<Rightarrow> ((Cluster \<Rightarrow> Cluster) \<times> int64) list \<Rightarrow> Cluster \<Rightarrow> oracle_error list \<times> Cluster" where
  "durability_poll svs is now [] c = check_acked now svs is c"
| "durability_poll svs is now ((env, now') # polls) c =
     (case check_acked now svs is c of
        (es, c1) \<Rightarrow> if es = [] then ([], c1) else durability_poll svs is now' polls (env c1))"

definition durability_Check ::
    "string list \<Rightarrow> int64 \<Rightarrow> ((Cluster \<Rightarrow> Cluster) \<times> int64) list \<Rightarrow> Cluster \<Rightarrow> oracle_error list \<times> Cluster" where
  "durability_Check order now polls c = durability_poll (acked_writes (hist_snapshot c)) order now polls c"

definition lin_history :: "chaos_op list \<Rightarrow> lin_Op list" where
  "lin_history ops =
     concat (map (\<lambda>p.
       if opKind p = ''write'' then [\<lparr>loKind = Write, loSeq = opSeq p, loReader = '''', loStart = opStart p, loEnd = opEnd p\<rparr>]
       else if opKind p = ''read'' \<and> opReadOn p \<noteq> ''''
       then [\<lparr>loKind = Read, loSeq = opSeq p, loReader = opReadOn p, loStart = opStart p, loEnd = opEnd p\<rparr>]
       else []) ops)"

definition linearizability_Check :: "Cluster \<Rightarrow> oracle_error list" where
  "linearizability_Check c = map BadHistory (Check (lin_history (hist_snapshot c)))"

datatype Oracle = ElectionSafetyOracle | LogMatchingOracle | StateMachineSafetyOracle | DurabilityOracle | LinearizabilityOracle

fun Oracle_Name :: "Oracle \<Rightarrow> string" where
  "Oracle_Name ElectionSafetyOracle = ''election-safety''"
| "Oracle_Name LogMatchingOracle = ''log-matching''"
| "Oracle_Name StateMachineSafetyOracle = ''state-machine-safety''"
| "Oracle_Name DurabilityOracle = ''durability''"
| "Oracle_Name LinearizabilityOracle = ''linearizability''"

fun Oracle_Check ::
    "string list \<Rightarrow> int64 \<Rightarrow> ((Cluster \<Rightarrow> Cluster) \<times> int64) list \<Rightarrow> Oracle \<Rightarrow> Cluster \<Rightarrow> oracle_error list \<times> Cluster" where
  "Oracle_Check order now polls ElectionSafetyOracle c = (electionSafety_Check order c, c)"
| "Oracle_Check order now polls LogMatchingOracle c = (logMatching_Check order c, c)"
| "Oracle_Check order now polls StateMachineSafetyOracle c = (stateMachineSafety_Check order c, c)"
| "Oracle_Check order now polls DurabilityOracle c = durability_Check order now polls c"
| "Oracle_Check order now polls LinearizabilityOracle c = (linearizability_Check c, c)"

definition defaultOracles :: "Oracle list" where
  "defaultOracles = [ElectionSafetyOracle, LogMatchingOracle, StateMachineSafetyOracle, DurabilityOracle, LinearizabilityOracle]"

fun run_oracles ::
    "string list \<Rightarrow> int64 \<Rightarrow> ((Cluster \<Rightarrow> Cluster) \<times> int64) list \<Rightarrow> Oracle list \<Rightarrow> Cluster \<Rightarrow> oracle_error list" where
  "run_oracles order now polls [] c = []"
| "run_oracles order now polls (o1 # os) c =
     (case Oracle_Check order now polls o1 c of (es, c1) \<Rightarrow> es @ run_oracles order now polls os c1)"

definition AssertInvariants ::
    "string list \<Rightarrow> int64 \<Rightarrow> ((Cluster \<Rightarrow> Cluster) \<times> int64) list \<Rightarrow> Cluster \<Rightarrow> oracle_error list" where
  "AssertInvariants order now polls c = run_oracles order now polls defaultOracles c"

section \<open>What a silent oracle says\<close>

definition leads_in :: "Cluster \<Rightarrow> string \<Rightarrow> int \<Rightarrow> bool" where
  "leads_in c i t \<longleftrightarrow> (\<exists>n. startedNodes c i = Some n \<and> IsLeader n \<and> Term n = t)"

lemma election_scan_silent:
  assumes "distinct is" "\<And>t p. leaders t = Some p \<Longrightarrow> p \<notin> set is"
  shows "election_scan c is leaders = [] \<longleftrightarrow>
    (\<forall>i \<in> set is. \<forall>t. leads_in c i t \<longrightarrow> leaders t = None) \<and>
    (\<forall>i \<in> set is. \<forall>j \<in> set is. \<forall>t. leads_in c i t \<longrightarrow> leads_in c j t \<longrightarrow> i = j)"
  using assms
proof (induction "is" arbitrary: leaders)
  case (Cons i "is")
  show ?case
  proof (cases "\<exists>t. leads_in c i t")
    case False
    then have "election_scan c (i # is) leaders = election_scan c is leaders"
      by (auto simp: leads_in_def split: option.split)
    then show ?thesis using False Cons by auto
  next
    case True
    then obtain n where n: "startedNodes c i = Some n" "IsLeader n" by (auto simp: leads_in_def)
    have lead: "leads_in c i t \<longleftrightarrow> t = Term n" for t using n by (auto simp: leads_in_def)
    show ?thesis
    proof (cases "leaders (Term n)")
      case (Some p)
      then have "p \<noteq> i" using Cons.prems(2) by auto
      then show ?thesis using Some n lead by auto
    next
      case None
      have "election_scan c (i # is) leaders = election_scan c is (leaders(Term n \<mapsto> i))" using n None by simp
      also have "\<dots> = [] \<longleftrightarrow>
        (\<forall>j \<in> set is. \<forall>t. leads_in c j t \<longrightarrow> (leaders(Term n \<mapsto> i)) t = None) \<and>
        (\<forall>j \<in> set is. \<forall>k \<in> set is. \<forall>t. leads_in c j t \<longrightarrow> leads_in c k t \<longrightarrow> j = k)"
        using Cons.prems by (intro Cons.IH) (auto split: if_splits)
      finally show ?thesis using None lead Cons.prems(1) by (auto split: if_splits)
    qed
  qed
qed simp

lemma electionSafety_silent:
  assumes "distinct order" "set order = dom (startedNodes c)"
  shows "electionSafety_Check order c = [] \<longleftrightarrow> (\<forall>i j t. leads_in c i t \<longrightarrow> leads_in c j t \<longrightarrow> i = j)"
proof -
  have "leads_in c i t \<Longrightarrow> i \<in> set order" for i t using assms(2) by (auto simp: leads_in_def)
  then show ?thesis
    unfolding electionSafety_Check_def using election_scan_silent [OF assms(1), of Map.empty c] by auto
qed

text \<open>Both nodes hold every entry from \<open>i\<close> to \<open>k\<close>.\<close>

definition both_hold :: "('s, 'd) Node \<Rightarrow> ('s, 'd) Node \<Rightarrow> int \<Rightarrow> int \<Rightarrow> bool" where
  "both_hold a b i k \<longleftrightarrow> i \<le> k \<and> (\<forall>l. i \<le> l \<longrightarrow> l \<le> k \<longrightarrow> LogEntry l a \<noteq> None \<and> LogEntry l b \<noteq> None)"

lemma both_hold_rec:
  "both_hold a b i k \<longleftrightarrow> i \<le> k \<and> LogEntry i a \<noteq> None \<and> LogEntry i b \<noteq> None \<and> (k = i \<or> both_hold a b (i + 1) k)"
proof
  assume h: "i \<le> k \<and> LogEntry i a \<noteq> None \<and> LogEntry i b \<noteq> None \<and> (k = i \<or> both_hold a b (i + 1) k)"
  have "LogEntry l a \<noteq> None \<and> LogEntry l b \<noteq> None" if "i \<le> l" "l \<le> k" for l
  proof (cases "l = i")
    case False
    then have "i + 1 \<le> l" "k \<noteq> i" using that by linarith+
    with h that(2) show ?thesis by (simp add: both_hold_def)
  qed (use h in simp)
  with h show "both_hold a b i k" by (simp add: both_hold_def)
qed (auto simp: both_hold_def)

lemma log_scan_silent:
  "log_scan i j a b idx = [] \<longleftrightarrow>
    (\<forall>k ea eb. both_hold a b idx k \<longrightarrow> LogEntry k a = Some ea \<longrightarrow> LogEntry k b = Some eb \<longrightarrow>
      entTerm ea = entTerm eb \<longrightarrow> entCmd ea = entCmd eb)"
proof (induction i j a b idx rule: log_scan.induct)
  case (1 i j a b idx)
  show ?case
  proof (cases "LogEntry idx a = None \<or> LogEntry idx b = None")
    case True
    then have "log_scan i j a b idx = []" by (subst log_scan.simps) (auto split: option.split)
    then show ?thesis using True by (auto simp: both_hold_rec [of a b idx])
  next
    case False
    then obtain ea eb where e: "LogEntry idx a = Some ea" "LogEntry idx b = Some eb" by auto
    show ?thesis
    proof (cases "entTerm ea = entTerm eb \<and> entCmd ea \<noteq> entCmd eb")
      case True
      moreover have "both_hold a b idx idx" using e by (subst both_hold_rec) simp
      ultimately show ?thesis using e by (subst log_scan.simps) auto
    next
      case ok: False
      have "both_hold a b idx k \<longleftrightarrow> k = idx \<or> both_hold a b (idx + 1) k" for k
        using e by (subst both_hold_rec) (auto simp: both_hold_def)
      with ok e "1.IH" [OF _ e ok] show ?thesis by (subst log_scan.simps) auto
    qed
  qed
qed

lemma apply_scan_silent:
  "apply_scan i j a b limit idx = [] \<longleftrightarrow>
    (\<forall>k ea eb. k \<le> limit \<longrightarrow> both_hold a b idx k \<longrightarrow> LogEntry k a = Some ea \<longrightarrow> LogEntry k b = Some eb \<longrightarrow> entCmd ea = entCmd eb)"
proof (induction i j a b limit idx rule: apply_scan.induct)
  case (1 i j a b limit idx)
  show ?case
  proof (cases "idx > limit \<or> LogEntry idx a = None \<or> LogEntry idx b = None")
    case True
    then have "apply_scan i j a b limit idx = []" by (subst apply_scan.simps) (auto split: option.split)
    then show ?thesis using True by (auto simp: both_hold_rec [of a b idx])
  next
    case False
    then obtain ea eb where e: "LogEntry idx a = Some ea" "LogEntry idx b = Some eb" and lim: "\<not> limit < idx" by auto
    have hold: "both_hold a b idx k \<longleftrightarrow> k = idx \<or> both_hold a b (idx + 1) k" for k
      using e by (subst both_hold_rec) (auto simp: both_hold_def)
    show ?thesis
    proof (cases "entCmd ea = entCmd eb")
      case True
      with e lim hold "1.IH" [OF lim _ e] show ?thesis by (subst apply_scan.simps) auto
    next
      case diff: False
      then have "apply_scan i j a b limit idx \<noteq> []" using e lim by (subst apply_scan.simps) simp
      moreover have "idx \<le> limit" "both_hold a b idx idx" using lim hold by auto
      ultimately show ?thesis using e diff by blast
    qed
  qed
qed

lemma all_pairs_sym:
  assumes "distinct xs" "\<And>x y. P x y \<longleftrightarrow> P y x"
  shows "(\<forall>(x, y) \<in> set (all_pairs xs). P x y) \<longleftrightarrow> (\<forall>x \<in> set xs. \<forall>y \<in> set xs. x \<noteq> y \<longrightarrow> P x y)"
  using assms(1)
proof (induction xs)
  case (Cons a xs)
  have "(\<forall>(x, y) \<in> set (all_pairs (a # xs)). P x y) \<longleftrightarrow> (\<forall>y \<in> set xs. P a y) \<and> (\<forall>(x, y) \<in> set (all_pairs xs). P x y)"
    by (simp add: ball_Un)
  moreover have "(\<forall>x \<in> set (a # xs). \<forall>y \<in> set (a # xs). x \<noteq> y \<longrightarrow> P x y) \<longleftrightarrow>
      (\<forall>y \<in> set xs. P a y) \<and> (\<forall>x \<in> set xs. \<forall>y \<in> set xs. x \<noteq> y \<longrightarrow> P x y)"
    using Cons.prems assms(2) [THEN iffD1] by auto
  ultimately show ?case using Cons by simp
qed simp

lemma both_hold_sym: "both_hold a b i k \<longleftrightarrow> both_hold b a i k"
  by (auto simp: both_hold_def)

text \<open>Two nodes agree on the commands of the entries of the same term in their common prefix.\<close>

definition logs_match :: "('s, 'd) Node \<Rightarrow> ('s, 'd) Node \<Rightarrow> bool" where
  "logs_match a b \<longleftrightarrow> (\<forall>k ea eb. both_hold a b 1 k \<longrightarrow> LogEntry k a = Some ea \<longrightarrow> LogEntry k b = Some eb \<longrightarrow>
     entTerm ea = entTerm eb \<longrightarrow> entCmd ea = entCmd eb)"

definition applied_alike :: "('s, 'd) Node \<Rightarrow> ('s, 'd) Node \<Rightarrow> bool" where
  "applied_alike a b \<longleftrightarrow> (\<forall>k ea eb. k \<le> min (ApplyIndex a) (ApplyIndex b) \<longrightarrow> both_hold a b 1 k \<longrightarrow>
     LogEntry k a = Some ea \<longrightarrow> LogEntry k b = Some eb \<longrightarrow> entCmd ea = entCmd eb)"

lemma pair_oracle_silent:
  assumes "distinct order" "set order = dom (startedNodes c)" "\<And>a b. Q a b \<longleftrightarrow> Q b a" "\<And>i j a b. f i j a b = [] \<longleftrightarrow> Q a b"
  shows "concat (map (on_pair f c) (all_pairs order)) = [] \<longleftrightarrow>
    (\<forall>i j a b. startedNodes c i = Some a \<longrightarrow> startedNodes c j = Some b \<longrightarrow> i \<noteq> j \<longrightarrow> Q a b)"
proof -
  let ?P = "\<lambda>i j. \<forall>a b. startedNodes c i = Some a \<longrightarrow> startedNodes c j = Some b \<longrightarrow> Q a b"
  have "on_pair f c (i, j) = [] \<longleftrightarrow> ?P i j" for i j by (auto simp: on_pair_def assms(4) split: option.splits)
  then have "concat (map (on_pair f c) (all_pairs order)) = [] \<longleftrightarrow> (\<forall>(i, j) \<in> set (all_pairs order). ?P i j)"
    by (auto simp: concat_eq_Nil_conv)
  also have "\<dots> \<longleftrightarrow> (\<forall>i \<in> set order. \<forall>j \<in> set order. i \<noteq> j \<longrightarrow> ?P i j)"
    using assms(3) by (intro all_pairs_sym [OF assms(1)]) blast
  also have "\<dots> \<longleftrightarrow> (\<forall>i j a b. startedNodes c i = Some a \<longrightarrow> startedNodes c j = Some b \<longrightarrow> i \<noteq> j \<longrightarrow> Q a b)"
  proof (intro iffI allI impI ballI)
    fix i j a b
    assume "\<forall>i \<in> set order. \<forall>j \<in> set order. i \<noteq> j \<longrightarrow> ?P i j" "startedNodes c i = Some a" "startedNodes c j = Some b" "i \<noteq> j"
    moreover from this have "i \<in> set order" "j \<in> set order" by (auto simp: assms(2))
    ultimately show "Q a b" by blast
  qed blast
  finally show ?thesis .
qed

lemma logMatching_silent:
  assumes "distinct order" "set order = dom (startedNodes c)"
  shows "logMatching_Check order c = [] \<longleftrightarrow>
    (\<forall>i j a b. startedNodes c i = Some a \<longrightarrow> startedNodes c j = Some b \<longrightarrow> i \<noteq> j \<longrightarrow> logs_match a b)"
  unfolding logMatching_Check_def
proof (rule pair_oracle_silent [OF assms])
  show "logs_match a b \<longleftrightarrow> logs_match b a" for a b :: chaos_node
    unfolding logs_match_def both_hold_sym [of a b] by metis
  show "log_scan i j a b 1 = [] \<longleftrightarrow> logs_match a b" for i j and a b :: chaos_node
    by (simp add: log_scan_silent logs_match_def)
qed

lemma stateMachineSafety_silent:
  assumes "distinct order" "set order = dom (startedNodes c)"
  shows "stateMachineSafety_Check order c = [] \<longleftrightarrow>
    (\<forall>i j a b. startedNodes c i = Some a \<longrightarrow> startedNodes c j = Some b \<longrightarrow> i \<noteq> j \<longrightarrow> applied_alike a b)"
  unfolding stateMachineSafety_Check_def
proof (rule pair_oracle_silent [OF assms])
  show "applied_alike a b \<longleftrightarrow> applied_alike b a" for a b :: chaos_node
    unfolding applied_alike_def both_hold_sym [of a b] min.commute [of "ApplyIndex a"] by metis
  show "(let limit = (if ApplyIndex b < ApplyIndex a then ApplyIndex b else ApplyIndex a) in apply_scan i j a b limit 1) = [] \<longleftrightarrow>
      applied_alike a b" for i j and a b :: chaos_node
    by (simp add: apply_scan_silent applied_alike_def Let_def min_def not_less)
qed

text \<open>A node whose log has been compacted has no entry 1, so these two oracles compare nothing.\<close>

lemma compacted_not_checked: "1 \<le> lastIncludedIndex a \<Longrightarrow> logs_match a b \<and> applied_alike a b"
proof -
  assume "1 \<le> lastIncludedIndex a"
  then have "\<not> both_hold a b 1 k" for k by (subst both_hold_rec) (simp add: LogEntry_def entryAt_eq)
  then show "logs_match a b \<and> applied_alike a b" by (simp add: logs_match_def applied_alike_def)
qed

end
