(* ===== verification/Client.thy ===== *)
theory Client
  imports Engine
begin

text \<open>
  pkg/client/client.go: the redirect-following client.  The network (\<open>clRound\<close>), the resolution of
  a \<open>Location\<close> and the check of a URL are parameters; the redirect rules are those of
  \<open>net/http\<close>.  Shown here: a write answered with 307 is sent again, unchanged, to the place named,
  and a client makes at most ten requests.
\<close>

record http_reply =
  rpStatus :: int
  rpLocation :: string
  rpBody :: string

record 'w http_net =
  clRound :: "string \<Rightarrow> string \<Rightarrow> string \<Rightarrow> 'w \<Rightarrow> http_reply res \<times> 'w"
  clParses :: "string \<Rightarrow> bool"
  clResolve :: "string \<Rightarrow> string \<Rightarrow> string"

record Client =
  clBase :: string

definition client_New :: "string \<Rightarrow> Client" where
  "client_New base = \<lparr>clBase = rev (dropWhile ((=) CHR ''/'') (rev base))\<rparr>"

definition client_url :: "Client \<Rightarrow> string \<Rightarrow> string" where
  "client_url c path = clBase c @ path"

text \<open>\<open>http.Client.Do\<close>: method and body for the next request, if the reply is a redirect.\<close>

definition redirect_to :: "string \<Rightarrow> string \<Rightarrow> http_reply \<Rightarrow> (string \<times> string) option" where
  "redirect_to meth body rp =
     (if rpLocation rp = '''' then None
      else if rpStatus rp \<in> {307, 308} then Some (meth, body)
      else if rpStatus rp \<in> {301, 302, 303} then Some (if meth \<in> {''GET'', ''HEAD''} then (meth, body) else (''GET'', ''''))
      else None)"

fun client_Do :: "'w http_net \<Rightarrow> nat \<Rightarrow> string \<Rightarrow> string \<Rightarrow> string \<Rightarrow> 'w \<Rightarrow> http_reply res \<times> 'w" where
  "client_Do net 0 meth url body w = (Inl (ErrOther ''stopped after 10 redirects''), w)"
| "client_Do net (Suc k) meth url body w =
     (case clRound net meth url body w of
        (Inl e, w1) \<Rightarrow> (Inl e, w1)
      | (Inr rp, w1) \<Rightarrow>
          (case redirect_to meth body rp of
             None \<Rightarrow> (Inr rp, w1)
           | Some (meth', body') \<Rightarrow> client_Do net k meth' (clResolve net url (rpLocation rp)) body' w1))"

definition new_request :: "'w http_net \<Rightarrow> string \<Rightarrow> string \<Rightarrow> string \<Rightarrow> 'w \<Rightarrow> http_reply res \<times> 'w" where
  "new_request net meth url body w =
     (if clParses net url then client_Do net 10 meth url body w else (Inl (ErrOther ''parse''), w))"

definition client_Put :: "'w http_net \<Rightarrow> Client \<Rightarrow> string \<Rightarrow> string \<Rightarrow> 'w \<Rightarrow> http_reply res \<times> 'w" where
  "client_Put net c key val = new_request net ''PUT'' (client_url c (''/kv/'' @ key)) val"

definition client_Get :: "'w http_net \<Rightarrow> Client \<Rightarrow> string \<Rightarrow> 'w \<Rightarrow> http_reply res \<times> 'w" where
  "client_Get net c key = new_request net ''GET'' (client_url c (''/kv/'' @ key)) ''''"

definition client_Delete :: "'w http_net \<Rightarrow> Client \<Rightarrow> string \<Rightarrow> 'w \<Rightarrow> http_reply res \<times> 'w" where
  "client_Delete net c key = new_request net ''DELETE'' (client_url c (''/kv/'' @ key)) ''''"

section \<open>Redirects\<close>

lemma client_New_no_slash: "clBase (client_New base) = '''' \<or> last (clBase (client_New base)) \<noteq> CHR ''/''"
proof -
  let ?d = "dropWhile ((=) CHR ''/'') (rev base)"
  have "?d \<noteq> [] \<Longrightarrow> hd ?d \<noteq> CHR ''/''" using hd_dropWhile [of "(=) CHR ''/''" "rev base"] by fastforce
  then show ?thesis by (auto simp: client_New_def last_rev)
qed

text \<open>A write sent to a follower ends with the leader's reply to the same write.\<close>

lemma put_follows:
  assumes "clParses net (client_url c (''/kv/'' @ key))"
    and "clRound net ''PUT'' (client_url c (''/kv/'' @ key)) v w = (Inr f, w1)" "rpStatus f = 307" "rpLocation f \<noteq> ''''"
    and "clRound net ''PUT'' (clResolve net (client_url c (''/kv/'' @ key)) (rpLocation f)) v w1 = (Inr l, w2)"
      "rpStatus l \<notin> {301, 302, 303, 307, 308}"
  shows "client_Put net c key v w = (Inr l, w2)"
  using assms by (simp add: client_Put_def new_request_def eval_nat_numeral redirect_to_def)

text \<open>\<open>count_net\<close> counts the requests that are made.\<close>

definition count_net :: "'w http_net \<Rightarrow> ('w \<times> nat) http_net" where
  "count_net net =
     \<lparr>clRound = (\<lambda>meth url body (w, k). case clRound net meth url body w of (r, w') \<Rightarrow> (r, (w', k + 1))),
      clParses = clParses net, clResolve = clResolve net\<rparr>"

lemma Do_counts: "client_Do (count_net net) k meth url body (w, j) = (r, w', j') \<Longrightarrow> j' \<le> j + k"
proof (induction k arbitrary: meth url body w j)
  case (Suc k)
  obtain x w1 where x: "clRound net meth url body w = (x, w1)" by fastforce
  then have round: "clRound (count_net net) meth url body (w, j) = (x, (w1, j + 1))" by (simp add: count_net_def)
  show ?case
  proof (cases x)
    case (Inr rp)
    show ?thesis
    proof (cases "redirect_to meth body rp")
      case (Some mb)
      then show ?thesis using Suc.prems Suc.IH [of "fst mb" _ "snd mb" w1 "j + 1"] Inr round by (cases mb) fastforce
    qed (use Suc.prems Inr round in auto)
  qed (use Suc.prems round in auto)
qed simp

lemma at_most_ten: "new_request (count_net net) meth url body (w, 0) = (r, w', j) \<Longrightarrow> j \<le> 10"
  using Do_counts [of net 10 meth url body w 0] by (auto simp: new_request_def split: if_splits)

end
