(* ===== verification/GroupCommit.thy ===== *)
theory GroupCommit
  imports Durability
begin

text \<open>
  The batch loop of pkg/storage/batcher.go refines one-request-at-a-time execution.  The
  refinement goes through two notions of independence: a step that depends on the number of
  I/O calls made so far only in that number (\<open>io_free\<close>, \<open>store_io_free\<close>), and one that does
  not look at how much of the log is synced (\<open>sync_free\<close>).
\<close>

section \<open>Group commit\<close>

text \<open>
  Without I/O errors, collecting writes into batches is invisible: replies, memory and log
  are those of executing every request alone in order of arrival, and only the number of
  I/O calls differs.
\<close>

definition exec_alone :: "batchRequest \<times> (nat \<Rightarrow> int64) \<Rightarrow> DiskStore \<Rightarrow> reply \<times> DiskStore" where
  "exec_alone rc s =
     (if of_char (brOp (fst rc)) < (4::nat)
      then case writeBatch [fst rc] s of (rs, s') \<Rightarrow> (snd (hd rs), s')
      else writeSingle (snd rc) (fst rc) s)"

fun exec_all :: "(batchRequest \<times> (nat \<Rightarrow> int64)) list \<Rightarrow> DiskStore \<Rightarrow> (batchRequest \<times> reply) list \<times> DiskStore" where
  "exec_all [] s = ([], s)"
| "exec_all (rc # rcs) s =
     (case exec_alone rc s of
        (r, s1) \<Rightarrow> (case exec_all rcs s1 of (rs, s2) \<Rightarrow> ((fst rc, r) # rs, s2)))"

fun received :: "batch_event list \<Rightarrow> (batchRequest \<times> (nat \<Rightarrow> int64)) list" where
  "received [] = []"
| "received (Recv req clk # evs) = (req, clk) # received evs"
| "received (_ # evs) = received evs"

text \<open>\<open>io_free f\<close>: in a quiet world, \<open>f\<close> depends on the count of I/O calls in that count only.\<close>

definition io_free :: "(world \<Rightarrow> 'a res \<times> world) \<Rightarrow> bool" where
  "io_free f \<longleftrightarrow> (\<forall>w n. quiet w \<longrightarrow> quiet (snd (f w)) \<and>
     (\<exists>n'. f (w\<lparr>ioCnt := n\<rparr>) = (fst (f w), (snd (f w))\<lparr>ioCnt := n'\<rparr>)))"

lemma io_freeE:
  assumes "io_free f" "quiet w" "f w = (x, w')"
  obtains n' where "f (w\<lparr>ioCnt := n\<rparr>) = (x, w'\<lparr>ioCnt := n'\<rparr>)" "quiet w'"
  using assms unfolding io_free_def by (metis fst_conv snd_conv)

lemma io_free_and_then:
  assumes "io_free f" "\<And>x. io_free (g x)"
  shows "io_free (and_then f g)"
  unfolding io_free_def
proof (intro allI impI)
  fix w n assume w: "quiet w"
  obtain x w1 where x: "f w = (x, w1)" by fastforce
  obtain n1 where n1: "f (w\<lparr>ioCnt := n\<rparr>) = (x, w1\<lparr>ioCnt := n1\<rparr>)" "quiet w1"
    using io_freeE [OF assms(1) w x] .
  show "quiet (snd (and_then f g w)) \<and>
      (\<exists>n'. and_then f g (w\<lparr>ioCnt := n\<rparr>) = (fst (and_then f g w), (snd (and_then f g w))\<lparr>ioCnt := n'\<rparr>))"
  proof (cases x)
    case (Inl e)
    then show ?thesis using x n1 by (auto simp: and_then_def)
  next
    case (Inr y)
    then show ?thesis
      using x n1 assms(2) [of y] unfolding io_free_def by (simp add: and_then_def)
  qed
qed

lemma io_free_steps [simp]:
  "io_free (file_Write b)" "io_free wal_Sync" "io_free (\<lambda>w. (Inr (), w))"
  by (auto simp: io_free_def quiet_def file_Write_def wal_Sync_def file_Sync_def)

lemma io_free_seal [simp]: "io_free (seal ci b)"
  unfolding io_free_def
proof (intro allI impI conjI)
  fix w n assume w: "quiet w"
  then show "quiet (snd (seal ci b w))" by (simp add: seal_def quiet_def)
  show "\<exists>n'. seal ci b (w\<lparr>ioCnt := n\<rparr>) = (fst (seal ci b w), (snd (seal ci b w))\<lparr>ioCnt := n'\<rparr>)"
    by (rule exI [of _ n]) (simp add: seal_def)
qed

lemma io_free_append [simp]: "io_free (wal_append c b)"
  by (auto simp: wal_append_def intro!: io_free_and_then split: option.split)

lemma io_free_append_req [simp]: "io_free (append_req c req)"
  by (simp add: append_req_def Append_rec_bytes)

lemma io_free_append_reqs [simp]: "io_free (append_reqs c reqs)"
proof (induction reqs)
  case Nil
  have "append_reqs c [] = (\<lambda>w. (Inr (), w))" by auto
  then show ?case by simp
next
  case (Cons req reqs)
  have "append_reqs c (req # reqs) = and_then (append_req c req) (\<lambda>_. append_reqs c reqs)" by auto
  then show ?case using Cons by (auto intro: io_free_and_then)
qed

definition at_io :: "nat \<Rightarrow> DiskStore \<Rightarrow> DiskStore" where
  "at_io n s = s\<lparr>dworld := (dworld s)\<lparr>ioCnt := n\<rparr>\<rparr>"

lemma at_io_simps [simp]:
  "dmem (at_io n s) = dmem s" "dcipher (at_io n s) = dcipher s" "dworld (at_io n s) = (dworld s)\<lparr>ioCnt := n\<rparr>"
  "at_io n (at_io n' s) = at_io n s" "quiet (w\<lparr>ioCnt := n\<rparr>) = quiet w"
  "at_io n (s\<lparr>dmem := m\<rparr>) = (at_io n s)\<lparr>dmem := m\<rparr>"
  by (simp_all add: at_io_def quiet_def)

text \<open>The same for steps of the store.\<close>

definition store_io_free :: "(DiskStore \<Rightarrow> 'a \<times> DiskStore) \<Rightarrow> bool" where
  "store_io_free F \<longleftrightarrow> (\<forall>s n. quiet (dworld s) \<longrightarrow> quiet (dworld (snd (F s))) \<and>
     (\<exists>n'. F (at_io n s) = (fst (F s), at_io n' (snd (F s)))))"

lemma store_io_freeE:
  assumes "store_io_free F" "quiet (dworld s)" "F s = (x, s')"
  obtains n' where "F (at_io n s) = (x, at_io n' s')" "quiet (dworld s')"
  using assms unfolding store_io_free_def by (metis fst_conv snd_conv)

lemma store_io_free_and_then:
  assumes "store_io_free F" "\<And>x. store_io_free (G x)"
  shows "store_io_free (and_then F G)"
  unfolding store_io_free_def
proof (intro allI impI)
  fix s :: DiskStore and n assume s: "quiet (dworld s)"
  obtain x s1 where x: "F s = (x, s1)" by fastforce
  obtain n1 where n1: "F (at_io n s) = (x, at_io n1 s1)" "quiet (dworld s1)"
    using store_io_freeE [OF assms(1) s x] .
  show "quiet (dworld (snd (and_then F G s))) \<and>
      (\<exists>n'. and_then F G (at_io n s) = (fst (and_then F G s), at_io n' (snd (and_then F G s))))"
  proof (cases x)
    case (Inl e)
    then show ?thesis using x n1 by (auto simp: and_then_def)
  next
    case (Inr y)
    then show ?thesis
      using x n1 assms(2) [of y] unfolding store_io_free_def by (simp add: and_then_def)
  qed
qed

lemma store_io_free_on_wal:
  assumes "\<And>c. io_free (f c)"
  shows "store_io_free (on_wal f)"
  unfolding store_io_free_def
proof (intro allI impI)
  fix s :: DiskStore and n assume s: "quiet (dworld s)"
  obtain x w1 where x: "f (dcipher s) (dworld s) = (x, w1)" by fastforce
  obtain n1 where "f (dcipher s) ((dworld s)\<lparr>ioCnt := n\<rparr>) = (x, w1\<lparr>ioCnt := n1\<rparr>)" "quiet w1"
    using io_freeE [OF assms s x] .
  then show "quiet (dworld (snd (on_wal f s))) \<and> (\<exists>n'. on_wal f (at_io n s) = (fst (on_wal f s), at_io n' (snd (on_wal f s))))"
    using x by (auto simp: on_wal_def at_io_def)
qed

lemma store_io_free_mem:
  "store_io_free (\<lambda>s. (r (dmem s), s\<lparr>dmem := g (dmem s)\<rparr>))"
  by (auto simp: store_io_free_def)

lemma store_io_free_memI:
  "(\<And>s. F s = (r (dmem s), s\<lparr>dmem := g (dmem s)\<rparr>)) \<Longrightarrow> store_io_free F"
  using store_io_free_mem [of r g] by presburger

text \<open>It is enough to look at one memory at a time.\<close>

lemma store_io_free_by_mem:
  assumes "\<And>m. \<exists>G. store_io_free G \<and> (\<forall>s. dmem s = m \<longrightarrow> F s = G s)"
  shows "store_io_free F"
  unfolding store_io_free_def
proof (intro allI impI)
  fix s :: DiskStore and n assume s: "quiet (dworld s)"
  obtain G where G: "store_io_free G" "\<forall>s'. dmem s' = dmem s \<longrightarrow> F s' = G s'" using assms by blast
  then show "quiet (dworld (snd (F s))) \<and> (\<exists>n'. F (at_io n s) = (fst (F s), at_io n' (snd (F s))))"
    using s unfolding store_io_free_def by simp
qed

lemma store_io_free_set:
  assumes "store_io_free F"
  shows "store_io_free (\<lambda>s. F (s\<lparr>dmem := m\<rparr>))"
  unfolding store_io_free_def
proof (intro allI impI)
  fix s :: DiskStore and n assume "quiet (dworld s)"
  then have "quiet (dworld (s\<lparr>dmem := m\<rparr>))" by simp
  from assms [unfolded store_io_free_def, rule_format, OF this, of n]
  show "quiet (dworld (snd (F (s\<lparr>dmem := m\<rparr>)))) \<and>
      (\<exists>n'. F ((at_io n s)\<lparr>dmem := m\<rparr>) = (fst (F (s\<lparr>dmem := m\<rparr>)), at_io n' (snd (F (s\<lparr>dmem := m\<rparr>)))))"
    by simp
qed

lemma store_io_free_writeSingle: "store_io_free (writeSingle clk req)"
proof -
  have app: "store_io_free (and_then (on_wal (\<lambda>c. wal_append c b)) (\<lambda>_. and_then (on_wal (\<lambda>c. wal_Sync)) (\<lambda>_. k)))"
    if "store_io_free k" for b and k :: "DiskStore \<Rightarrow> brResult res \<times> DiskStore"
    using that by (intro store_io_free_and_then store_io_free_on_wal) auto
  have incr: "store_io_free (\<lambda>s. case mem_Incr (clk 0) (brKey req) (dmem s) of
      (Inl e, m) \<Rightarrow> (Inl e, s\<lparr>dmem := m\<rparr>) | (Inr v, m) \<Rightarrow> (Inr (RInt v), s\<lparr>dmem := m\<rparr>))"
    by (rule store_io_free_memI [where r = "\<lambda>m. map_sum id RInt (fst (mem_Incr (clk 0) (brKey req) m))"
          and g = "\<lambda>m. snd (mem_Incr (clk 0) (brKey req) m)"]) (simp split: prod.split sum.split)
  have expire: "store_io_free (\<lambda>s. case mem_Expire (clk 2) (brKey req) (brExpiresAt req) (dmem s) of
      (Inl e, m) \<Rightarrow> (Inl e, s\<lparr>dmem := m\<rparr>) | (Inr _, m) \<Rightarrow> (Inr RNil, s\<lparr>dmem := m\<rparr>))"
    by (rule store_io_free_memI [where r = "\<lambda>m. map_sum id (\<lambda>_. RNil) (fst (mem_Expire (clk 2) (brKey req) (brExpiresAt req) m))"
          and g = "\<lambda>m. snd (mem_Expire (clk 2) (brKey req) (brExpiresAt req) m)"]) (simp split: prod.split sum.split)
  have put: "store_io_free (\<lambda>s. (Inr (RBool True), s\<lparr>dmem := mem_Put (brKey req) (brValue req) (dmem s)\<rparr>))"
    by (rule store_io_free_mem)
  have const: "store_io_free (\<lambda>s. (x :: brResult res, s\<lparr>dmem := m\<rparr>))" "store_io_free (\<lambda>s. (x :: brResult res, s))" for x m
    by (auto simp: store_io_free_def)
  show ?thesis
  proof (rule store_io_free_by_mem)
    fix m
    obtain g m1 where g: "mem_Get (clk 0) (clk 1) (brKey req) m = (g, m1)" by fastforce
    note G = app [OF incr, of "rec_bytes (RecIncr (brKey req))"]
      store_io_free_set [OF app [OF put], of "rec_bytes (RecCAS (brKey req) (brOld req) (brValue req))" m1]
      store_io_free_set [OF app [OF expire], of "rec_bytes (RecExpire (brKey req) (brExpiresAt req))" m1]
      const(1) [of "Inl ErrNotFound" m1] const(1) [of "Inr (RBool False)" m1]
      const(2) [of "Inl (ErrOther ''storage: unexpected single op'')"]
    have via: "\<exists>G. store_io_free G \<and> (\<forall>s. dmem s = m \<longrightarrow> writeSingle clk req s = G s)"
      if "store_io_free G" "\<And>s. dmem s = m \<Longrightarrow> writeSingle clk req s = G s" for G
      using that by blast
    show "\<exists>G. store_io_free G \<and> (\<forall>s. dmem s = m \<longrightarrow> writeSingle clk req s = G s)"
    proof (cases "brOp req = opIncr")
      case True
      then show ?thesis by (intro via [OF G(1)]) (simp add: writeSingle_def Append_rec_bytes)
    next
      case not_incr: False
      show ?thesis
      proof (cases "brOp req = opCAS \<or> brOp req = opExpire")
        case False
        with not_incr show ?thesis by (intro via [OF G(6)]) (simp add: writeSingle_def)
      next
        case True
        show ?thesis
        proof (cases g)
          case (Inl e)
          then show ?thesis
            using g mem_Get_errors [of "clk 0" "clk 1" "brKey req" m e m1] True
            by (intro via [OF G(4)]) (auto simp: writeSingle_def)
        next
          case (Inr v)
          then show ?thesis
            using g True not_incr
              via [OF G(2)] via [OF G(3)] via [OF G(5)]
            by (cases "brOp req = opCAS"; cases "v = brOld req") (simp_all add: writeSingle_def Append_rec_bytes)
        qed
      qed
    qed
  qed
qed

lemma store_io_free_writeBatch: "store_io_free (writeBatch batch)"
proof (cases "batch = []")
  case True
  then show ?thesis by (auto simp: store_io_free_def writeBatch_def)
next
  case False
  let ?F = "and_then (on_wal (\<lambda>c. append_reqs c batch)) (\<lambda>_. on_wal (\<lambda>c. wal_Sync))"
  have F: "store_io_free ?F" by (intro store_io_free_and_then store_io_free_on_wal) auto
  show ?thesis
    unfolding store_io_free_def
  proof (intro allI impI)
    fix s :: DiskStore and n assume s: "quiet (dworld s)"
    obtain x s1 where x: "?F s = (x, s1)" by fastforce
    obtain n1 where "?F (at_io n s) = (x, at_io n1 s1)" "quiet (dworld s1)"
      using store_io_freeE [OF F s x] .
    then show "quiet (dworld (snd (writeBatch batch s))) \<and>
        (\<exists>n'. writeBatch batch (at_io n s) = (fst (writeBatch batch s), at_io n' (snd (writeBatch batch s))))"
      using x False by (cases x) (auto simp: writeBatch_def)
  qed
qed

text \<open>Appending does not look at how much is synced.\<close>

definition sync_free :: "(world \<Rightarrow> 'a res \<times> world) \<Rightarrow> bool" where
  "sync_free f \<longleftrightarrow> (\<forall>w k. f (w\<lparr>walSynced := k\<rparr>) = (fst (f w), (snd (f w))\<lparr>walSynced := k\<rparr>))"

lemma sync_free_and_then:
  assumes "sync_free f" "\<And>x. sync_free (g x)"
  shows "sync_free (and_then f g)"
  unfolding sync_free_def
proof (intro allI)
  fix w k
  obtain x w1 where x: "f w = (x, w1)" by fastforce
  then have "f (w\<lparr>walSynced := k\<rparr>) = (x, w1\<lparr>walSynced := k\<rparr>)" using assms(1) by (simp add: sync_free_def)
  then show "and_then f g (w\<lparr>walSynced := k\<rparr>) = (fst (and_then f g w), (snd (and_then f g w))\<lparr>walSynced := k\<rparr>)"
    using x assms(2) by (cases x) (simp_all add: and_then_def sync_free_def)
qed

lemma sync_free_append: "sync_free (wal_append c b)"
proof -
  have "sync_free (file_Write b')" "sync_free (seal ci b')" for b' ci
    by (auto simp: sync_free_def file_Write_def seal_def split: option.splits)
  then show ?thesis by (auto simp: wal_append_def intro!: sync_free_and_then split: option.split)
qed

lemma sync_free_append_req: "sync_free (append_req c req)"
  using sync_free_append by (auto simp: append_req_def Append_rec_bytes sync_free_def)

lemma append_reqs_snoc:
  "append_reqs c (reqs @ [req]) w = and_then (append_reqs c reqs) (\<lambda>_. append_req c req) w"
proof (induction reqs arbitrary: w)
  case Nil
  then show ?case by (simp add: and_then_def split: prod.splits sum.splits)
next
  case (Cons r reqs)
  then show ?case by (simp add: and_then_def split: prod.splits sum.splits)
qed

lemma at_io_self: "at_io (ioCnt (dworld s)) s = s"
  by (simp add: at_io_def)

lemma writeBatch_ok:
  assumes "quiet (dworld s)" "\<forall>req \<in> set batch. of_char (brOp req) < (4::nat)"
  shows "fst (writeBatch batch s) = map (\<lambda>req. (req, Inr RNil)) batch"
proof -
  obtain w1 where w1: "append_reqs (dcipher s) batch (dworld s) = (Inr (), w1)"
    using quiet_append_reqs [OF assms] by blast
  then have "quiet w1" using append_reqs_logged [OF w1 assms(2)] assms(1) by (blast intro: quiet_logged)
  with w1 show ?thesis by (simp add: writeBatch_def and_then_def on_wal_def quiet_sync)
qed

lemma writeBatch_snoc:
  assumes "quiet (dworld s)" "\<forall>r \<in> set (batch @ [req]). of_char (brOp r) < (4::nat)"
  shows "\<exists>n. snd (writeBatch [req] (snd (writeBatch batch s))) = at_io n (snd (writeBatch (batch @ [req]) s))"
proof (cases "batch = []")
  case True
  then show ?thesis
    by (intro exI [of _ "ioCnt (dworld (snd (writeBatch [req] s)))"]) (simp add: writeBatch_def [of "[]"] at_io_self)
next
  case False
  let ?c = "dcipher s"
  obtain w1 where w1: "append_reqs ?c batch (dworld s) = (Inr (), w1)"
    using quiet_append_reqs [OF assms(1), of batch] assms(2) by auto
  have q1: "quiet w1" using append_reqs_logged [OF w1] assms by (auto intro: quiet_logged)
  obtain w2 where w2: "append_req ?c req w1 = (Inr (), w2)"
    using quiet_append_reqs [OF q1, of "[req]" ?c] assms(2) by (auto simp: and_then_Inr)
  have q2: "quiet w2" using append_req_logged [OF w2] q1 assms(2) by (auto intro: quiet_logged)
  let ?w1' = "w1\<lparr>walSynced := length (walFile w1), ioCnt := ioCnt w1 + 1\<rparr>"
  obtain n where n: "append_req ?c req (w1\<lparr>ioCnt := ioCnt w1 + 1\<rparr>) = (Inr (), w2\<lparr>ioCnt := n\<rparr>)"
    using io_freeE [OF io_free_append_req q1 w2] by blast
  have "append_req ?c req (w1\<lparr>ioCnt := ioCnt w1 + 1, walSynced := length (walFile w1)\<rparr>) =
      (Inr (), w2\<lparr>ioCnt := n, walSynced := length (walFile w1)\<rparr>)"
    using sync_free_append_req [of ?c req] n by (simp add: sync_free_def)
  moreover have "w\<lparr>ioCnt := a, walSynced := b\<rparr> = w\<lparr>walSynced := b, ioCnt := a\<rparr>" for w :: world and a b by simp
  ultimately have "append_req ?c req ?w1' = (Inr (), w2\<lparr>walSynced := length (walFile w1), ioCnt := n\<rparr>)" by simp
  then show ?thesis
    using False w1 w2 q1 q2
    by (intro exI [of _ "Suc n"]) (simp add: writeBatch_def append_reqs_snoc and_then_def on_wal_def quiet_sync at_io_def quiet_def)
qed

lemma store_io_free_exec_alone: "store_io_free (exec_alone rc)"
proof (cases "of_char (brOp (fst rc)) < (4::nat)")
  case True
  have "store_io_free (\<lambda>s. case writeBatch [fst rc] s of (rs, s') \<Rightarrow> (snd (hd rs), s'))"
    using store_io_free_writeBatch [of "[fst rc]"]
    unfolding store_io_free_def case_prod_unfold by (metis fst_conv snd_conv)
  then show ?thesis using True by (simp add: exec_alone_def [abs_def])
next
  case False
  then show ?thesis using store_io_free_writeSingle [of "snd rc" "fst rc"] by (simp add: exec_alone_def [abs_def])
qed

lemma exec_all_io:
  assumes "quiet (dworld s)"
  shows "\<exists>n'. exec_all rcs (at_io n s) = (fst (exec_all rcs s), at_io n' (snd (exec_all rcs s)))"
  using assms
proof (induction rcs arbitrary: s n)
  case (Cons rc rcs)
  obtain r s1 where r: "exec_alone rc s = (r, s1)" by fastforce
  obtain n1 where n1: "exec_alone rc (at_io n s) = (r, at_io n1 s1)" "quiet (dworld s1)"
    using store_io_freeE [OF store_io_free_exec_alone Cons.prems r] by blast
  obtain n2 where "exec_all rcs (at_io n1 s1) = (fst (exec_all rcs s1), at_io n2 (snd (exec_all rcs s1)))"
    using Cons.IH [OF n1(2)] by blast
  with r n1 show ?case by (auto split: prod.splits)
qed auto

lemma quiet_writeBatch: "quiet (dworld s) \<Longrightarrow> quiet (dworld (snd (writeBatch batch s)))"
  using store_io_free_writeBatch [of batch] by (simp add: store_io_free_def)

lemma flush_simps:
  "lstore (flush l) = snd (writeBatch (lbatch l) (lstore l))" "lbatch (flush l) = []" "ltimer (flush l) = False"
  "ldone (flush l) = ldone l" "lreplies (flush l) = lreplies l @ fst (writeBatch (lbatch l) (lstore l))"
  by (simp_all add: flush_def split: prod.splits)

lemma batchLoop_equiv:
  assumes "quiet (dworld (lstore l))" "\<forall>r \<in> set (lbatch l). of_char (brOp r) < (4::nat)" "\<not> ldone l"
    and "ChanClosed \<notin> set evs"
  defines "l' \<equiv> batchLoop_step ChanClosed (fold batchLoop_step evs l)"
    and "ex \<equiv> exec_all (received evs) (snd (writeBatch (lbatch l) (lstore l)))"
  shows "lreplies l' = lreplies l @ map (\<lambda>req. (req, Inr RNil)) (lbatch l) @ fst ex \<and> (\<exists>n. lstore l' = at_io n (snd ex))"
  unfolding l'_def ex_def
  using assms(1-4)
proof (induction evs arbitrary: l)
  case Nil
  then show ?case
    by (auto simp: batchLoop_step_def flush_simps writeBatch_ok intro!: exI [of _ "ioCnt (dworld (snd (writeBatch (lbatch l) (lstore l))))"])
      (simp add: at_io_self)
next
  case (Cons ev evs)
  show ?case
  proof (cases ev)
    case ChanClosed
    then show ?thesis using Cons.prems by simp
  next
    case TimerFired
    show ?thesis
    proof (cases "ltimer l")
      case True
      then have "batchLoop_step ev l = flush l" using TimerFired Cons.prems by (simp add: batchLoop_step_def)
      then show ?thesis
        using Cons.IH [of "flush l"] Cons.prems TimerFired
        by (simp add: flush_simps quiet_writeBatch writeBatch_ok writeBatch_def [of "[]"])
    next
      case False
      then have "batchLoop_step ev l = l" using TimerFired Cons.prems by (simp add: batchLoop_step_def)
      then show ?thesis using Cons.IH [of l] Cons.prems TimerFired by simp
    qed
  next
    case (Recv req clk)
    show ?thesis
    proof (cases "of_char (brOp req) < (4::nat)")
      case True
      let ?l1 = "l\<lparr>lbatch := lbatch l @ [req], ltimer := True\<rparr>"
      let ?s = "snd (writeBatch (lbatch l) (lstore l))" and ?s1 = "snd (writeBatch (lbatch l @ [req]) (lstore l))"
      have ops: "\<forall>r \<in> set (lbatch l @ [req]). of_char (brOp r) < (4::nat)" using Cons.prems True by auto
      obtain n where n: "snd (writeBatch [req] ?s) = at_io n ?s1"
        using writeBatch_snoc [OF Cons.prems(1) ops] by blast
      have "exec_alone (req, clk) ?s = (Inr RNil, at_io n ?s1)"
        using True n writeBatch_ok [OF quiet_writeBatch [OF Cons.prems(1)], of "[req]" "lbatch l"]
        by (auto simp: exec_alone_def split: prod.splits)
      moreover obtain n2 where "exec_all (received evs) (at_io n ?s1) =
          (fst (exec_all (received evs) ?s1), at_io n2 (snd (exec_all (received evs) ?s1)))"
        using exec_all_io [OF quiet_writeBatch [OF Cons.prems(1)]] by blast
      ultimately have ex: "exec_all (received (ev # evs)) ?s =
          ((req, Inr RNil) # fst (exec_all (received evs) ?s1), at_io n2 (snd (exec_all (received evs) ?s1)))"
        using Recv by simp
      have step: "batchLoop_step ev l = (if length (lbatch l @ [req]) \<ge> maxBatchSize then flush ?l1 else ?l1)"
        using Recv True Cons.prems(3) by (simp add: batchLoop_step_def Let_def)
      have ok: "fst (writeBatch (lbatch l @ [req]) (lstore l)) = map (\<lambda>req. (req, Inr RNil)) (lbatch l @ [req])"
        by (rule writeBatch_ok [OF Cons.prems(1) ops])
      show ?thesis
        using Cons.IH [of ?l1] Cons.IH [of "flush ?l1"] Cons.prems ops step ex ok
        by (auto simp: flush_simps quiet_writeBatch writeBatch_def [of "[]"] Recv)
    next
      case False
      let ?s = "snd (writeBatch (lbatch l) (lstore l))"
      let ?l1 = "(flush l)\<lparr>lstore := snd (writeSingle clk req ?s), lreplies := lreplies (flush l) @ [(req, fst (writeSingle clk req ?s))]\<rparr>"
      have step: "batchLoop_step ev l = ?l1"
        using Recv False Cons.prems(3) by (simp add: batchLoop_step_def Let_def flush_simps split: prod.splits)
      have "quiet (dworld (snd (writeSingle clk req ?s)))"
        using store_io_free_writeSingle quiet_writeBatch [OF Cons.prems(1)] by (simp add: store_io_free_def)
      then show ?thesis
        using Cons.IH [of ?l1] Cons.prems step False
        by (simp add: flush_simps writeBatch_ok writeBatch_def [of "[]"] Recv exec_alone_def case_prod_unfold)
    qed
  qed
qed

end
