(* ===== verification/StorageTheorems.thy ===== *)
theory StorageTheorems
  imports GroupCommit FakeEngine
begin

text \<open>
  What the storage packages guarantee to their users, and where they fall short: recovery after
  a crash, durability of acknowledgements, group commit, the formats of the log and the
  snapshot, and the operations of the store.  The proofs compose the component theories; the
  examples at the end of a group fix concrete inputs.
\<close>

section \<open>Recovery\<close>

text \<open>A world without faults and with empty files.\<close>

definition fresh_world :: world where
  "fresh_world = \<lparr>walFile = [], walSynced = 0, snapFile = None, ioAt = (\<lambda>_. None), ioCnt = 0,
     nonceAt = (\<lambda>_. Inr (replicate atRestNonceSize CHR 0x00)), nonceCnt = 0\<rparr>"

lemma fresh_world_facts [simp]:
  "quiet fresh_world" "walFile fresh_world = []" "walSynced fresh_world = 0" "snapFile fresh_world = None"
  by (simp_all add: fresh_world_def quiet_def)

lemma cipher_ok_pad [simp]: "cipher_ok None" "cipher_ok (Some \<lparr>aead = pad_AEAD\<rparr>)"
  by (simp_all add: cipher_ok_def aead_ok_pad)


definition put_req :: "string \<Rightarrow> string \<Rightarrow> batchRequest" where
  "put_req k v = (new_req opPut k)\<lparr>brValue := v\<rparr>"

definition incr_req :: "string \<Rightarrow> batchRequest" where
  "incr_req k = new_req opIncr k"



section \<open>Acknowledgements\<close>

definition fresh_store :: "WAL \<Rightarrow> DiskStore" where
  "fresh_store c = \<lparr>dmem = NewMemStore, dcipher = c, dworld = fresh_world, dclosed = False\<rparr>"

text \<open>C2: group commit.  In a world without faults, the batch loop answers the requests it receives,
  in order, with exactly the replies that executing them one at a time would give, and leaves
  the same store (the count of file system calls apart), however timer and requests interleave.\<close>

theorem group_commit_equiv:
  assumes "quiet (dworld s)" "ChanClosed \<notin> set evs"
  defines "l' \<equiv> batchLoop_step ChanClosed (fold batchLoop_step evs (start_loop s))"
  shows "lreplies l' = fst (exec_all (received evs) s) \<and>
    (\<exists>n. lstore l' = at_io n (snd (exec_all (received evs) s)))"
  using batchLoop_equiv [of "start_loop s" evs] assms by (simp add: start_loop_def writeBatch_def)

theorem group_commit_equiv_witness:
  "lreplies (batchLoop_step ChanClosed (fold batchLoop_step
      [Recv (put_req ''k'' ''41'') (\<lambda>_. 1), Recv (incr_req ''k'') (\<lambda>_. 2), TimerFired]
      (start_loop (fresh_store None)))) =
   fst (exec_all [(put_req ''k'' ''41'', \<lambda>_. 1), (incr_req ''k'', \<lambda>_. 2)] (fresh_store None))"
  using group_commit_equiv [of "fresh_store None"
      "[Recv (put_req ''k'' ''41'') (\<lambda>_. 1), Recv (incr_req ''k'') (\<lambda>_. 2), TimerFired]"]
  by (simp add: fresh_store_def)

text \<open>C3: whatever calls fail, a write of a batch is acknowledged only when the records of the whole
  batch are in the log, in order, and the log is fsynced; the memory then holds the writes.\<close>

theorem batch_ack_durable:
  assumes "writeBatch batch s = (rs, s')" "(req, Inr x) \<in> set rs"
    and "\<forall>req \<in> set batch. of_char (brOp req) < (4::nat)"
  shows "logged (dcipher s) (dworld s) (concat (map req_recs batch)) (dworld s') \<and>
    fully_synced (dworld s') \<and> dmem s' = fold apply_req batch (dmem s)"
  using writeBatch_ack [OF assms] by blast

theorem batch_ack_durable_witness:
  "fully_synced (dworld (snd (writeBatch [put_req ''k'' ''v''] (fresh_store None))))"
proof -
  let ?r = "writeBatch [put_req ''k'' ''v''] (fresh_store None)"
  have "(put_req ''k'' ''v'', Inr RNil) \<in> set (fst ?r)"
    by (simp add: writeBatch_def and_then_def on_wal_def append_req_def put_req_def new_req_def opPut_def
        AppendPut_def wal_append_def file_Write_def wal_Sync_def file_Sync_def fresh_store_def fresh_world_def)
  from batch_ack_durable [OF prod.collapse [symmetric] this] show ?thesis
    by (simp add: put_req_def new_req_def opPut_def)
qed

text \<open>C4: the same for \<open>Incr\<close>, \<open>CAS\<close> and \<open>Expire\<close>: a reply that reports a change means the record is in
  the log and fsynced, whatever calls fail.\<close>

theorem single_ack_durable:
  assumes "writeSingle clk req s = (Inr x, s')" "x \<noteq> RBool False"
  shows "logged (dcipher s) (dworld s) (req_recs req) (dworld s') \<and> fully_synced (dworld s')"
  using writeSingle_ack [OF assms] by blast

theorem single_ack_durable_witness:
  "logged None fresh_world [RecIncr ''k''] (dworld (snd (writeSingle (\<lambda>_. 1) (incr_req ''k'') (fresh_store None))))"
proof -
  let ?r = "writeSingle (\<lambda>_. 1) (incr_req ''k'') (fresh_store None)"
  have "fst ?r = Inr (RInt 1)"
    by (simp add: writeSingle_def and_then_def on_wal_def incr_req_def new_req_def opIncr_def AppendIncr_def
        wal_append_def file_Write_def wal_Sync_def file_Sync_def fresh_store_def fresh_world_def mem_Incr_def
        NewMemStore_def Let_def)
  from single_ack_durable [of "\<lambda>_. 1" "incr_req ''k''" "fresh_store None" "RInt 1"] this show ?thesis
    by (simp add: prod_eq_iff fresh_store_def req_recs_def incr_req_def new_req_def opIncr_def opPut_def opDelete_def opClear_def)
qed

section \<open>The log\<close>

text \<open>Writing a record, by its kind.\<close>

fun append_rec :: "WAL \<Rightarrow> wal_record \<Rightarrow> world \<Rightarrow> unit res \<times> world" where
  "append_rec c (RecPut k v) = AppendPut c k v"
| "append_rec c (RecDelete k) = AppendDelete c k"
| "append_rec c RecClear = AppendClear c"
| "append_rec c (RecIncr k) = AppendIncr c k"
| "append_rec c (RecCAS k old new) = AppendCAS c k old new"
| "append_rec c (RecExpire k d) = AppendExpire c k d"

fun append_recs :: "WAL \<Rightarrow> wal_record list \<Rightarrow> world \<Rightarrow> unit res \<times> world" where
  "append_recs c [] w = (Inr (), w)"
| "append_recs c (r # rs) w = and_then (append_rec c r) (\<lambda>_. append_recs c rs) w"

lemma append_rec_eq: "append_rec c r = wal_append c (rec_bytes r)"
  by (cases r) (simp_all add: Append_rec_bytes)

lemma append_recs_logged: "append_recs c rs w = (Inr u, w') \<Longrightarrow> logged c w rs w'"
proof (induction rs arbitrary: w)
  case (Cons r rs)
  then obtain w1 where "append_rec c r w = (Inr (), w1)" "append_recs c rs w1 = (Inr u, w')"
    by (auto simp: and_then_def split: prod.splits sum.splits)
  with Cons.IH have "logged c w [r] w1" "logged c w1 rs w'" by (auto simp: append_rec_eq wal_append_logged)
  then show ?case using logged_trans by fastforce
qed (simp add: logged_Nil)

text \<open>C7: a log written by the \<open>Append\<close> calls is replayed record for record, with or without
  encryption.  The log starts empty, or with its magic byte when encrypted.\<close>

theorem wal_roundtrip:
  assumes "append_recs c rs w = (Inr u, w')" "walFile w = (if c = None then [] else [walEncryptedMagic])"
    and "quiet w" "cipher_ok c" "\<forall>r \<in> set rs. loggable c r"
  shows "Replay c clk (walFile w') m = (Inr (), recs_apply clk 0 rs m)"
proof -
  have "wal_image c [] (walFile w)" using assms(2) by (auto simp: wal_image_def)
  from wal_image_logged [OF this append_recs_logged [OF assms(1)] assms(3,5)]
  have "wal_image c rs (walFile w')" by simp
  then show ?thesis using assms(4) by (rule Replay_image)
qed

definition pad_cipher :: atRestCipher where
  "pad_cipher = \<lparr>aead = pad_AEAD\<rparr>"

theorem wal_roundtrip_witness:
  "\<exists>w'. append_recs (Some pad_cipher) [RecPut ''k'' ''v'', RecIncr ''n''] (fresh_world\<lparr>walFile := [walEncryptedMagic]\<rparr>) = (Inr (), w') \<and>
     Replay (Some pad_cipher) (\<lambda>_. 0) (walFile w') NewMemStore =
       (Inr (), recs_apply (\<lambda>_. 0) 0 [RecPut ''k'' ''v'', RecIncr ''n''] NewMemStore)"
proof -
  let ?c = "Some pad_cipher" and ?rs = "[RecPut ''k'' ''v'', RecIncr ''n'']" and ?w = "fresh_world\<lparr>walFile := [walEncryptedMagic]\<rparr>"
  obtain w' where w': "append_recs ?c ?rs ?w = (Inr (), w')"
    by (simp add: append_rec_eq and_then_def wal_append_def seal_def Encrypt_def file_Write_def fresh_world_def)
  moreover have "quiet ?w" "cipher_ok ?c" by (simp_all add: quiet_def fresh_world_def pad_cipher_def)
  moreover have "\<forall>r \<in> set ?rs. loggable ?c r"
    by (simp add: loggable_def rec_bytes_def field_bytes_def field_ok_def maxRecordField_def)
  ultimately show ?thesis using wal_roundtrip [of ?c ?rs ?w "()" w'] by simp
qed

text \<open>C8: a plain log that ends inside a record, as a crash during an append leaves it, makes the
  store refuse to open.\<close>

theorem torn_log_refused:
  assumes "list_all rec_ok rs" "rec_ok r" "0 < n" "n < length (rec_bytes r)"
    and "quiet w" "snapFile w = None" "walFile w = recs_bytes rs @ take n (rec_bytes r)"
  shows "\<exists>e. fst (OpenDiskStore clk w) = Inl e"
proof -
  obtain e where "replayPlain clk (walFile w) NewMemStore = (Inl e, recs_apply clk 0 rs NewMemStore)"
    using replayPlain_torn [OF assms(1-4)] assms(7) by metis
  then show ?thesis
    using assms(5,6)
    by (simp add: OpenDiskStore_def openDiskStore_def and_then_def io_call_quiet quiet_def on_wal_def
        OpenWAL_def loadSnapshot_def replay_file_def open_replay_def Replay_def)
qed

theorem torn_log_refused_witness:
  "\<exists>e. fst (OpenDiskStore (\<lambda>_. 0) (fresh_world\<lparr>walFile := recs_bytes [RecPut ''k'' ''v''] @ take 3 (rec_bytes (RecDelete ''k''))\<rparr>)) = Inl e"
  by (rule torn_log_refused [of "[RecPut ''k'' ''v'']" "RecDelete ''k''" 3])
    (simp_all add: field_ok_def maxRecordField_def rec_bytes_def field_bytes_def quiet_def fresh_world_def)

text \<open>C9: in an encrypted log, a torn record is tolerated only when the crash came inside its
  four-byte length; a record torn later makes the replay fail.\<close>

theorem torn_sealed_log:
  assumes "aead_ok (aead c)" "list_all frame_ok fs" "frame_ok nr" "n < length (frame_bytes c nr)"
  shows "Replay (Some c) clk (walEncryptedMagic # concat (map (frame_bytes c) fs) @ take n (frame_bytes c nr)) m =
    ((if n \<le> 4 then Inr () else Inl (Wrap ''read encrypted wal record'' ErrUnexpectedEOF)),
     recs_apply clk 0 (map snd fs) m)"
  using replayEncrypted_torn [OF assms] by (simp add: Replay_def)

theorem torn_sealed_log_witness:
  "fst (Replay (Some pad_cipher) (\<lambda>_. 0) (walEncryptedMagic #
      take 9 (frame_bytes pad_cipher (replicate 12 CHR 0x00, RecIncr ''k''))) NewMemStore) =
   Inl (Wrap ''read encrypted wal record'' ErrUnexpectedEOF)"
  using torn_sealed_log [of pad_cipher "[]" "(replicate 12 CHR 0x00, RecIncr ''k'')" 9 "\<lambda>_. 0" NewMemStore]
  by (simp add: pad_cipher_def aead_ok_pad frame_ok_def atRestNonceSize_def field_ok_def maxRecordField_def
      rec_bytes_def field_bytes_def frame_bytes_def Let_def)

section \<open>Snapshots\<close>



text \<open>A version-1 snapshot file, a bare JSON object of strings, is migrated: every key keeps its
  value and gets no deadline, whatever the keys are called.\<close>

theorem snapshot_v1_migrated:
  assumes "\<And>k v. fmlookup d k = Some v \<Longrightarrow> valid_utf8 k \<and> valid_utf8 v"
  shows "decodeSnapshot (json_text (v1_json d)) fmempty = Inr (fmmap (\<lambda>v. \<lparr>eValue = v, eExp = 0\<rparr>) d)"
  using assms by (rule decode_v1)

theorem snapshot_v1_migrated_witness:
  "decodeSnapshot (json_text (v1_json (fmupd ''data'' ''v'' fmempty))) fmempty =
   Inr (fmmap (\<lambda>v. \<lparr>eValue = v, eExp = 0\<rparr>) (fmupd ''data'' ''v'' fmempty))"
  by (rule snapshot_v1_migrated) (auto simp: valid_utf8_ascii byte_of_def split: if_splits)

section \<open>A crash inside a compaction\<close>

lemma fresh_store_inv: "cipher_ok c \<Longrightarrow> c = None \<Longrightarrow> disk_inv D (fresh_store c)"
  unfolding disk_inv_def fresh_store_def
  by (auto simp: fully_synced_def snap_holds_def wal_image_def utf8_data_def calm_def NewMemStore_def
      intro!: exI [of _ "fmempty"] exI [of _ "[]"])

text \<open>C25: a crash between the write of a snapshot and the truncation of the log loses nothing and
  repeats nothing when the log holds only \<open>Put\<close>, \<open>Delete\<close> and \<open>Clear\<close>: opening the store gives
  the data that was in memory.\<close>

theorem compaction_crash_blind:
  assumes "disk_inv D s" "\<And>i. unreached D (clk i)" "wal_image (dcipher s) rs (walFile (dworld s))"
    and "\<forall>r \<in> set rs. rec_within D r \<and> rec_utf8 r" "mdata (dmem s) = fold rec_eff rs d" "list_all blind rs"
  shows "\<exists>s1 s'. saveSnapshot s = (Inr (), s1) \<and>
    openDiskStore (dcipher s) clk (power_loss (dworld s1)) = (Inr s', dworld s') \<and> mdata (dmem s') = mdata (dmem s)"
proof -
  have "fold rec_eff rs (mdata (dmem s)) = mdata (dmem s)"
    unfolding assms(5) by (rule blind_idempotent [OF assms(6)])
  with crash_before_truncate [OF assms(1-4)] show ?thesis by simp
qed

text \<open>C26: with an \<open>Incr\<close> in the log the same crash counts it twice.  A fresh store executes one \<open>Incr\<close>,
  which it answers with 1 and acknowledges as durable; the snapshot is written, the power fails,
  and the store opens with the value 2.\<close>

definition one_incr :: DiskStore where
  "one_incr = lstore (store_step (EvBatch (Recv (incr_req ''k'') (\<lambda>_. 1))) (start_loop (fresh_store None)))"

lemma one_incr_facts:
  "dcipher one_incr = None" "walFile (dworld one_incr) = recs_bytes [RecIncr ''k'']"
  "mdata (dmem one_incr) = fmupd ''k'' \<lparr>eValue = ''1'', eExp = 0\<rparr> fmempty"
  by (simp_all add: one_incr_def batchLoop_step_def incr_req_def new_req_def opIncr_def flush_def writeBatch_def
      start_loop_def fresh_store_def writeSingle_def and_then_def on_wal_def Append_rec_bytes wal_append_def
      file_Write_def wal_Sync_def file_Sync_def fresh_world_def mem_Incr_def NewMemStore_def Let_def)

lemma one_incr_inv: "disk_inv {} one_incr"
proof -
  have "event_good {} None (EvBatch (Recv (incr_req ''k'') (\<lambda>_. 1)))"
    by (simp add: req_good_def incr_req_def new_req_def req_recs_def rec_good_def loggable_def rec_within_def unreached_def
        valid_utf8_ascii byte_of_def field_ok_def maxRecordField_def opIncr_def opPut_def opDelete_def opClear_def)
  moreover have "loop_inv {} None (start_loop (fresh_store None))"
    using start_loop_inv [OF fresh_store_inv [of None "{}"]] by (simp add: fresh_store_def)
  ultimately have "loop_inv {} None (store_step (EvBatch (Recv (incr_req ''k'') (\<lambda>_. 1))) (start_loop (fresh_store None)))"
    by (intro store_step_inv)
  then show ?thesis by (simp only: one_incr_def loop_inv_def)
qed

lemma parse_1: "ParseInt ''1'' = Some 1" and parse_5: "ParseInt ''5'' = Some 5"
  by (simp_all add: ParseInt_def parse_nat_def is_digit_def digit_value_def)

lemma format_2: "FormatInt 2 = ''2''" and format_6: "FormatInt 6 = ''6''"
  by (simp_all add: FormatInt_def format_nat.simps digit_char_def char_of_def bit_0)

theorem compaction_crash_incr:
  "\<exists>s1 s'. saveSnapshot one_incr = (Inr (), s1) \<and>
     openDiskStore None (\<lambda>_. 2) (power_loss (dworld s1)) = (Inr s', dworld s') \<and>
     mem_live (dmem one_incr) 1 ''k'' = Some ''1'' \<and> mem_live (dmem s') 2 ''k'' = Some ''2''"
proof -
  have "wal_image (dcipher one_incr) [RecIncr ''k''] (walFile (dworld one_incr))"
    unfolding one_incr_facts(1,2) by (simp add: wal_image_def field_ok_def maxRecordField_def)
  moreover have "unreached {} 2" by (simp add: unreached_def)
  moreover have "\<forall>r \<in> set [RecIncr ''k'']. rec_within {} r \<and> rec_utf8 r"
    by (simp add: rec_within_def valid_utf8_ascii byte_of_def)
  ultimately obtain s1 s' where s: "saveSnapshot one_incr = (Inr (), s1)"
      "openDiskStore None (\<lambda>_. 2) (power_loss (dworld s1)) = (Inr s', dworld s')"
      "mdata (dmem s') = fold rec_eff [RecIncr ''k''] (mdata (dmem one_incr))"
    using crash_before_truncate [OF one_incr_inv, of "\<lambda>_. 2" "[RecIncr ''k'']"] unfolding one_incr_facts(1) by blast
  have "mdata (dmem s') = fmupd ''k'' \<lparr>eValue = ''2'', eExp = 0\<rparr> (mdata (dmem one_incr))"
    unfolding s(3) one_incr_facts(3) by (simp add: parse_1 MaxInt64_def format_2)
  then have "mem_live (dmem one_incr) 1 ''k'' = Some ''1''" "mem_live (dmem s') 2 ''k'' = Some ''2''"
    by (simp_all add: mem_live_def one_incr_facts(3) entryExpired_def)
  with s show ?thesis by blast
qed

text \<open>Replay depends on the clock.  The log of a key that got a deadline and was then incremented
  in time is replayed to the incremented value before the deadline and to 1 after it.\<close>

theorem replay_clock_dependent:
  "mem_live (snd (Replay None (\<lambda>_. 50) (recs_bytes [RecPut ''k'' ''5'', RecExpire ''k'' 100, RecIncr ''k'']) NewMemStore)) 200 ''k'' =
     Some ''6'' \<and>
   mem_live (snd (Replay None (\<lambda>_. 200) (recs_bytes [RecPut ''k'' ''5'', RecExpire ''k'' 100, RecIncr ''k'']) NewMemStore)) 200 ''k'' =
     Some ''1''"
proof -
  let ?rs = "[RecPut ''k'' ''5'', RecExpire ''k'' 100, RecIncr ''k'']"
  have replay: "Replay None clk (recs_bytes ?rs) NewMemStore = (Inr (), recs_apply clk 0 ?rs NewMemStore)" for clk
    using replayPlain_recs [of ?rs clk NewMemStore]
    by (simp add: Replay_def field_ok_def maxRecordField_def del: recs_bytes_simps)
  have "mdata (recs_apply (\<lambda>_. 50) 0 ?rs NewMemStore) = fmupd ''k'' \<lparr>eValue = ''6'', eExp = 0\<rparr>
      (fmupd ''k'' \<lparr>eValue = ''5'', eExp = 100\<rparr> (fmupd ''k'' \<lparr>eValue = ''5'', eExp = 0\<rparr> fmempty))"
    by (simp add: mem_Put_def mem_Expire_def mem_Incr_def entryExpired_def NewMemStore_def Let_def parse_5 format_6 MaxInt64_def)
  moreover have "mdata (recs_apply (\<lambda>_. 200) 0 ?rs NewMemStore) =
      fmupd ''k'' \<lparr>eValue = ''1'', eExp = 0\<rparr> (fmdrop ''k'' (fmupd ''k'' \<lparr>eValue = ''5'', eExp = 100\<rparr>
        (fmupd ''k'' \<lparr>eValue = ''5'', eExp = 0\<rparr> fmempty)))"
    by (simp add: mem_Put_def mem_Expire_def mem_Incr_def entryExpired_def NewMemStore_def Let_def)
  ultimately show ?thesis
    unfolding replay by (simp only: mem_live_def snd_conv) (simp add: entryExpired_def)
qed

text \<open>A log with one \<open>Put\<close>, over an empty snapshot.\<close>

definition one_put :: DiskStore where
  "one_put = (fresh_store None)\<lparr>
     dmem := mem_Put ''k'' ''v'' NewMemStore,
     dworld := fresh_world\<lparr>walFile := recs_bytes [RecPut ''k'' ''v''], walSynced := length (recs_bytes [RecPut ''k'' ''v''])\<rparr>\<rparr>"

lemma one_put_facts:
  "dcipher one_put = None" "wal_image None [RecPut ''k'' ''v''] (walFile (dworld one_put))"
  "mdata (dmem one_put) = fold rec_eff [RecPut ''k'' ''v''] fmempty"
  "\<forall>r \<in> set [RecPut ''k'' ''v'']. rec_within {} r \<and> rec_utf8 r"
  by (simp_all add: one_put_def fresh_store_def wal_image_def field_ok_def maxRecordField_def mem_Put_def NewMemStore_def
      rec_within_def valid_utf8_ascii byte_of_def)

lemma one_put_inv: "disk_inv {} one_put"
  unfolding disk_inv_def
  by (rule conjI, simp add: one_put_def fresh_world_def quiet_def, rule conjI, simp add: one_put_facts(1),
      rule conjI, simp add: one_put_def fully_synced_def,
      rule exI [of _ fmempty], rule exI [of _ "[RecPut ''k'' ''v'']"])
    (use one_put_facts in \<open>simp add: snap_holds_def utf8_data_def calm_def one_put_def fresh_world_def\<close>)

theorem compaction_crash_blind_witness:
  "\<exists>s1 s'. saveSnapshot one_put = (Inr (), s1) \<and>
     openDiskStore None (\<lambda>_. 2) (power_loss (dworld s1)) = (Inr s', dworld s') \<and> mdata (dmem s') = mdata (dmem one_put)"
  using compaction_crash_blind [OF one_put_inv, of "\<lambda>_. 2" "[RecPut ''k'' ''v'']" fmempty] one_put_facts
  by (simp add: unreached_def)

section \<open>The operations of the store\<close>

text \<open>Of two \<open>CAS\<close> calls on the durable store that expect the same old value, the second does not
  succeed after the first has changed the value, whatever calls fail in between.\<close>

theorem disk_cas_exclusive:
  assumes "env_ok (dworld s)" "disk_CAS (\<lambda>_. now) k old a s = (Inr True, s')" "a \<noteq> old" "reached now t"
  shows "fst (disk_CAS (\<lambda>_. t) k old b s') \<noteq> Inr True"
  using assms by (rule disk.cas_exclusive)

theorem disk_cas_exclusive_witness:
  "fst (disk_CAS (\<lambda>_. 2) ''k'' ''v'' ''y'' (snd (disk_CAS (\<lambda>_. 1) ''k'' ''v'' ''x'' one_put))) \<noteq> Inr True"
proof -
  have "fst (disk_CAS (\<lambda>_. 1) ''k'' ''v'' ''x'' one_put) = Inr True"
    by (simp add: disk_CAS_def submit_def batchLoop_step_def start_loop_def flush_def writeBatch_def writeSingle_def
        and_then_def on_wal_def Append_rec_bytes wal_append_def file_Write_def wal_Sync_def file_Sync_def
        one_put_def fresh_store_def fresh_world_def new_req_def opCAS_def opIncr_def opExpire_def
        mem_Get_def mem_Put_def entryExpired_def NewMemStore_def Let_def)
  moreover have "env_ok (dworld one_put)" by (simp add: env_ok_def one_put_def fresh_world_def)
  ultimately show ?thesis
    using disk_cas_exclusive [of one_put 1 "''k''" "''v''" "''x''" "snd (disk_CAS (\<lambda>_. 1) ''k'' ''v'' ''x'' one_put)" 2]
    by (simp add: prod_eq_iff reached_def)
qed

text \<open>C27: paging through the durable store with \<open>Scan\<close>, feeding each returned cursor back, visits every
  live key that matches the pattern and lies after the first cursor, once and in order, with its
  value; the loop ends after as many pages as there are keys, if no key is empty.\<close>

theorem disk_scan_complete:
  assumes "env_ok (dworld s)" "0 < count" "'''' \<notin> dom (disk_live s now)"
    and "length (scan_keys (disk_live s now) cursor pattern) < fuel"
  shows "scan_pages (\<lambda>c. disk_Scan now c count pattern s) fuel cursor =
    Some (map (\<lambda>k. \<lparr>kvKey = k, kvValue = the (disk_live s now k)\<rparr>) (scan_keys (disk_live s now) cursor pattern))"
  using assms by (rule disk.scan_pages_complete)

lemma one_put_live: "disk_live one_put t = [''k'' \<mapsto> ''v'']"
  by (simp add: disk_live_def one_put_def fresh_store_def mem_live_def mem_Put_def NewMemStore_def entryExpired_def fun_eq_iff)

theorem disk_scan_complete_witness:
  "scan_pages (\<lambda>c. disk_Scan 1 c 10 ''*'' one_put) 5 '''' =
   Some (map (\<lambda>k. \<lparr>kvKey = k, kvValue = the (disk_live one_put 1 k)\<rparr>) (scan_keys (disk_live one_put 1) '''' ''*''))"
proof -
  have "length (scan_keys (disk_live one_put 1) '''' ''*'') \<le> 1"
    using card_mono [of "{''k''}" "{k. k = ''k'' \<and> matchGlob ''*'' k}"] by (auto simp: scan_keys_def one_put_live)
  moreover have "env_ok (dworld one_put)" by (simp add: env_ok_def one_put_def fresh_world_def)
  ultimately show ?thesis
    using disk_scan_complete [of one_put 10 1 "''''" "''*''" 5] by (simp add: one_put_live)
qed

text \<open>C28: the glob matcher of \<open>Scan\<close> decides the language of \<open>*\<close> patterns on every subject without a
  star: an empty pattern matches all, otherwise a star stands for any run of characters.\<close>

theorem matchGlob_correct:
  assumes "CHR ''*'' \<notin> set s"
  shows "matchGlob p s \<longleftrightarrow> p = [] \<or> glob p s"
  using assms by (rule matchGlob_glob)

theorem matchGlob_correct_witness: "matchGlob ''u*:*'' ''user:7'' \<longleftrightarrow> glob ''u*:*'' ''user:7''"
  using matchGlob_correct [of "''user:7''" "''u*:*''"] by simp

text \<open>C29: the matcher's loop ends on every pattern and subject.\<close>

theorem matchGlob_terminates: "\<exists>r. matchGlob_loop p s 0 0 None 0 = Some r"
  by (rule matchGlob_loop_returns) simp

text \<open>On a subject that contains a star the matcher misses: the star of the pattern is taken for
  the star of the subject, so the pattern that matches everything does not match such a key.\<close>

theorem matchGlob_star_subject: "glob ''*'' ''*a'' \<and> \<not> matchGlob ''*'' ''*a''"
  by (simp add: matchGlob_def matchGlob_loop.simps)

text \<open>C30: \<open>Incr\<close> is exact over the integers: a success adds one to the decimal value, or starts at 1
  when the key shows nothing, with no wrap-around; at the largest value it fails with
  \<open>ErrOverflow\<close>, on a value that is no decimal it fails with \<open>ErrNotNumeric\<close>, and a failure leaves
  what every later reader sees unchanged.\<close>

theorem incr_exact:
  "case mem_Incr now k m of
     (Inr n, m') \<Rightarrow>
       mem_live m' now = (mem_live m now)(k \<mapsto> FormatInt n) \<and>
       sint n = (case mem_live m now k of None \<Rightarrow> 1 | Some v \<Rightarrow> sint (the (ParseInt v)) + 1)
   | (Inl e, m') \<Rightarrow>
       mem_live m' now = mem_live m now \<and>
       (\<exists>v. mem_live m now k = Some v \<and>
          (ParseInt v = None \<and> e = ErrNotNumeric \<or> ParseInt v = Some MaxInt64 \<and> e = ErrOverflow))"
proof -
  obtain r m' where r: "mem_Incr now k m = (r, m')" by fastforce
  show ?thesis
  proof (cases r)
    case (Inl e)
    then have "\<exists>v. mem_live m now k = Some v \<and>
        (ParseInt v = None \<and> e = ErrNotNumeric \<or> ParseInt v = Some MaxInt64 \<and> e = ErrOverflow)"
      using r by (auto simp: mem_Incr_def mem_live_def Let_def split: option.splits if_splits)
    moreover have "reached now now" by (simp add: reached_def)
    ultimately show ?thesis using r Inl mem.incr_err [OF TrueI, of now k m e m' now] by simp
  next
    case (Inr n)
    with r mem.incr_ok [OF TrueI, of now k m n m'] show ?thesis
      by (auto simp: sint_int64_Suc split: option.splits)
  qed
qed

definition one_shot :: memstore where
  "one_shot = NewMemStore\<lparr>mdata := fmupd ''k'' \<lparr>eValue = ''v'', eExp = 3\<rparr> fmempty\<rparr>"

text \<open>An expiry sweep is invisible to every reader
  from then on: it only drops what the clock already hides.\<close>

theorem sweep_invisible:
  assumes "reached now t"
  shows "mem_live (snd (mem_SweepExpired now m)) t = mem_live m t"
  using assms by (rule mem_live_sweep)

theorem sweep_invisible_witness: "mem_live (snd (mem_SweepExpired 5 one_shot)) 7 = mem_live one_shot 7"
  by (rule sweep_invisible) (simp add: reached_def)

text \<open>Nothing but the output of \<open>Encrypt\<close> under the same key opens: a sealed snapshot or log record
  that was altered is rejected, under the documented behaviour of AES-GCM.\<close>

theorem tampering_detected:
  assumes "aead_ok (aead c)" "Decrypt c sealed = Inr p"
  shows "\<exists>nonce. length nonce = atRestNonceSize \<and> Encrypt c (Inr nonce) p = Inr sealed"
  using Decrypt_only_sealed [OF assms] by blast

theorem tampering_detected_witness:
  "\<exists>nonce. length nonce = atRestNonceSize \<and>
     Encrypt pad_cipher (Inr nonce) ''p'' = Inr (replicate 12 CHR 0x00 @ ''p'' @ replicate 16 CHR 0x00)"
proof (rule tampering_detected)
  show "aead_ok (aead pad_cipher)" by (simp add: pad_cipher_def aead_ok_pad)
  show "Decrypt pad_cipher (replicate 12 CHR 0x00 @ ''p'' @ replicate 16 CHR 0x00) = Inr ''p''" by code_simp
qed

text \<open>The in-memory fake does not behave like the store it stands for: \<open>Incr\<close> keeps a pending
  deadline in the fake, so the key disappears, and cancels it in \<open>MemStore\<close>, where it stays.\<close>

theorem fake_incr_differs:
  assumes "fake_Incr now k f = (Inr n, f')" "fmlookup (fexpires f) k = Some d" "\<not> reached d now" "reached d t"
    and "mem_Incr now k m = (Inr n', m')"
  shows "fake_live f' t k = None \<and> mem_live m' t k = Some (FormatInt n')"
  using fake_Incr_keeps_deadline [OF assms(1-4)] mem_Incr_cancels_deadline [OF assms(5)] by blast

theorem fake_incr_differs_witness:
  "fake_live (snd (fake_Incr 1 ''k'' (snd (fake_Expire 1 ''k'' 100 (fake_Put ''k'' ''5'' NewFakeEngine))))) 200 ''k'' = None \<and>
   mem_live (snd (mem_Incr 1 ''k'' (snd (mem_Expire 1 ''k'' 100 (mem_Put ''k'' ''5'' NewMemStore))))) 200 ''k'' = Some ''6''"
proof -
  let ?f = "snd (fake_Expire 1 ''k'' 100 (fake_Put ''k'' ''5'' NewFakeEngine))"
  let ?m = "snd (mem_Expire 1 ''k'' 100 (mem_Put ''k'' ''5'' NewMemStore))"
  have "fst (fake_Incr 1 ''k'' ?f) = Inr 6" "fmlookup (fexpires ?f) ''k'' = Some 100"
    by (simp_all add: fake_Incr_def fake_Expire_def fake_Put_def NewFakeEngine_def fake_expiredLocked_def Let_def
        parse_5 MaxInt64_def)
  moreover have "fst (mem_Incr 1 ''k'' ?m) = Inr 6"
    by (simp add: mem_Incr_def mem_Expire_def mem_Put_def NewMemStore_def entryExpired_def Let_def parse_5 MaxInt64_def)
  ultimately show ?thesis
    using fake_incr_differs [of 1 "''k''" ?f 6 "snd (fake_Incr 1 ''k'' ?f)" 100 200 ?m 6 "snd (mem_Incr 1 ''k'' ?m)"]
    by (simp add: prod_eq_iff reached_def format_6)
qed

end
