(* ===== verification/RaftCluster.thy ===== *)
theory RaftCluster
  imports RaftElection
begin

text \<open>
  Several nodes together.  The state of a cluster is its nodes and two records of its history:
  the votes that were granted and the nodes that won an election.  A step is one critical
  section of one node; messages may be lost, duplicated, delayed and reordered.  Shown here:
  as long as an election that ends unsuccessfully finds its node still a candidate of its own
  term, and no leader steps down within its term, at most one node is ever elected in a term.
  Without that condition the code's own sections elect two nodes in one term.
\<close>

section \<open>Clusters\<close>

record ('s, 'd) cluster =
  clNode :: "string \<Rightarrow> ('s, 'd) Node"
  clBallots :: "(int \<times> string \<times> string) set"
  clElected :: "(int \<times> string) set"

definition start_cluster :: "string list \<Rightarrow> 's EngineOps \<Rightarrow> 's \<Rightarrow> 'd \<Rightarrow> ('s, 'd) cluster" where
  "start_cluster members eng st d =
     \<lparr>clNode = (\<lambda>i. NewNode i (removeAll i members) eng st d), clBallots = {}, clElected = {}\<rparr>"

definition set_node :: "string \<Rightarrow> ('s, 'd) Node \<Rightarrow> ('s, 'd) cluster \<Rightarrow> ('s, 'd) cluster" where
  "set_node i n cl = cl\<lparr>clNode := (clNode cl)(i := n)\<rparr>"

definition vote_part :: "('s, 'd) Node \<Rightarrow> int \<times> string option \<times> Role \<times> string" where
  "vote_part n = (nterm n, votedFor n, role n, nid n)"

text \<open>Requests to append or to install a snapshot come from nodes that were elected; a node does
  not send them to itself.  A candidate wins with its own vote, which it saved when it began to
  campaign, and the votes of as many peers, each counted once, as make up the code's majority.
  \<open>higher\<close> is any answer that carries a higher term, \<open>local\<close> anything
  that leaves term, vote and role alone: proposals, replication, commits, applies.\<close>

inductive cstep :: "string list \<Rightarrow> ('s, 'd) cluster \<Rightarrow> ('s, 'd) cluster \<Rightarrow> bool" for members where
  deliver_vote:
    "HandleRequestVote req (clNode cl i) = (resp, n') \<Longrightarrow>
     cstep members cl ((set_node i n' cl)\<lparr>clBallots :=
       (if vrVoteGranted resp then insert (vqTerm req, i, vqCandidateID req) (clBallots cl) else clBallots cl)\<rparr>)"
| deliver_append:
    "(aqTerm req, aqLeaderID req) \<in> clElected cl \<Longrightarrow> aqLeaderID req \<noteq> i \<Longrightarrow>
     cstep members cl (set_node i (snd (HandleAppendEntries req (clNode cl i))) cl)"
| deliver_snapshot:
    "(iqTerm req, iqLeaderID req) \<in> clElected cl \<Longrightarrow> iqLeaderID req \<noteq> i \<Longrightarrow>
     cstep members cl (set_node i (snd (HandleInstallSnapshot req (clNode cl i))) cl)"
| campaign:
    "role (clNode cl i) \<noteq> RoleLeader \<Longrightarrow> persist (snd (election_begin (clNode cl i))) = (r, n') \<Longrightarrow>
     cstep members cl ((set_node i n' cl)\<lparr>clBallots :=
       (case r of Inr _ \<Rightarrow> insert (nterm n', i, i) (clBallots cl) | Inl _ \<Rightarrow> clBallots cl)\<rparr>)"
| win:
    "role (clNode cl i) = RoleCandidate \<Longrightarrow> vqTerm req = nterm (clNode cl i) \<Longrightarrow> i \<in> set members \<Longrightarrow>
     distinct voters \<Longrightarrow> set voters \<subseteq> set (removeAll i members) \<Longrightarrow>
     \<forall>v \<in> insert i (set voters). (vqTerm req, v, i) \<in> clBallots cl \<Longrightarrow>
     votes = 1 + length voters \<Longrightarrow> q = majority (removeAll i members) \<Longrightarrow> q \<le> votes \<Longrightarrow>
     cstep members cl ((set_node i (election_finish votes q req (clNode cl i)) cl)\<lparr>clElected :=
       insert (nterm (clNode cl i), i) (clElected cl)\<rparr>)"
| lose:
    "role (clNode cl i) = RoleCandidate \<Longrightarrow> vqTerm req = nterm (clNode cl i) \<Longrightarrow> votes < q \<Longrightarrow>
     cstep members cl (set_node i (election_finish votes q req (clNode cl i)) cl)"
| higher:
    "nterm (clNode cl i) < t \<Longrightarrow> cstep members cl (set_node i (becomeFollower t None (clNode cl i)) cl)"
| restart:
    "raftStore (clNode cl i) = Some rs \<Longrightarrow> rsLoad rs (rdisk (clNode cl i)) = Inr (durable_part (clNode cl i)) \<Longrightarrow>
     removeAll i members \<noteq> [] \<Longrightarrow>
     cstep members cl (set_node i (snd (SetRaftStore (Some rs)
       (NewNode i (removeAll i members) eng st (rdisk (clNode cl i))))) cl)"
| local_step:
    "vote_part n' = vote_part (clNode cl i) \<Longrightarrow> cstep members cl (set_node i n' cl)"

inductive creach :: "string list \<Rightarrow> ('s, 'd) cluster \<Rightarrow> ('s, 'd) cluster \<Rightarrow> bool" for members cl0 where
  creach_start: "creach members cl0 cl0"
| creach_step: "creach members cl0 cl \<Longrightarrow> cstep members cl cl' \<Longrightarrow> creach members cl0 cl'"

section \<open>The invariant\<close>

definition node_ok :: "(int \<times> string \<times> string) set \<Rightarrow> (int \<times> string) set \<Rightarrow> string \<Rightarrow> ('s, 'd) Node \<Rightarrow> bool" where
  "node_ok B E v n \<longleftrightarrow> nid n = v \<and> (\<forall>t c. (t, v, c) \<in> B \<longrightarrow> t \<le> nterm n) \<and>
     (\<forall>c. (nterm n, v, c) \<in> B \<longrightarrow> c \<noteq> v \<longrightarrow> role n = RoleFollower \<and> votedFor n = Some c) \<and>
     (role n \<noteq> RoleFollower \<longrightarrow> votedFor n = Some v) \<and>
     ((nterm n, v) \<in> E \<longrightarrow> votedFor n = Some v \<and> role n \<noteq> RoleCandidate) \<and>
     (role n = RoleLeader \<longrightarrow> (nterm n, v) \<in> E)"

definition history_ok :: "string list \<Rightarrow> (int \<times> string \<times> string) set \<Rightarrow> (int \<times> string) set \<Rightarrow> bool" where
  "history_ok members B E \<longleftrightarrow>
     (\<forall>t v c c'. (t, v, c) \<in> B \<longrightarrow> (t, v, c') \<in> B \<longrightarrow> c \<noteq> v \<longrightarrow> c' \<noteq> v \<longrightarrow> c = c') \<and>
     (\<forall>t c. (t, c) \<in> E \<longrightarrow> (\<exists>Q. is_quorum members Q \<and> (\<forall>v \<in> Q. (t, v, c) \<in> B)) \<and>
        (t, c, c) \<in> B \<and> (\<forall>c'. (t, c, c') \<in> B \<longrightarrow> c' = c))"

definition cluster_ok :: "string list \<Rightarrow> ('s, 'd) cluster \<Rightarrow> bool" where
  "cluster_ok members cl \<longleftrightarrow> history_ok members (clBallots cl) (clElected cl) \<and>
     (\<forall>v. node_ok (clBallots cl) (clElected cl) v (clNode cl v))"

lemma elected_unique:
  assumes "history_ok members B E" "(t, a) \<in> E" "(t, b) \<in> E"
  shows "a = b"
proof -
  obtain Q where Q: "is_quorum members Q" "\<forall>v \<in> Q. (t, v, a) \<in> B" using assms unfolding history_ok_def by blast
  obtain R where R: "is_quorum members R" "\<forall>v \<in> R. (t, v, b) \<in> B" using assms unfolding history_ok_def by blast
  show ?thesis
  proof (rule maj.quorum_winner_unique [OF Q(1) _ R(1), where ballot = "\<lambda>v c. (t, v, c) \<in> B"])
    fix v
    assume "(t, v, a) \<in> B" "(t, v, b) \<in> B"
    then show "a = b" using assms unfolding history_ok_def by metis
  qed (use Q R in auto)
qed

text \<open>A node that moves to a higher term as a follower has a clean slate.\<close>

lemma node_ok_higher:
  assumes "node_ok B E v n" "history_ok members B E" "nterm n < nterm n'" "role n' = RoleFollower" "nid n' = v"
  shows "node_ok B E v n'"
proof -
  have old: "t \<le> nterm n" if "(t, v, c) \<in> B" for t c using assms(1) that by (auto simp: node_ok_def)
  have "(nterm n', v) \<notin> E" using assms(2,3) old unfolding history_ok_def by (metis linorder_not_le)
  moreover have "(nterm n', v, c) \<notin> B" for c using old assms(3) by (metis linorder_not_le)
  moreover have "t \<le> nterm n'" if "(t, v, c) \<in> B" for t c using old [OF that] assms(3) by simp
  ultimately show ?thesis using assms(4,5) by (auto simp: node_ok_def)
qed

lemma node_ok_same: "vote_part n' = vote_part n \<Longrightarrow> node_ok B E v n' \<longleftrightarrow> node_ok B E v n"
  by (simp add: vote_part_def node_ok_def)

lemma node_ok_other:
  assumes "v \<noteq> i" "B' - {b. fst (snd b) = i} = B - {b. fst (snd b) = i}" "E' - {e. snd e = i} = E - {e. snd e = i}"
  shows "node_ok B' E' v n \<longleftrightarrow> node_ok B E v n"
proof -
  have "(t, v, c) \<in> B' \<longleftrightarrow> (t, v, c) \<in> B" "(t, v) \<in> E' \<longleftrightarrow> (t, v) \<in> E" for t c
    using assms by (auto simp: set_eq_iff)
  then show ?thesis by (simp add: node_ok_def)
qed

lemma cluster_ok_update:
  assumes "cluster_ok members cl" "history_ok members B E" "node_ok B E i n"
    and "B - {b. fst (snd b) = i} = clBallots cl - {b. fst (snd b) = i}" "E - {e. snd e = i} = clElected cl - {e. snd e = i}"
  shows "cluster_ok members ((set_node i n cl)\<lparr>clBallots := B, clElected := E\<rparr>)"
  using assms(1-3) node_ok_other [OF _ assms(4,5)] by (auto simp: cluster_ok_def set_node_def)

lemma cluster_ok_set:
  assumes "cluster_ok members cl" "node_ok (clBallots cl) (clElected cl) i n'"
  shows "cluster_ok members (set_node i n' cl)"
  using assms by (simp add: cluster_ok_def set_node_def)

section \<open>Every step keeps the invariant\<close>

text \<open>The vote handler: the node ends in the request's term, having voted for the candidate or not.\<close>

lemma decide_vote_cases:
  obtains (stale) "snd (decide_vote req n) = n" "\<not> snd (fst (decide_vote req n))"
    | (new_term) "nterm n < vqTerm req" "nterm (snd (decide_vote req n)) = vqTerm req"
        "role (snd (decide_vote req n)) = RoleFollower" "nid (snd (decide_vote req n)) = nid n"
        "snd (fst (decide_vote req n)) \<Longrightarrow> votedFor (snd (decide_vote req n)) = Some (vqCandidateID req)"
    | (voted) "nterm n = vqTerm req" "votedFor n = None \<or> votedFor n = Some (vqCandidateID req)"
        "vote_part (snd (decide_vote req n)) = (nterm n, Some (vqCandidateID req), role n, nid n)"
proof -
  consider "vqTerm req < nterm n" | "nterm n < vqTerm req" | "nterm n = vqTerm req" by linarith
  then show thesis
  proof cases
    case 1
    then show thesis by (intro stale) (simp_all add: decide_vote_def)
  next
    case 2
    then show thesis
      by (intro new_term) (auto simp: decide_vote_def Let_def becomeFollower_def resetElectionTimer_def split: if_splits)
  next
    case 3
    show thesis
    proof (cases "snd (fst (decide_vote req n))")
      case True
      with 3 show thesis
        by (intro voted) (auto simp: decide_vote_def Let_def vote_part_def resetElectionTimer_def split: if_splits)
    next
      case False
      with 3 show thesis
        by (intro stale) (auto simp: decide_vote_def Let_def split: if_splits)
    qed
  qed
qed

lemma HandleRequestVote_shape:
  assumes "HandleRequestVote req n = (resp, n')"
  shows "vote_part n' = vote_part (snd (decide_vote req n))" "vrVoteGranted resp \<Longrightarrow> snd (fst (decide_vote req n))"
proof -
  have "n' = (if snd (fst (decide_vote req n)) then snd (persist (snd (decide_vote req n))) else snd (decide_vote req n))"
    using assms HandleRequestVote_snd [of req n] by simp
  then show "vote_part n' = vote_part (snd (decide_vote req n))" by (simp add: vote_part_def)
  assume "vrVoteGranted resp"
  then have "vrVoteGranted (fst (HandleRequestVote req n))" using assms by simp
  from HandleRequestVote_granted [OF this] show "snd (fst (decide_vote req n))" by (metis fst_conv snd_conv)
qed

lemma history_ok_insert:
  assumes "history_ok members B E" "\<And>c. (t, i, c) \<in> B \<Longrightarrow> c \<noteq> i \<Longrightarrow> c0 \<noteq> i \<Longrightarrow> c = c0" "(t, i) \<in> E \<Longrightarrow> c0 = i"
  shows "history_ok members (insert (t, i, c0) B) E"
  unfolding history_ok_def
proof (intro conjI allI impI)
  fix t' v c c'
  assume "(t', v, c) \<in> insert (t, i, c0) B" "(t', v, c') \<in> insert (t, i, c0) B" "c \<noteq> v" "c' \<noteq> v"
  then show "c = c'"
    using assms(1,2) unfolding history_ok_def by (metis insert_iff prod.inject)
next
  fix t' c
  assume E: "(t', c) \<in> E"
  then obtain Q where Q: "is_quorum members Q" "\<forall>v \<in> Q. (t', v, c) \<in> B"
    using assms(1) unfolding history_ok_def by blast
  then show "\<exists>Q. is_quorum members Q \<and> (\<forall>v \<in> Q. (t', v, c) \<in> insert (t, i, c0) B)" by blast
  show "(t', c, c) \<in> insert (t, i, c0) B" using E assms(1) unfolding history_ok_def by blast
  fix c'
  assume "(t', c, c') \<in> insert (t, i, c0) B"
  then show "c' = c" using E assms(1,3) unfolding history_ok_def by blast
qed

definition record_vote :: "bool \<Rightarrow> VoteRequest \<Rightarrow> string \<Rightarrow> (int \<times> string \<times> string) set \<Rightarrow> (int \<times> string \<times> string) set" where
  "record_vote g req i B = (if g then insert (vqTerm req, i, vqCandidateID req) B else B)"

lemma vote_keeps:
  assumes "node_ok B E i n" "history_ok members B E" "HandleRequestVote req n = (resp, n')"
  defines "B' \<equiv> record_vote (vrVoteGranted resp) req i B"
  shows "node_ok B' E i n' \<and> history_ok members B' E"
proof -
  note shape = HandleRequestVote_shape [OF assms(3)]
  let ?t = "vqTerm req" and ?c = "vqCandidateID req"
  have old: "t \<le> nterm n" if "(t, i, c) \<in> B" for t c using assms(1) that by (auto simp: node_ok_def)
  show ?thesis
  proof (cases rule: decide_vote_cases [of req n])
    case stale
    then have "B' = B" using shape(2) by (auto simp: B'_def record_vote_def)
    with stale shape(1) assms(1,2) show ?thesis using node_ok_same by metis
  next
    case new_term
    have vp: "nterm n' = ?t" "role n' = RoleFollower" "nid n' = i" "vrVoteGranted resp \<Longrightarrow> votedFor n' = Some ?c"
      using new_term shape assms(1) by (auto simp: vote_part_def node_ok_def)
    have none: "(?t, i, c) \<notin> B" for c using old new_term(1) by (metis linorder_not_le)
    have nE: "(?t, i) \<notin> E" using assms(2) none unfolding history_ok_def by blast
    have "history_ok members B' E"
      using assms(2) none nE history_ok_insert [OF assms(2), of ?t i ?c] by (simp add: B'_def record_vote_def)
    moreover have "t \<le> ?t" if "(t, i, c) \<in> B" for t c using old [OF that] new_term(1) by simp
    then have "node_ok B' E i n'"
      using vp none nE unfolding node_ok_def B'_def record_vote_def by (auto split: if_splits)
    ultimately show ?thesis by blast
  next
    case voted
    have vp: "nterm n' = ?t" "role n' = role n" "nid n' = i" "votedFor n' = Some ?c"
      using voted shape(1) assms(1) by (auto simp: vote_part_def node_ok_def)
    have same: "c = ?c" if "(?t, i, c) \<in> B" "c \<noteq> i" for c
      using assms(1) that voted(1,2) by (auto simp: node_ok_def)
    have follower: "role n = RoleFollower" if "?c \<noteq> i"
      using assms(1) voted(2) that by (auto simp: node_ok_def)
    have elected: "?c = i" if "(?t, i) \<in> E" using assms(1) voted(1,2) that by (auto simp: node_ok_def)
    have "history_ok members B' E"
      using assms(2) same elected history_ok_insert [OF assms(2), of ?t i ?c] by (simp add: B'_def record_vote_def)
    moreover have "node_ok B' E i n'"
      using assms(1) vp same follower elected voted(1) unfolding node_ok_def B'_def record_vote_def
      by (auto split: if_splits)
    ultimately show ?thesis by blast
  qed
qed

text \<open>Following an elected leader of the node's own term, other than itself.\<close>

lemma follow_keeps:
  assumes "node_ok B E i n" "history_ok members B E" "(t, l) \<in> E" "l \<noteq> i"
    and "vote_part n' = vote_part n \<or> nterm n \<le> t \<and> vote_part n' = vote_part (follow t l n)"
  shows "node_ok B E i n'"
proof (cases "vote_part n' = vote_part n")
  case True
  then show ?thesis using assms(1) node_ok_same by metis
next
  case False
  with assms(5) have t: "nterm n \<le> t" and n': "vote_part n' = vote_part (follow t l n)" by auto
  have "node_ok B E i (follow t l n)"
  proof (cases "nterm n < t")
    case True
    with assms(1) follow_term(1) [OF t] show ?thesis
      by (intro node_ok_higher [OF assms(1,2)]) (auto simp: node_ok_def)
  next
    case False
    with t have eq: "nterm n = t" by simp
    have notE: "(t, i) \<notin> E" using elected_unique [OF assms(2,3)] assms(4) by blast
    show ?thesis
    proof (cases "role n = RoleFollower")
      case True
      then have "vote_part (follow t l n) = vote_part n"
        using eq follow_term [OF t] by (simp add: vote_part_def)
      then show ?thesis using assms(1) node_ok_same by metis
    next
      case False
      then have "(t, i, c) \<notin> B" if "c \<noteq> i" for c using assms(1) eq that by (auto simp: node_ok_def)
      then show ?thesis
        using assms(1) eq notE follow_term [OF t] by (auto simp: node_ok_def)
    qed
  qed
  then show ?thesis using n' node_ok_same by metis
qed

lemma HandleAppendEntries_vote:
  "vote_part (snd (HandleAppendEntries req n)) = vote_part n \<or>
   nterm n \<le> aqTerm req \<and> vote_part (snd (HandleAppendEntries req n)) = vote_part (follow (aqTerm req) (aqLeaderID req) n)"
proof (cases "aqTerm req < nterm n")
  case True
  then show ?thesis by (simp add: HandleAppendEntries_def accept_entries_eq)
next
  case False
  have "nid (accepted req m) = nid m" for m :: "('a, 'b) Node"
    using mergeEntries_same [of req m] by (auto simp: accepted_def Let_def)
  with False show ?thesis
    by (auto simp: HandleAppendEntries_snd accept_entries_eq Let_def vote_part_def)
qed

lemma HandleInstallSnapshot_vote:
  "vote_part (snd (HandleInstallSnapshot req n)) = vote_part n \<or>
   nterm n \<le> iqTerm req \<and> vote_part (snd (HandleInstallSnapshot req n)) = vote_part (follow (iqTerm req) (iqLeaderID req) n)"
proof (cases "iqTerm req < nterm n")
  case True
  then show ?thesis by (simp add: HandleInstallSnapshot_snd)
next
  case False
  then show ?thesis
    by (simp add: HandleInstallSnapshot_snd Let_def vote_part_def accept_snapshot_fields split: option.split)
      (simp add: accept_snapshot_def Let_def)
qed

lemma campaign_keeps:
  assumes "node_ok B E i n" "history_ok members B E"
    and "nterm n' = nterm n + 1 \<and> role n' = RoleCandidate \<and> votedFor n' = Some (nid n') \<and> nid n' = nid n"
  shows "node_ok B E i n'" "node_ok (insert (nterm n', i, i) B) E i n'" "history_ok members (insert (nterm n', i, i) B) E"
    "history_ok members B E"
proof -
  have old: "t \<le> nterm n" if "(t, i, c) \<in> B" for t c using assms(1) that by (auto simp: node_ok_def)
  have none: "(nterm n', i, c) \<notin> B" for c using old [of "nterm n'"] assms(3) by auto
  then have nE: "(nterm n', i) \<notin> E" using assms(2) unfolding history_ok_def by blast
  have le: "t \<le> nterm n'" if "(t, i, c) \<in> B" for t c using old [OF that] assms(3) by simp
  show "node_ok B E i n'" "node_ok (insert (nterm n', i, i) B) E i n'"
    using assms(1,3) none nE le by (auto simp: node_ok_def)
  show "history_ok members (insert (nterm n', i, i) B) E" by (rule history_ok_insert [OF assms(2)]) auto
  show "history_ok members B E" by (rule assms(2))
qed

lemma win_keeps:
  assumes "node_ok B E i n" "history_ok members B E" "role n = RoleCandidate"
    and "is_quorum members Q" "i \<in> Q" "\<forall>v \<in> Q. (nterm n, v, i) \<in> B"
  shows "node_ok B (insert (nterm n, i) E) i (becomeLeader n)" "history_ok members B (insert (nterm n, i) E)"
proof -
  have own: "c = i" if "(nterm n, i, c) \<in> B" for c using assms(1,3) that by (auto simp: node_ok_def)
  show "node_ok B (insert (nterm n, i) E) i (becomeLeader n)"
    using assms(1,3) own by (auto simp: node_ok_def becomeLeader_def)
  show "history_ok members B (insert (nterm n, i) E)"
    unfolding history_ok_def
  proof (intro conjI allI impI)
    fix t v c c'
    assume "(t, v, c) \<in> B" "(t, v, c') \<in> B" "c \<noteq> v" "c' \<noteq> v"
    then show "c = c'" using assms(2) unfolding history_ok_def by blast
  next
    fix t c
    assume E: "(t, c) \<in> insert (nterm n, i) E"
    show "\<exists>Q. is_quorum members Q \<and> (\<forall>v \<in> Q. (t, v, c) \<in> B)"
      using E assms(2,4,6) unfolding history_ok_def by blast
    show "(t, c, c) \<in> B" using E assms(2,5,6) unfolding history_ok_def by blast
    show "c' = c" if "(t, c, c') \<in> B" for c' using E own that assms(2) unfolding history_ok_def by blast
  qed
qed

lemma deliver_vote_ok:
  assumes "cluster_ok members cl" "HandleRequestVote req (clNode cl i) = (resp, n')"
  shows "cluster_ok members ((set_node i n' cl)\<lparr>clBallots := record_vote (vrVoteGranted resp) req i (clBallots cl)\<rparr>)"
proof -
  let ?B = "record_vote (vrVoteGranted resp) req i (clBallots cl)"
  have n: "node_ok (clBallots cl) (clElected cl) i (clNode cl i)" "history_ok members (clBallots cl) (clElected cl)"
    using assms(1) by (simp_all add: cluster_ok_def)
  have "?B - {b. fst (snd b) = i} = clBallots cl - {b. fst (snd b) = i}" by (auto simp: record_vote_def)
  with vote_keeps [OF n assms(2)]
  have "cluster_ok members ((set_node i n' cl)\<lparr>clBallots := ?B, clElected := clElected cl\<rparr>)"
    by (intro cluster_ok_update [OF assms(1)]) blast+
  then show ?thesis by (simp add: set_node_def)
qed

lemma campaign_ok:
  assumes "cluster_ok members cl" "persist (snd (election_begin (clNode cl i))) = (r, n')"
  defines "B \<equiv> (case r of Inr _ \<Rightarrow> insert (nterm n', i, i) (clBallots cl) | Inl _ \<Rightarrow> clBallots cl)"
  shows "cluster_ok members ((set_node i n' cl)\<lparr>clBallots := B\<rparr>)"
proof -
  have n: "node_ok (clBallots cl) (clElected cl) i (clNode cl i)" "history_ok members (clBallots cl) (clElected cl)"
    using assms(1) by (simp_all add: cluster_ok_def)
  have B: "B = clBallots cl \<or> B = insert (nterm n', i, i) (clBallots cl)" by (cases r) (simp_all add: B_def)
  have n': "n' = snd (persist (becomeCandidate (clNode cl i)))" using assms(2) by (simp add: election_begin_def Let_def)
  have "nterm n' = nterm (clNode cl i) + 1 \<and> role n' = RoleCandidate \<and> votedFor n' = Some (nid n') \<and> nid n' = nid (clNode cl i)"
    unfolding n' persist_keeps by (simp add: becomeCandidate_def)
  note k = campaign_keeps [OF n this]
  have "node_ok B (clElected cl) i n'" "history_ok members B (clElected cl)" using B k by blast+
  moreover have "B - {b. fst (snd b) = i} = clBallots cl - {b. fst (snd b) = i}" using B by auto
  ultimately have "cluster_ok members ((set_node i n' cl)\<lparr>clBallots := B, clElected := clElected cl\<rparr>)"
    by (intro cluster_ok_update [OF assms(1)]) simp_all
  then show ?thesis by (simp add: set_node_def)
qed

text \<open>The number of votes the code waits for is a majority of the members.\<close>

lemma counted_quorum:
  assumes "distinct members" "i \<in> set members" "distinct voters" "set voters \<subseteq> set (removeAll i members)"
    and "majority (removeAll i members) \<le> 1 + length voters"
  shows "is_quorum members (insert i (set voters))"
proof -
  have "length (removeAll i members) = length (tl members)"
    using assms(1,2) by (simp add: distinct_remove1_removeAll [symmetric] length_remove1)
  then have "majority (removeAll i members) = majority (tl members)" by (simp add: majority_def)
  moreover have "card (insert i (set voters)) = 1 + length voters"
    using assms(3,4) by (subst card_insert_disjoint) (auto simp: distinct_card)
  ultimately show ?thesis using assms(2,4,5) by (auto simp: is_quorum_def)
qed

lemma win_ok:
  assumes "cluster_ok members cl" "role (clNode cl i) = RoleCandidate" "vqTerm req = nterm (clNode cl i)" "i \<in> set members"
    and "distinct voters" "set voters \<subseteq> set (removeAll i members)" "\<forall>v \<in> insert i (set voters). (vqTerm req, v, i) \<in> clBallots cl"
    and "votes = 1 + length voters" "q = majority (removeAll i members)" "q \<le> votes" "distinct members"
  shows "cluster_ok members ((set_node i (election_finish votes q req (clNode cl i)) cl)\<lparr>clElected :=
       insert (nterm (clNode cl i), i) (clElected cl)\<rparr>)"
proof -
  let ?n' = "election_finish votes q req (clNode cl i)" and ?E = "insert (nterm (clNode cl i), i) (clElected cl)"
  have n: "node_ok (clBallots cl) (clElected cl) i (clNode cl i)" "history_ok members (clBallots cl) (clElected cl)"
    using assms(1) by (simp_all add: cluster_ok_def)
  have Q: "is_quorum members (insert i (set voters))" "i \<in> insert i (set voters)"
    using counted_quorum [OF assms(11,4-6)] assms(8-10) by simp_all
  have "?n' = becomeLeader (clNode cl i)" using assms(2,3,10) by (simp add: election_finish_def)
  moreover have "?E - {e. snd e = i} = clElected cl - {e. snd e = i}" by auto
  ultimately have "cluster_ok members ((set_node i ?n' cl)\<lparr>clBallots := clBallots cl, clElected := ?E\<rparr>)"
    using win_keeps [OF n assms(2) Q(1,2)] assms(3,7) by (intro cluster_ok_update [OF assms(1)]) simp_all
  then show ?thesis by (simp add: set_node_def)
qed

lemma lose_ok:
  assumes "cluster_ok members cl" "role (clNode cl i) = RoleCandidate" "votes < q"
  shows "cluster_ok members (set_node i (election_finish votes q req (clNode cl i)) cl)"
proof -
  have "node_ok (clBallots cl) (clElected cl) i (clNode cl i)" using assms(1) by (simp add: cluster_ok_def)
  then have "node_ok (clBallots cl) (clElected cl) i (election_finish votes q req (clNode cl i))"
    using assms(2,3) by (auto simp: node_ok_def election_finish_def becomeFollower_def)
  then show ?thesis by (rule cluster_ok_set [OF assms(1)])
qed

lemma higher_ok:
  assumes "cluster_ok members cl" "nterm (clNode cl i) < t"
  shows "cluster_ok members (set_node i (becomeFollower t None (clNode cl i)) cl)"
proof -
  have n: "node_ok (clBallots cl) (clElected cl) i (clNode cl i)" "history_ok members (clBallots cl) (clElected cl)"
    using assms(1) by (simp_all add: cluster_ok_def)
  then have "node_ok (clBallots cl) (clElected cl) i (becomeFollower t None (clNode cl i))"
    using assms(2) by (intro node_ok_higher [OF n]) (auto simp: becomeFollower_def node_ok_def)
  then show ?thesis by (rule cluster_ok_set [OF assms(1)])
qed

lemma restart_ok:
  fixes st :: 's and n :: "('s, 'd) Node"
  assumes "cluster_ok members cl" "n = clNode cl i" "rsLoad rs (rdisk n) = Inr (durable_part n)" "removeAll i members \<noteq> []"
  shows "cluster_ok members (set_node i (snd (SetRaftStore (Some rs) (NewNode i (removeAll i members) eng st (rdisk n)))) cl)"
proof -
  have "node_ok (clBallots cl) (clElected cl) i n" using assms(1,2) by (simp add: cluster_ok_def)
  then have "node_ok (clBallots cl) (clElected cl) i
      (snd (SetRaftStore (Some rs) (NewNode i (removeAll i members) eng st (rdisk n))))"
    using assms(3,4) by (auto simp: node_ok_def SetRaftStore_def NewNode_def durable_part_def Let_def)
  then show ?thesis by (rule cluster_ok_set [OF assms(1)])
qed

lemma follow_ok:
  assumes "cluster_ok members cl" "(t, l) \<in> clElected cl" "l \<noteq> i"
    and "vote_part n' = vote_part (clNode cl i) \<or> nterm (clNode cl i) \<le> t \<and> vote_part n' = vote_part (follow t l (clNode cl i))"
  shows "cluster_ok members (set_node i n' cl)"
proof -
  have "node_ok (clBallots cl) (clElected cl) i (clNode cl i)" "history_ok members (clBallots cl) (clElected cl)"
    using assms(1) by (simp_all add: cluster_ok_def)
  from follow_keeps [OF this assms(2-4)] show ?thesis by (rule cluster_ok_set [OF assms(1)])
qed

lemma cstep_keeps:
  assumes "cstep members cl cl'" "cluster_ok members cl" "distinct members"
  shows "cluster_ok members cl'"
  using assms(1)
proof cases
  case (deliver_vote req i resp n')
  from deliver_vote_ok [OF assms(2) deliver_vote(2)] show ?thesis unfolding deliver_vote(1) record_vote_def .
next
  case (deliver_append req i)
  from follow_ok [OF assms(2) deliver_append(2,3) HandleAppendEntries_vote] show ?thesis unfolding deliver_append(1) .
next
  case (deliver_snapshot req i)
  from follow_ok [OF assms(2) deliver_snapshot(2,3) HandleInstallSnapshot_vote] show ?thesis unfolding deliver_snapshot(1) .
next
  case (campaign i r n')
  from campaign_ok [OF assms(2) campaign(3)] show ?thesis unfolding campaign(1) .
next
  case (win i req voters votes q)
  from win_ok [OF assms(2) win(2-10) assms(3)] show ?thesis unfolding win(1) .
next
  case (lose i req votes q)
  from lose_ok [OF assms(2) lose(2,4)] show ?thesis unfolding lose(1) .
next
  case (higher i t)
  from higher_ok [OF assms(2) higher(2)] show ?thesis unfolding higher(1) .
next
  case (restart i rs eng st)
  from restart_ok [OF assms(2) refl restart(3,4)] show ?thesis unfolding restart(1) .
next
  case (local_step n' i)
  have "node_ok (clBallots cl) (clElected cl) i n'"
    using assms(2) node_ok_same [OF local_step(2)] by (simp add: cluster_ok_def)
  then show ?thesis unfolding local_step(1) by (rule cluster_ok_set [OF assms(2)])
qed

lemma start_cluster_ok: "2 \<le> length members \<Longrightarrow> distinct members \<Longrightarrow> cluster_ok members (start_cluster members eng st d)"
proof -
  assume len: "2 \<le> length members" and dist: "distinct members"
  have "removeAll v members \<noteq> []" for v
  proof
    assume "removeAll v members = []"
    then have "set members \<subseteq> {v}" by (auto simp: filter_empty_conv removeAll_filter_not_eq)
    then have "card (set members) \<le> 1" using card_mono [of "{v}" "set members"] by simp
    with len dist show False by (simp add: distinct_card)
  qed
  then show ?thesis
    by (auto simp: cluster_ok_def start_cluster_def history_ok_def node_ok_def NewNode_def Let_def)
qed

lemma creach_ok: "creach members cl0 cl \<Longrightarrow> cluster_ok members cl0 \<Longrightarrow> distinct members \<Longrightarrow> cluster_ok members cl"
  by (induction rule: creach.induct) (auto intro: cstep_keeps)

end
