(* ===== verification/Elections.thy ===== *)
theory Elections
  imports Transport "HOL-Library.Multiset"
begin

text \<open>
  An election over a transport: the fan-out of \<open>startElection\<close> in pkg/raft/election.go, and what
  decides it.  The voters compare logs by their last entries; \<open>LogPos\<close> is that order.  Shown
  here: when every peer can be reached, none is ahead in term and all can save their vote, the
  candidate is elected exactly when its log is at least as up to date as those of a majority.
\<close>

section \<open>The order of logs\<close>

datatype LogPos = LogPos (posTerm: int) (posIndex: int)

instantiation LogPos :: linorder
begin

definition less_eq_LogPos :: "LogPos \<Rightarrow> LogPos \<Rightarrow> bool" where
  "less_eq_LogPos p q \<longleftrightarrow> posTerm p < posTerm q \<or> posTerm p = posTerm q \<and> posIndex p \<le> posIndex q"

definition less_LogPos :: "LogPos \<Rightarrow> LogPos \<Rightarrow> bool" where
  "less_LogPos p q \<longleftrightarrow> posTerm p < posTerm q \<or> posTerm p = posTerm q \<and> posIndex p < posIndex q"

instance
  by standard (auto simp: less_eq_LogPos_def less_LogPos_def LogPos.expand)

end

definition log_pos :: "('s, 'd) Node \<Rightarrow> LogPos" where
  "log_pos n = LogPos (lastLogTerm n) (lastLogIndex n)"

definition asked_pos :: "VoteRequest \<Rightarrow> LogPos" where
  "asked_pos req = LogPos (vqLastLogTerm req) (vqLastLogIndex req)"

section \<open>The fan-out\<close>

text \<open>One call per peer, in the order in which the calls are answered; a call that fails puts
  nothing into the channel.\<close>

fun request_votes ::
    "(string \<Rightarrow> VoteRequest \<Rightarrow> 'w \<Rightarrow> VoteResponse res \<times> 'w) \<Rightarrow> VoteRequest \<Rightarrow> string list \<Rightarrow> 'w \<Rightarrow>
     VoteResponse list \<times> 'w" where
  "request_votes call req [] w = ([], w)"
| "request_votes call req (p # ps) w =
     (case call p req w of
        (r, w1) \<Rightarrow>
          (case request_votes call req ps w1 of
             (resps, w2) \<Rightarrow> ((case r of Inl _ \<Rightarrow> resps | Inr resp \<Rightarrow> resp # resps), w2)))"

text \<open>The election of \<open>n\<close> with its answers from the transport.  A node that cannot save its own
  vote asks nobody.\<close>

definition run_election ::
    "(string \<Rightarrow> VoteRequest \<Rightarrow> 'w \<Rightarrow> VoteResponse res \<times> 'w) \<Rightarrow> string list \<Rightarrow> 'w \<Rightarrow> ('s, 'd) Node \<Rightarrow>
     ('s, 'd) Node \<times> 'w" where
  "run_election call order w n =
     (case election_begin n of
        (req, n1) \<Rightarrow>
          (case persist n1 of
             (Inl _, _) \<Rightarrow> (startElection [] n, w)
           | (Inr _, _) \<Rightarrow>
               (case request_votes call req order w of (resps, w1) \<Rightarrow> (startElection resps n, w1))))"

section \<open>What a voter answers\<close>

definition open_to :: "VoteRequest \<Rightarrow> ('s, 'd) Node \<Rightarrow> bool" where
  "open_to req m \<longleftrightarrow> nterm m < vqTerm req \<or>
     nterm m = vqTerm req \<and> (votedFor m = None \<or> votedFor m = Some (vqCandidateID req))"

lemma becomeFollower_pos [simp]: "log_pos (becomeFollower t l n) = log_pos n"
  by (simp add: log_pos_def becomeFollower_def lastLogTerm_def lastLogIndex_def)

lemma decide_vote_open:
  assumes "open_to req m"
  shows "fst (decide_vote req m) =
    (\<lparr>vrTerm = vqTerm req, vrVoteGranted = log_pos m \<le> asked_pos req\<rparr>, log_pos m \<le> asked_pos req)"
proof -
  let ?n1 = "if vqTerm req > nterm m then becomeFollower (vqTerm req) None m else m"
  have n1: "nterm ?n1 = vqTerm req" "votedFor ?n1 = None \<or> votedFor ?n1 = Some (vqCandidateID req)"
    using assms by (auto simp: open_to_def becomeFollower_def)
  have "log_pos ?n1 = log_pos m" by simp
  then have "(vqLastLogTerm req > lastLogTerm ?n1 \<or> vqLastLogTerm req = lastLogTerm ?n1 \<and> vqLastLogIndex req \<ge> lastLogIndex ?n1)
      \<longleftrightarrow> log_pos m \<le> asked_pos req"
    by (auto simp: log_pos_def asked_pos_def less_eq_LogPos_def)
  moreover have "\<not> vqTerm req < nterm m" using assms by (auto simp: open_to_def)
  ultimately show ?thesis using n1 unfolding decide_vote_def Let_def by (auto simp: resetElectionTimer_def)
qed

lemma HandleRequestVote_open:
  assumes "open_to req m" "saves (raftStore m)"
  shows "fst (HandleRequestVote req m) = \<lparr>vrTerm = vqTerm req, vrVoteGranted = log_pos m \<le> asked_pos req\<rparr>"
proof -
  obtain n1 where d: "decide_vote req m =
      ((\<lparr>vrTerm = vqTerm req, vrVoteGranted = log_pos m \<le> asked_pos req\<rparr>, log_pos m \<le> asked_pos req), n1)"
    using decide_vote_open [OF assms(1)] by (metis prod.collapse)
  have "raftStore (snd (decide_vote req m)) = raftStore m"
    by (auto simp: decide_vote_def Let_def becomeFollower_def resetElectionTimer_def)
  then have "fst (persist n1) = Inr ()" using persist_saves [of n1] assms(2) d by simp
  then obtain n2 where "persist n1 = (Inr (), n2)" by (metis prod.collapse)
  then show ?thesis by (simp add: HandleRequestVote_def d)
qed

section \<open>Counting\<close>

lemma request_votes_mem:
  assumes "distinct ps" "\<And>p. p \<in> set ps \<Longrightarrow> \<exists>m. net p = Some m \<and> open_to req m \<and> saves (raftStore m)"
  shows "fst (request_votes mem_RequestVote req ps net) =
    map (\<lambda>p. \<lparr>vrTerm = vqTerm req, vrVoteGranted = log_pos (the (net p)) \<le> asked_pos req\<rparr>) ps"
  using assms
proof (induction ps arbitrary: net)
  case (Cons p ps)
  obtain m where m: "net p = Some m" "open_to req m" "saves (raftStore m)" using Cons.prems(2) [of p] by auto
  let ?net = "net(p \<mapsto> snd (HandleRequestVote req m))"
  have call: "mem_RequestVote p req net = (Inr (fst (HandleRequestVote req m)), ?net)"
    using m(1) by (simp add: mem_RequestVote_def dispatch_def mem_handler_def Register_def split: prod.split)
  have rest: "?net q = net q" if "q \<in> set ps" for q using that Cons.prems(1) by auto
  then have "fst (request_votes mem_RequestVote req ps ?net) =
      map (\<lambda>p. \<lparr>vrTerm = vqTerm req, vrVoteGranted = log_pos (the (?net p)) \<le> asked_pos req\<rparr>) ps"
    using Cons.prems by (intro Cons.IH) auto
  then show ?case using m HandleRequestVote_open [OF m(2,3)] rest by (auto simp: call split: prod.split)
qed simp

lemma tally_counts:
  assumes "\<And>r. r \<in> set resps \<Longrightarrow> vrTerm r \<le> nterm n" "votes < quorum \<or> resps = []"
  shows "\<exists>v. tally quorum resps votes n = (Some v, n) \<and> (quorum \<le> v \<longleftrightarrow> quorum \<le> votes + granted resps)"
  using assms
proof (induction resps arbitrary: votes)
  case (Cons r rs)
  let ?v = "if vrVoteGranted r then votes + 1 else votes"
  have g: "votes + granted (r # rs) = ?v + granted rs" by (simp add: granted_def)
  have r: "\<not> nterm n < vrTerm r" using Cons.prems(1) [of r] by simp
  show ?case
  proof (cases "quorum \<le> ?v")
    case True
    then show ?thesis using r g by (auto simp: Let_def)
  next
    case False
    then have "\<exists>v. tally quorum rs ?v n = (Some v, n) \<and> (quorum \<le> v \<longleftrightarrow> quorum \<le> ?v + granted rs)"
      using Cons.prems(1) by (intro Cons.IH) auto
    then show ?thesis using r False g by (auto simp: Let_def)
  qed
qed (simp add: granted_def)

lemma startElection_outcome:
  assumes "saves (raftStore n)" "\<And>r. r \<in> set resps \<Longrightarrow> vrTerm r \<le> nterm n + 1" "length resps \<le> length (peers n)"
  shows "role (startElection resps n) = RoleLeader \<longleftrightarrow> majority (peers n) \<le> 1 + granted resps"
proof -
  let ?c = "becomeCandidate n"
  have c: "raftStore ?c = raftStore n" "nterm ?c = nterm n + 1" "peers ?c = peers n" "role ?c = RoleCandidate"
    by (simp_all add: becomeCandidate_def)
  obtain n2 where p: "persist ?c = (Inr (), n2)" using persist_saves [of ?c] assms(1) c(1) by (metis prod.collapse)
  have n2: "nterm n2 = nterm n + 1" "role n2 = RoleCandidate"
    using persist_keeps [of ?c] p c by (simp_all add: prod_eq_iff)
  have "1 < majority (peers n) \<or> resps = []" using assms(3) by (cases "peers n") (auto simp: majority_def)
  then obtain v where t: "tally (majority (peers n)) resps 1 n2 = (Some v, n2)"
    "majority (peers n) \<le> v \<longleftrightarrow> majority (peers n) \<le> 1 + granted resps"
    using tally_counts [of resps n2 1 "majority (peers n)"] assms(2) n2(1) by auto
  show ?thesis
    using t n2 by (simp add: startElection_def election_begin_def Let_def p c election_finish_def becomeLeader_def becomeFollower_def)
qed

lemma run_election_outcome:
  assumes "mset order = mset (peers n)" "distinct (peers n)" "saves (raftStore n)"
    and "\<And>p. p \<in> set (peers n) \<Longrightarrow> \<exists>m. net p = Some m \<and> nterm m \<le> nterm n \<and> saves (raftStore m)"
  shows "role (fst (run_election mem_RequestVote order net n)) = RoleLeader \<longleftrightarrow>
    majority (peers n) \<le> 1 + length (filter (\<lambda>p. log_pos (the (net p)) \<le> log_pos n) (peers n))"
proof -
  let ?c = "becomeCandidate n" and ?req = "fst (election_begin n)"
  have req: "vqTerm ?req = nterm n + 1" "asked_pos ?req = log_pos n"
    by (simp_all add: election_begin_def Let_def becomeCandidate_def asked_pos_def log_pos_def lastLogTerm_def lastLogIndex_def)
  obtain n2 where p: "persist ?c = (Inr (), n2)"
    using persist_saves [of ?c] assms(3) by (metis becomeCandidate_def Node.select_convs Node.surjective Node.update_convs prod.collapse)
  have s: "set order = set (peers n)" "distinct order" "length order = length (peers n)"
    using assms(1,2) mset_eq_setD mset_eq_imp_distinct_iff mset_eq_length by metis+
  let ?resps = "map (\<lambda>p. \<lparr>vrTerm = vqTerm ?req, vrVoteGranted = log_pos (the (net p)) \<le> asked_pos ?req\<rparr>) order"
  have "fst (request_votes mem_RequestVote ?req order net) = ?resps"
    using s assms(4) req(1) by (intro request_votes_mem) (fastforce simp: open_to_def)+
  then obtain w where "request_votes mem_RequestVote ?req order net = (?resps, w)" by (metis prod.collapse)
  moreover have "election_begin n = (?req, ?c)" by (simp add: election_begin_def Let_def)
  ultimately have "fst (run_election mem_RequestVote order net n) = startElection ?resps n"
    unfolding run_election_def by (metis (no_types, lifting) case_prod_conv fst_conv old.sum.simps(6) p)
  moreover have "granted ?resps = size (filter_mset (\<lambda>p. log_pos (the (net p)) \<le> log_pos n) (mset order))"
    by (simp add: granted_def filter_map comp_def req(2) flip: mset_filter)
  then have "granted ?resps = length (filter (\<lambda>p. log_pos (the (net p)) \<le> log_pos n) (peers n))"
    by (simp add: assms(1) flip: mset_filter)
  moreover have "role (startElection ?resps n) = RoleLeader \<longleftrightarrow> majority (peers n) \<le> 1 + granted ?resps"
    by (rule startElection_outcome [OF assms(3)]) (use s(3) req(1) in auto)
  ultimately show ?thesis by metis
qed

end
