(* ===== verification/RaftTheorems.thy ===== *)
theory RaftTheorems
  imports RaftCluster RaftPersist Elections Engines
begin

text \<open>
  The properties of the raft layer: elections, votes across restarts, log agreement, commit and
  apply, and the traces on which the protocol's promises fail.
\<close>

section \<open>Elections\<close>






text \<open>C12: Without that condition the code elects two leaders in one term: an election that ends
  after its node has moved on to a newer term and voted there clears the vote, and the node
  votes again.\<close>

theorem two_leaders:
  "let a0 = NewNode ''a'' [''b'', ''c''] eng st d;
       b0 = NewNode ''b'' [''a'', ''c''] eng st d;
       c0 = NewNode ''c'' [''a'', ''b''] eng st d;
       (reqA, a1) = election_begin a0;
       b1 = snd (HandleRequestVote reqA b0);
       c1 = snd (HandleRequestVote reqA c0);
       (reqB, b2) = election_begin b1;
       (voteB, a2) = HandleRequestVote reqB a1;
       b3 = election_finish (the (fst (tally (majority (peers b2)) [voteB] 1 b2))) (majority (peers b2)) reqB b2;
       a3 = election_finish (the (fst (tally (majority (peers a2)) [] 1 a2))) (majority (peers a2)) reqA a2;
       (reqC, c2) = election_begin c1;
       (voteC, a4) = HandleRequestVote reqC a3;
       c3 = election_finish (the (fst (tally (majority (peers c2)) [voteC] 1 c2))) (majority (peers c2)) reqC c2
   in role b3 = RoleLeader \<and> role c3 = RoleLeader \<and> nterm b3 = 2 \<and> nterm c3 = 2"
  by (simp add: NewNode_def election_begin_def becomeCandidate_def HandleRequestVote_def decide_vote_def Let_def
      becomeFollower_def lastLogIndex_def lastLogTerm_def resetElectionTimer_def persist_def election_finish_def
      majority_def becomeLeader_def)





text \<open>C14: A node that comes out of an election as leader was granted a majority, counting its own
  vote, and before anyone heard of its candidacy its new term and its own vote were in the
  state file, from which a restart reads them.\<close>

theorem elected_majority_durable:
  assumes "raftStore n = Some NewFileRaftStore" "file_good (rdisk n)" "role (startElection resps n) = RoleLeader"
    and "state_ok (durable_part (startElection resps n))"
  shows "majority (peers n) \<le> 1 + granted resps \<and>
    file_Load (rdisk (startElection resps n)) = Inr (durable_part (startElection resps n)) \<and>
    nterm (startElection resps n) = nterm n + 1 \<and> votedFor (startElection resps n) = Some (nid n)"
  using filed.elected_durable [OF assms] startElection_leader [OF assms(3)] by (auto simp: NewFileRaftStore_def)

text \<open>A disk without failures, and a fresh node over it.\<close>

definition good_disk :: stateDisk where
  "good_disk = \<lparr>sdFile = None, sdReadErr = None, sdIoAt = (\<lambda>_. None), sdIoCnt = 0, sdNonceAt = (\<lambda>_. Inr []), sdNonceCnt = 0\<rparr>"

definition fresh_node :: "string \<Rightarrow> string list \<Rightarrow> (memstore, stateDisk) Node" where
  "fresh_node i ps = (NewNode i ps mem_engine NewMemStore good_disk)\<lparr>raftStore := Some NewFileRaftStore\<rparr>"

lemma good_disk_saves: "\<exists>d'. file_Save st (good_disk\<lparr>sdFile := f, sdIoCnt := k\<rparr>) = (Inr (), d') \<and>
    (\<exists>k'. d' = good_disk\<lparr>sdFile := Some (marshal_state st), sdIoCnt := k'\<rparr>)"
  by (simp add: file_Save_def replace_file_def and_then_def sd_io_def good_disk_def)

lemma persist_good_disk:
  assumes "raftStore n = Some NewFileRaftStore" "rdisk n = good_disk\<lparr>sdFile := f, sdIoCnt := k\<rparr>" "dirty n"
  shows "\<exists>k'. persist n = (Inr (), n\<lparr>rdisk := good_disk\<lparr>sdFile := Some (marshal_state (durable_part n)), sdIoCnt := k'\<rparr>, dirty := False\<rparr>)"
  using assms good_disk_saves [of "durable_part n" k f] by (auto simp: persist_def NewFileRaftStore_def)

theorem elected_majority_durable_witness:
  "let n = fresh_node ''a'' [''b'', ''c'']; n' = startElection [\<lparr>vrTerm = 1, vrVoteGranted = True\<rparr>] n
   in role n' = RoleLeader \<and> file_Load (rdisk n') = Inr (durable_part n') \<and> nterm n' = 1 \<and> votedFor n' = Some ''a''"
proof -
  let ?n = "fresh_node ''a'' [''b'', ''c'']" and ?resps = "[\<lparr>vrTerm = 1, vrVoteGranted = True\<rparr>]"
  let ?c = "becomeCandidate ?n" and ?n' = "startElection ?resps ?n"
  have c: "raftStore ?c = Some NewFileRaftStore" "rdisk ?c = good_disk\<lparr>sdFile := None, sdIoCnt := 0\<rparr>" "dirty ?c"
      "nterm ?c = 1" "role ?c = RoleCandidate" "peers ?c = [''b'', ''c'']" "votedFor ?c = Some ''a''" "nlog ?c = []"
      "lastIncludedIndex ?c = 0" "lastIncludedTerm ?c = 0"
    by (simp_all add: fresh_node_def becomeCandidate_def NewNode_def good_disk_def)
  obtain k where p: "persist ?c = (Inr (), ?c\<lparr>rdisk := good_disk\<lparr>sdFile := Some (marshal_state (durable_part ?c)), sdIoCnt := k\<rparr>,
      dirty := False\<rparr>)" using persist_good_disk [OF c(1-3)] by blast
  have n': "?n' = becomeLeader (?c\<lparr>rdisk := good_disk\<lparr>sdFile := Some (marshal_state (durable_part ?c)), sdIoCnt := k\<rparr>,
      dirty := False\<rparr>)"
    unfolding startElection_def election_begin_def Let_def case_prod_conv p
    by (simp add: c election_finish_def majority_def)
  have ok: "state_ok (durable_part ?n')"
    unfolding n' by (simp add: durable_part_def becomeLeader_def c state_ok_def int_ok_def) code_simp
  have "raftStore ?n = Some NewFileRaftStore" "file_good (rdisk ?n)" "role ?n' = RoleLeader" "nterm ?n = 0" "nid ?n = ''a''"
    by (simp_all add: n' becomeLeader_def) (simp_all add: fresh_node_def NewNode_def good_disk_def file_good_def)
  with elected_majority_durable [OF this(1-3) ok] show ?thesis by (simp add: Let_def)
qed

text \<open>C15: A vote survives a crash.  A node that answered a vote request with yes and is then
  restarted on its disk, and handles any messages after that, gives its vote of that term to
  no other candidate.\<close>

theorem vote_survives_restart:
  assumes "raftStore n = Some NewFileRaftStore" "file_good (rdisk n)"
    and "dirty n \<or> file_Load (rdisk n) = Inr (durable_part n)"
    and "vrVoteGranted (fst (HandleRequestVote r1 n))" "state_ok (durable_part (snd (HandleRequestVote r1 n)))"
    and "rdisk n0 = rdisk (snd (HandleRequestVote r1 n))" "role n0 = RoleFollower"
    and "vqTerm r2 = vqTerm r1" "vqCandidateID r2 \<noteq> vqCandidateID r1"
  shows "\<not> vrVoteGranted (fst (HandleRequestVote r2 (fold handle ms (snd (SetRaftStore (Some NewFileRaftStore) n0)))))"
proof -
  have "rsLoad NewFileRaftStore = file_Load" by (simp add: NewFileRaftStore_def)
  then have "filed.clean n" using assms(1-3) by (auto simp: filed.clean_def)
  from filed.vote_once_restart [OF this assms(4-7) _ assms(8)] assms(9) show ?thesis by blast
qed

definition vote_for :: "string \<Rightarrow> VoteRequest" where
  "vote_for c = \<lparr>vqTerm = 1, vqCandidateID = c, vqLastLogIndex = 0, vqLastLogTerm = 0\<rparr>"

theorem vote_survives_restart_witness:
  "let n = fresh_node ''b'' [''a'', ''c'']; n0 = fresh_node ''b'' [''a'', ''c''];
       (resp, n1) = HandleRequestVote (vote_for ''a'') n;
       n2 = snd (SetRaftStore (Some NewFileRaftStore) (n0\<lparr>rdisk := rdisk n1\<rparr>))
   in vrVoteGranted resp \<and> \<not> vrVoteGranted (fst (HandleRequestVote (vote_for ''c'') n2))"
proof -
  let ?n = "fresh_node ''b'' [''a'', ''c'']" and ?v = "vote_for ''a''"
  define d where "d = snd (decide_vote ?v ?n)"
  have d: "decide_vote ?v ?n = ((\<lparr>vrTerm = 1, vrVoteGranted = True\<rparr>, True), d)" and dd:
      "raftStore d = Some NewFileRaftStore" "rdisk d = good_disk\<lparr>sdFile := None, sdIoCnt := 0\<rparr>" "dirty d"
      "nterm d = 1" "votedFor d = Some ''a''" "nlog d = []" "lastIncludedIndex d = 0" "lastIncludedTerm d = 0"
    by (simp_all add: d_def decide_vote_def vote_for_def fresh_node_def NewNode_def Let_def becomeFollower_def
        lastLogIndex_def lastLogTerm_def resetElectionTimer_def good_disk_def)
  obtain k where p: "persist d = (Inr (), d\<lparr>rdisk := good_disk\<lparr>sdFile := Some (marshal_state (durable_part d)), sdIoCnt := k\<rparr>,
      dirty := False\<rparr>)" (is "_ = (_, ?m)") using persist_good_disk [OF dd(1-3)] by blast
  have h: "HandleRequestVote ?v ?n = (\<lparr>vrTerm = 1, vrVoteGranted = True\<rparr>, ?m)"
    unfolding HandleRequestVote_def d case_prod_conv p by simp
  have ok: "state_ok (durable_part ?m)" by (simp add: durable_part_def dd state_ok_def int_ok_def) code_simp
  have n: "raftStore ?n = Some NewFileRaftStore" "file_good (rdisk ?n)" "file_Load (rdisk ?n) = Inr (durable_part ?n)"
      "role ?n = RoleFollower"
    by (simp_all add: fresh_node_def NewNode_def good_disk_def file_good_def file_Load_def sd_read_def zero_RaftState_def durable_part_def)
  have "\<not> vrVoteGranted (fst (HandleRequestVote (vote_for ''c'') (fold handle []
      (snd (SetRaftStore (Some NewFileRaftStore) (?n\<lparr>rdisk := rdisk ?m\<rparr>))))))"
    by (rule vote_survives_restart [OF n(1,2), of "vote_for ''a''"]) (use n h ok in \<open>simp_all add: vote_for_def\<close>)
  then show ?thesis by (simp add: Let_def h)
qed

section \<open>Logs\<close>


text \<open>A leader of term 2 with one entry, and a follower with a conflicting entry of term 1.\<close>

definition put_entry :: "int \<Rightarrow> string \<Rightarrow> Entry" where
  "put_entry t v = \<lparr>entTerm = t, entCmd = cmd_of OpPut ''k'' '''' v 0\<rparr>"

definition lead_a :: "(memstore, unit) Node" where
  "lead_a = (NewNode ''a'' [''b'', ''c''] mem_engine NewMemStore ())\<lparr>role := RoleLeader, nterm := 2, nlog := [put_entry 2 ''x'']\<rparr>"

definition follow_b :: "(memstore, unit) Node" where
  "follow_b = (NewNode ''b'' [''a'', ''c''] mem_engine NewMemStore ())\<lparr>nterm := 1, nlog := [put_entry 1 ''y'']\<rparr>"






section \<open>Commit\<close>

text \<open>C18: The commit rule.  The commit index never goes back; it moves only on a leader, only to
  an entry of the leader's current term, and only when the leader itself and the peers recorded
  to hold that index are together a majority.\<close>

theorem commit_rule:
  assumes "0 \<le> commitIndex n"
  shows "commitIndex n \<le> commitIndex (maybeCommit n) \<and>
    (commitIndex (maybeCommit n) \<noteq> commitIndex n \<longrightarrow> role n = RoleLeader \<and>
       (\<exists>e. entryAt n (commitIndex (maybeCommit n)) = Some e \<and> entTerm e = nterm n) \<and>
       majority (peers n) \<le> length (filter (\<lambda>i. commitIndex (maybeCommit n) \<le> i) (match_list n)))"
  using maybeCommit_rule [OF assms] by blast

definition held_by_b :: replicationState where
  "held_by_b = \<lparr>nextIndex = (\<lambda>_. 2), matchIndex = (\<lambda>p. if p = ''b'' then 1 else 0), inFlight = (\<lambda>_. False), backoff = (\<lambda>_. 0)\<rparr>"

lemma lead_commits: "commitIndex (maybeCommit (lead_a\<lparr>repl := Some held_by_b\<rparr>)) = 1"
  by (simp add: maybeCommit_def lead_a_def NewNode_def Let_def replState_def repl_of_def match_list_def held_by_b_def
      lastLogIndex_def majority_def entryAt_eq put_entry_def)

theorem commit_rule_witness:
  "commitIndex (maybeCommit (lead_a\<lparr>repl := Some held_by_b\<rparr>)) = 1 \<and>
   (\<exists>e. entryAt (lead_a\<lparr>repl := Some held_by_b\<rparr>) 1 = Some e \<and> entTerm e = 2)"
proof -
  let ?n = "lead_a\<lparr>repl := Some held_by_b\<rparr>"
  have "commitIndex ?n = 0" "nterm ?n = 2" by (simp_all add: lead_a_def NewNode_def)
  with commit_rule [of ?n] lead_commits show ?thesis by simp
qed

text \<open>C19: Commit makes progress.  An index that a majority is recorded to hold is committed at
  once, when the entries from there on are of the leader's current term.\<close>

theorem commit_progress:
  assumes "role n = RoleLeader" "majority (peers n) \<le> length (filter (\<lambda>k. i \<le> k) (match_list n))"
    and "\<And>k e. i \<le> k \<Longrightarrow> entryAt n k = Some e \<Longrightarrow> entTerm e = nterm n"
    and "\<And>p. p \<in> set (peers n) \<Longrightarrow> matchIndex (repl_of n) p \<le> lastLogIndex n" "lastIncludedIndex n < i"
  shows "i \<le> commitIndex (maybeCommit n)"
  using maybeCommit_progress [OF assms] by simp

theorem commit_progress_witness: "1 \<le> commitIndex (maybeCommit (lead_a\<lparr>repl := Some held_by_b\<rparr>))"
proof -
  define n where "n = lead_a\<lparr>repl := Some held_by_b\<rparr>"
  note d = n_def lead_a_def NewNode_def lastLogIndex_def
  have n: "role n = RoleLeader" "peers n = [''b'', ''c'']" "lastIncludedIndex n = 0" "lastLogIndex n = 1"
    by (simp_all add: d)
  have m: "match_list n = [1, 1, 0]" and r: "matchIndex (repl_of n) p \<le> 1" for p
    by (simp_all add: match_list_def repl_of_def held_by_b_def d)
  have e: "entTerm e = nterm n" if "entryAt n k = Some e" for k e
    using that by (auto simp: entryAt_eq put_entry_def d split: if_splits)
  have "1 \<le> commitIndex (maybeCommit n)"
    by (rule commit_progress) (use n m r e in \<open>simp_all add: majority_def\<close>)
  then show ?thesis by (simp add: n_def)
qed

section \<open>Apply\<close>

text \<open>C20: The apply loop, undisturbed, runs the commands of the committed entries after
  \<open>lastApplied\<close> on the store, in log order and each once, as many as it has iterations for.\<close>

theorem apply_refines_log:
  assumes "apply_ok n" "\<not> stopped n"
  shows "store (applyLoop ts n) = run_cmds (engine n) ts (pending n) (store n) \<and>
    lastApplied (applyLoop ts n) = min (commitIndex n) (lastApplied n + int (length ts))"
  using applyLoop_runs [OF assms] .

theorem apply_refines_log_witness:
  "store (applyLoop [7, 8] (lead_a\<lparr>commitIndex := 1\<rparr>)) = mem_Put ''k'' ''x'' NewMemStore \<and>
   lastApplied (applyLoop [7, 8] (lead_a\<lparr>commitIndex := 1\<rparr>)) = 1"
proof -
  let ?n = "lead_a\<lparr>commitIndex := 1\<rparr>"
  have n: "apply_ok ?n" "\<not> stopped ?n" "commitIndex ?n = 1" "lastApplied ?n = 0" "engine ?n = mem_engine" "store ?n = NewMemStore"
      "pending ?n = [cmd_of OpPut ''k'' '''' ''x'' 0]"
    by (simp_all add: apply_ok_def lead_a_def NewNode_def lastLogIndex_def pending_def put_entry_def)
  from apply_refines_log [OF n(1,2), of "[7, 8]"] show ?thesis
    by (simp add: n run_cmd_def cmd_of_def mem_engine_def)
qed


section \<open>The state file\<close>



section \<open>Where the promises end\<close>

text \<open>A request the leader gave up on and repeated can still arrive: the older, shorter one
  removes the entry acknowledged by the newer one from the follower's log.\<close>

theorem late_append_truncates:
  "let req = \<lparr>aqTerm = 2, aqLeaderID = ''a'', aqPrevLogIndex = 0, aqPrevLogTerm = 0,
              aqEntries = [put_entry 2 ''x'', put_entry 2 ''y''], aqLeaderCommit = 0\<rparr>;
       late = req\<lparr>aqEntries := [put_entry 2 ''x'']\<rparr>;
       (r1, n1) = HandleAppendEntries req follow_b;
       (r2, n2) = HandleAppendEntries late n1
   in arSuccess r1 \<and> lastLogIndex n1 = 2 \<and> arSuccess r2 \<and> lastLogIndex n2 = 1"
  by (simp add: HandleAppendEntries_def accept_entries_def follow_b_def NewNode_def follow_def becomeFollower_def
        resetElectionTimer_def checkPrevLog_def mergeEntries_def lastLogIndex_def logTermAt_def entryAt_eq put_entry_def
        persist_def Let_def)

text \<open>Two replicas that apply the same log at different times hold different values: whether
  the key has expired when \<open>Incr\<close> is applied depends on the replica's clock.\<close>

theorem replicas_diverge:
  "let cs = [cmd_of OpPut ''k'' '''' ''5'' 0, cmd_of OpExpire ''k'' '''' '''' 5, cmd_of OpIncr ''k'' '''' '''' 0]
   in mem_live (run_cmds mem_engine [1, 1, 1] cs NewMemStore) 10 ''k'' = Some ''6'' \<and>
      mem_live (run_cmds mem_engine [1, 1, 10] cs NewMemStore) 10 ''k'' = Some ''1''"
  by (simp add: run_cmd_def cmd_of_def mem_engine_def mem_Put_def mem_Expire_def mem_Incr_def mem_live_def NewMemStore_def
      entryExpired_def ParseInt_def parse_nat_def is_digit_def digit_value_def FormatInt_def format_nat.simps digit_char_def
      char_of_def bit_0 Let_def MaxInt64_def)

text \<open>A caller of \<open>Incr\<close> waits on an index, not on its entry: when a new leader overwrites the
  entry, the caller is woken by the other command, and the conversion of its result panics.\<close>

theorem waiter_gets_other_result:
  "let (w, n1) = node_Incr_begin 0 ''k'' (StartApply (lead_a\<lparr>nlog := []\<rparr>));
       req = \<lparr>aqTerm = 3, aqLeaderID = ''c'', aqPrevLogIndex = 0, aqPrevLogTerm = 0,
              aqEntries = [put_entry 3 ''z''], aqLeaderCommit = 1\<rparr>;
       n2 = snd (HandleAppendEntries req n1);
       n3 = applyLoop [0] n2
   in w = Inr (1, [''b'', ''c'']) \<and> Incr_result (proposeWait_end Woken 1 n3) = Inl (Panic ''interface conversion'')"
  by (simp add: node_Incr_begin_def proposeWait_begin_def StartApply_def lead_a_def NewNode_def append_entry_def
      newApplyTracker_def WaitIndex_def persist_def HandleAppendEntries_def accept_entries_def follow_def becomeFollower_def
      resetElectionTimer_def checkPrevLog_def mergeEntries_def lastLogIndex_def logTermAt_def entryAt_eq put_entry_def
      cmd_of_def applyLoop_def apply_iter_def apply_pick_def apply_run_def applyCmd_def run_cmd_def mem_engine_def err_of_def
      note_applied_def tr_applied_def proposeWait_end_def Result_def Incr_result_def Let_def)







text \<open>A node without peers applies a proposal at once but does not count it as applied, so a running
  apply loop applies it a second time.\<close>

lemma single_node_applies_twice:
  assumes "role n = RoleLeader" "peers n = []" "apply_ok n" "lastApplied n = lastLogIndex n" "\<not> stopped n"
  shows "store (applyLoop [t] (snd (propose now cmd n))) =
    snd (run_cmd (engine n) t cmd (snd (run_cmd (engine n) now cmd (store n))))"
proof -
  let ?n' = "snd (propose now cmd n)"
  have n': "?n' = (append_entry cmd n)\<lparr>commitIndex := lastLogIndex n + 1, store := snd (run_cmd (engine n) now cmd (store n))\<rparr>"
    using assms(1,2)
    by (simp add: propose_def Let_def append_entry_def applyCmd_def lastLogIndex_def split: prod.split)
  have ok: "apply_ok ?n'" "\<not> stopped ?n'" and e: "engine ?n' = engine n"
    using assms(3-5) by (simp_all add: n' apply_ok_def append_entry_def lastLogIndex_def)
  have "pending ?n' = [cmd]"
    using assms(3,4) by (simp add: n' pending_def append_entry_def apply_ok_def lastLogIndex_def)
  with applyLoop_runs [OF ok, of "[t]"] e show ?thesis by (simp add: n')
qed

end
