(* ===== verification/ServiceTheorems.thy ===== *)
theory ServiceTheorems
  imports ServerRun RecordLimit Oracles Client StorageTheorems RaftTheorems
begin

text \<open>
  The properties of the service around the stores and the raft node: the HTTP API, the HTTP
  transport, the start of the process, the type assertions of the proposals, the history checker
  and the chaos harness.
\<close>

section \<open>The HTTP API\<close>

text \<open>C5: a \<open>PUT\<close> answered with 200 survives a power loss: a server opened on what was synced answers
  the \<open>GET\<close> of that key with exactly the body sent.\<close>

theorem http_put_survives_crash:
  assumes "svEngine sv = disk_engine" "disk_inv D (svStore sv)"
    and "rqMethod r = ''PUT''" "rqPath r = [''kv'', k]" "keyPattern k" "length k \<le> maxRecordField"
    and "rqBody r = Inr b" "length b \<le> maxBodyBytes" "valid_utf8 b" "xStatus (serve ck r sv) = 200"
    and "unreached D (ckNow ck)" "\<And>i. unreached D (clk i)" "unreached D (ckNow ck')"
    and "rqMethod g = ''GET''" "rqPath g = [''kv'', k]"
  shows "\<exists>s'. openDiskStore (dcipher (svStore sv)) clk (power_loss (dworld (svStore (xServer (serve ck r sv))))) = (Inr s', dworld s') \<and>
    (let x = serve ck' g (NewServer disk_engine s' sz ex t) in xStatus x = 200 \<and> xBody x = b)"
  by (rule http_put_crash [OF assms])

definition a_request :: "string \<Rightarrow> string list \<Rightarrow> string \<Rightarrow> http_req" where
  "a_request m p b = \<lparr>rqMethod = m, rqPath = p, rqKey = '''', rqURI = ''/kv/k'', rqQuery = (\<lambda>_. ''''), rqBody = Inr b\<rparr>"

definition noon :: clocks where
  "noon = \<lparr>ckNow = 12, ckElapsed = 1, ckSecondsText = (\<lambda>_. ''0''), ckSecondsInt = id\<rparr>"

definition fresh_server :: "DiskStore Server" where
  "fresh_server = NewServer disk_engine (fresh_store None) None None 0"

theorem http_put_survives_crash_witness:
  "\<exists>s'. openDiskStore None (\<lambda>_. 20) (power_loss (dworld (svStore (xServer
        (serve noon (a_request ''PUT'' [''kv'', ''k''] ''v'') fresh_server))))) = (Inr s', dworld s') \<and>
    (let x = serve noon (a_request ''GET'' [''kv'', ''k''] '''') (NewServer disk_engine s' None None 21)
     in xStatus x = 200 \<and> xBody x = ''v'')"
proof -
  let ?r = "a_request ''PUT'' [''kv'', ''k''] ''v''"
  have get: "engGet (svEngine fresh_server) (ckNow noon) ''k'' (svStore fresh_server) = (Inl ErrNotFound, fresh_store None)"
    by (simp add: fresh_server_def NewServer_def disk_engine_def disk_Get_def mem_Get_def fresh_store_def NewMemStore_def)
  obtain s' where "disk_Put (\<lambda>_. 12) ''k'' ''v'' (fresh_store None) = (Inr (), s')"
    using disk_Put_quiet [of "fresh_store None" "\<lambda>_. 12" "''k''" "''v''"] by (auto simp: fresh_store_def)
  then have put: "engPut (svEngine fresh_server) (ckNow noon) ''k'' ''v'' (fresh_store None) = (Inr (), s')"
    by (simp add: fresh_server_def NewServer_def disk_engine_def noon_def)
  have "xStatus (serve noon ?r fresh_server) = 200"
    by (simp add: serve_put [OF _ _ _ _ _ get _ put] a_request_def keyPattern_def key_char_def maxBodyBytes_def is_panic_def)
  then show ?thesis
    using http_put_survives_crash [of fresh_server "{}" "a_request ''PUT'' [''kv'', ''k''] ''v''" "''k''" "''v''" noon
        "\<lambda>_. 20" noon "a_request ''GET'' [''kv'', ''k''] ''''" None None 21] fresh_store_inv
    by (simp add: fresh_server_def NewServer_def a_request_def keyPattern_def key_char_def maxRecordField_def maxBodyBytes_def
        valid_utf8_ascii byte_of_def unreached_def fresh_store_def)
qed

text \<open>C21: a compare-and-swap can lock the store up.  The body is bounded before its JSON is decoded,
  and every byte that is not UTF-8 decodes to three bytes.  A swap to a third of a megabyte of
  such bytes is answered with 200 and logged with a field the log's reader refuses, so the
  store on that log does not open again.\<close>

theorem oversized_swap_locks_up:
  assumes "svEngine sv = disk_engine" "disk_inv D (svStore sv)" "dcipher (svStore sv) = None" "\<not> dclosed (svStore sv)"
    and "fmlookup (mdata (dmem (svStore sv))) k = Some e" "keyPattern k" "field_ok k" "field_ok (eValue e)" "unreached D (ckNow ck)"
    and "rqMethod r = ''PUT''" "rqPath r = [''kv'', k, ''cas'']" "rqBody r = Inr (junk_cas (eValue e) n)"
    and "length (junk_cas (eValue e) n) \<le> maxBodyBytes" "maxRecordField < 3 * n"
  shows "xStatus (serve ck r sv) = 200 \<and>
    (\<exists>err. fst (openDiskStore None clk (power_loss (dworld (svStore (xServer (serve ck r sv)))))) = Inl err)"
  by (rule junk_swap [OF assms])

theorem oversized_swap_locks_up_witness:
  "\<exists>s. disk_Put (\<lambda>_. 12) ''k'' ''v'' (fresh_store None) = (Inr (), s) \<and>
     (let x = serve noon (a_request ''PUT'' [''kv'', ''k'', ''cas''] (junk_cas ''v'' 349526)) (NewServer disk_engine s None None 0)
      in xStatus x = 200 \<and> (\<exists>err. fst (openDiskStore None (\<lambda>_. 20) (power_loss (dworld (svStore (xServer x))))) = Inl err))"
proof -
  let ?e = "\<lparr>eValue = ''v'', eExp = 0\<rparr> :: entry"
  obtain s where s: "disk_Put (\<lambda>_. 12) ''k'' ''v'' (fresh_store None) = (Inr (), s)"
    using disk_Put_quiet [of "fresh_store None" "\<lambda>_. 12" "''k''" "''v''"] by (auto simp: fresh_store_def)
  have k: "keyPattern ''k''" "length ''k'' \<le> maxRecordField" "field_ok ''k''" "field_ok ''v''"
    by (simp_all add: keyPattern_def key_char_def maxRecordField_def field_ok_def)
  have "rec_good {} None (RecPut ''k'' ''v'')"
    using put_rec_good [OF k(1,2)] by (simp add: maxBodyBytes_def valid_utf8_ascii byte_of_def)
  then have i: "disk_inv {} s" "fmlookup (mdata (dmem s)) ''k'' = Some ?e" "dcipher s = None"
    using disk_Put_inv [OF fresh_store_inv [of None "{}"] s] by (simp_all add: fresh_store_def)
  have open': "\<not> dclosed s"
    using s by (auto simp: disk_Put_def submit_batched drop_result_def fresh_store_def new_req_def opPut_def writeBatch_def
        and_then_def on_wal_def split: prod.splits sum.splits)
  have "length (junk_cas ''v'' 0) \<le> 100" by code_simp
  then have "length (junk_cas ''v'' 349526) \<le> maxBodyBytes" using junk_cas_length [of "''v''" 349526] by (simp add: maxBodyBytes_def)
  then show ?thesis
    using oversized_swap_locks_up [of "NewServer disk_engine s None None 0" "{}" "''k''" ?e noon
        "a_request ''PUT'' [''kv'', ''k'', ''cas''] (junk_cas ''v'' 349526)" 349526 "\<lambda>_. 20"] s i k open'
    by (intro exI [of _ s]) (simp add: NewServer_def a_request_def unreached_def maxRecordField_def Let_def)
qed

text \<open>C23: behind a node that is not the leader, every write is answered with a redirect to the
  leader it knows, at the same path and query, or with 503 when it knows none; the node's log
  does not change.\<close>

theorem follower_redirects:
  fixes n :: "('s, 'd) Node"
  assumes "write_request k r" "role n \<noteq> RoleLeader" "is_panic (fst (engGet (engine n) (ckNow ck) k (store n))) = None"
    and "svEngine sv = node_engine wait" "svStore sv = n"
  shows "(if Leader n = '''' then xStatus (serve ck r sv) = 503
      else xStatus (serve ck r sv) = 307 \<and> fmlookup (xHeader (serve ck r sv)) ''Location'' = Some (Leader n @ rqURI r)) \<and>
    nlog (svStore (xServer (serve ck r sv))) = nlog n"
  using follower_sends_away [OF assms] by (simp add: sent_away_def)

definition follower_server :: "(memstore, stateDisk) Node Server" where
  "follower_server =
     NewServer (node_engine (\<lambda>_ _ n. (TimedOut, n))) ((fresh_node ''a'' [''http://b''])\<lparr>leaderID := Some ''http://b''\<rparr>) None None 0"

theorem follower_redirects_witness:
  "let x = serve noon (a_request ''PUT'' [''kv'', ''k''] ''v'') follower_server
   in xStatus x = 307 \<and> fmlookup (xHeader x) ''Location'' = Some ''http://b/kv/k''"
  using follower_redirects [of "''k''" "a_request ''PUT'' [''kv'', ''k''] ''v''" "svStore follower_server" noon follower_server
      "\<lambda>_ _ n. (TimedOut, n)"]
  by (simp add: follower_server_def NewServer_def write_request_def a_request_def keyPattern_def key_char_def maxBodyBytes_def
      fresh_node_def NewNode_def mem_engine_def mem_Get_def NewMemStore_def is_panic_def Leader_def)


section \<open>Raft behind the API\<close>




text \<open>C22: over a network that delivers every request to the peer it names, the HTTP transport
  has the effect and the answer of the in-memory transport on the request with every string made
  valid UTF-8.  A request in UTF-8 is delivered unchanged; a value that is not reaches the
  follower altered.\<close>

theorem http_transport_equiv:
  assumes "delivering c" "m peer = Some h" "int_ok (nterm h)" "vote_ints vq" "append_ints aq" "install_ints iq"
  shows "http_RequestVote c peer vq m = mem_RequestVote peer (coerce_vote vq) m \<and>
    http_AppendEntries c peer aq m = mem_AppendEntries peer (coerce_append aq) m \<and>
    http_InstallSnapshot c peer iq m = mem_InstallSnapshot peer (coerce_install iq) m"
  using delivering.http_vote [OF assms(1), where m = m, OF assms(2,4,3)] delivering.http_append [OF assms(1), where m = m, OF assms(2,5,3)]
    delivering.http_install [OF assms(1), where m = m, OF assms(2,6,3)] by blast

definition raw_append :: "string \<Rightarrow> AppendEntriesRequest" where
  "raw_append v = \<lparr>aqTerm = 1, aqLeaderID = ''a'', aqPrevLogIndex = 0, aqPrevLogTerm = 0,
     aqEntries = [put_entry 1 v], aqLeaderCommit = 0\<rparr>"

theorem http_transport_equiv_witness:
  "http_AppendEntries lan ''http://b'' (raw_append [CHR 0xFF]) [''http://b'' \<mapsto> fresh_node ''http://b'' []] =
   mem_AppendEntries ''http://b'' (raw_append replacement) [''http://b'' \<mapsto> fresh_node ''http://b'' []]"
proof -
  let ?n = "fresh_node ''http://b'' []"
  have d: "delivering (lan :: (memstore, stateDisk) MemTransport HttpClient)" by (rule lan_net.delivering_axioms)
  have "coerce_append (raw_append [CHR 0xFF]) = raw_append replacement" by code_simp
  moreover have "int_ok (nterm ?n)" "vote_ints zero_VoteRequest" "append_ints (raw_append [CHR 0xFF])" "install_ints zero_InstallSnapshotRequest"
    by (simp_all add: fresh_node_def NewNode_def int_ok_def vote_ints_def append_ints_def install_ints_def zero_VoteRequest_def
        zero_InstallSnapshotRequest_def raw_append_def put_entry_def)
  ultimately show ?thesis
    using http_transport_equiv [OF d, where m = "[''http://b'' \<mapsto> ?n]" and peer = "''http://b''" and h = ?n
        and vq = zero_VoteRequest and aq = "raw_append [CHR 0xFF]" and iq = zero_InstallSnapshotRequest] by simp
qed

section \<open>An example node\<close>

text \<open>A node that has applied the one \<open>Incr\<close> of its log.\<close>

definition incr_log :: RaftState where
  "incr_log = \<lparr>rsTerm = 1, rsVotedFor = None, rsLog = [\<lparr>entTerm = 1, entCmd = cmd_of OpIncr ''k'' '''' '''' 0\<rparr>],
     rsLastIncludedIndex = 0, rsLastIncludedTerm = 0\<rparr>"

definition incr_applied :: chaos_node where
  "incr_applied = (NewNode ''a'' [] disk_engine one_incr (good_disk\<lparr>sdFile := Some (marshal_state incr_log)\<rparr>))
     \<lparr>nterm := 1, nlog := rsLog incr_log, commitIndex := 1, lastApplied := 1\<rparr>"

lemma incr_applied_facts:
  "store incr_applied = one_incr" "rdisk incr_applied = good_disk\<lparr>sdFile := Some (marshal_state incr_log)\<rparr>"
  "lastIncludedIndex incr_applied = 0" "lastApplied incr_applied = 1" "apply_ok incr_applied" "nlog incr_applied = rsLog incr_log"
  "durable_part incr_applied = incr_log"
  by (simp_all add: incr_applied_def NewNode_def apply_ok_def lastLogIndex_def incr_log_def durable_part_def)

section \<open>The history checker\<close>

text \<open>C36: the checker reports nothing exactly when the versions each reader sees never go back and no
  read ends before the write of the version it returned begins.\<close>

theorem checker_exact:
  "Check ops = [] \<longleftrightarrow> (\<forall>r. sorted (map loSeq (filter (\<lambda>x. loKind x = Read \<and> loSeq x \<noteq> 0 \<and> loReader x = r) ops))) \<and>
     \<not> (\<exists>x w. x \<in> set ops \<and> loKind x = Read \<and> loSeq x \<noteq> 0 \<and> writes_of ops (loSeq x) = Some w \<and> early x w)"
  unfolding Check_iff seen_by_def counted_def by (auto simp: conj_assoc)

section \<open>The chaos harness\<close>









end
