(* ===== verification/Spec2Isabelle.thy ===== *)
theory Spec2Isabelle
  imports ServiceTheorems
begin

text \<open>
  \<^bold>\<open>A verification of the key/value store.\<close>

  The program is a key/value store in Go.  A \<open>DiskStore\<close> keeps its data in memory and on disk in
  a write-ahead log with snapshots, optionally encrypted.  A raft node replicates commands to
  such a store.  An HTTP API serves either of them, \<open>cmd/server\<close> puts a process together, and a
  chaos harness runs clusters of nodes in one process under injected faults.  The development
  models all of it; a file under \<open>src/\<close> corresponds to the theory or theories named below, and a
  definition carries the name of the Go function or type, prefixed where one name occurs in
  several packages (\<open>mem_Get\<close>, \<open>disk_Get\<close>, \<open>fake_Get\<close>, \<open>node_Get\<close>).

  \<^bold>\<open>Conventions.\<close>  Go strings and byte slices are \<open>string\<close>, \<open>int64\<close> and \<open>uint64\<close> are 64-bit words, \<open>int\<close>
  is \<open>int\<close> (indices and terms, which the code never brings near its limit).  Errors are values:
  \<open>'a res\<close> is \<open>kv_error + 'a\<close>, and a panic is the error \<open>Panic\<close>.  Stateful code passes its state
  explicitly.  Clock readings, random draws, nonces, the outcome of every I/O call, the iteration
  order of maps and the answers of the network are arguments.  A critical section under a mutex
  is one function; what may happen between two sections is a sequence of such functions, given
  as a list of events or as a step relation.

  \<^bold>\<open>Foundations.\<close>
  \<^item> \<open>KV_Prelude\<close>: types, big-endian bytes, the clock order, lemma collections.  \<open>Strconv\<close>, \<open>Json\<close>,
    \<open>Base64\<close>: the parts of the Go library the program's formats rest on, with their round trips.
    The JSON reader has fuel linear in the input, proved sufficient for everything the writer
    produces.

  \<^bold>\<open>Storage\<close> (pkg/storage).
  \<^item> \<open>Engine\<close> (engine.go): errors, commands, and the contract of an engine as the locales
    \<open>kv_engine\<close> and \<open>kv_scan\<close>, phrased over what is live at a time.  \<open>MemStore\<close> (memstore.go),
    \<open>FakeEngine\<close> and \<open>Glob\<close> (fake.go) and \<open>DiskStore\<close> interpret them; \<open>Engines\<close> has the three as
    the dictionaries the raft node and the API take.
  \<^item> \<open>Crypto\<close> (crypto.go): sealing over an AEAD whose laws (\<open>aead_ok\<close>) are a hypothesis.  \<open>Wal\<close> (wal.go
    up to line 410): records, append, sync, truncate, replay.  \<open>Snapshot\<close> and \<open>DiskStore\<close>
    (snapshot.go, batcher.go, the rest of wal.go): file formats, batching, compaction, opening,
    closing, the client operations.
  \<^item> \<open>Durability\<close>: acknowledged writes are synced under any failures, and on a disk without
    failures the invariant \<open>disk_inv\<close> of a running store, kept by every event, makes recovery exact.
    \<open>GroupCommit\<close>: the batching loop is equivalent to one request at a time.
  \<^item> \<open>StorageTheorems\<close>: the properties.

  \<^bold>\<open>Raft\<close> (pkg/raft).
  \<^item> \<open>RaftTypes\<close> (types.go, persist and SetRaftStore), \<open>RaftFollower\<close> (follower.go, node.go, the receiving
    side of snapshot.go), \<open>RaftApply\<close> (apply.go), \<open>RaftLeader\<close> (leader.go, commit.go, the sending side
    of snapshot.go), \<open>RaftElection\<close> and \<open>Elections\<close> (election.go), \<open>RaftPersist\<close> (the stores of
    persistence.go, behind the locale \<open>raft_store\<close>), \<open>Transport\<close> (transport.go, transport_mem.go),
    \<open>HttpTransport\<close> (transport_http.go, with the locale \<open>delivering\<close> for a network that delivers).
  \<^item> \<open>RaftCluster\<close>: clusters as a step relation with the votes granted and the elections won as
    history; election safety by an inductive invariant over the locale \<open>quorum_system\<close>.
  \<^item> \<open>RaftTheorems\<close>: elections, votes across restarts, log agreement, catching up, commit, apply, and
    the traces on which promises fail.

  \<^bold>\<open>Service.\<close>
  \<^item> \<open>Metrics\<close>, \<open>Api\<close> (pkg/api): counters, handlers, middleware, router.  \<open>ApiFacts\<close>: what a status
    code tells, over any engine of the contract.  \<open>NodeEngine\<close>: the raft node behind the API.
    \<open>ApiDisk\<close>: the API over the disk store.  \<open>RecordLimit\<close>: the bound on log records against the
    bound on request bodies.
  \<^item> \<open>SnapshotBridge\<close>, \<open>ServerMain\<close>, \<open>ServerRun\<close> (cmd/server), \<open>Logger\<close> (pkg/util), \<open>Client\<close> (pkg/client).
  \<^item> \<open>Faults\<close>, \<open>ChaosCluster\<close>, \<open>Oracles\<close> (pkg/chaos) and \<open>Linearizability\<close> (pkg/linearizability).
  \<^item> \<open>ServiceTheorems\<close> has the properties of these parts; the properties of a whole process, which
    span all of them, are below.

  \<^bold>\<open>What is shown.\<close>  Storage: a run of any events followed by a power loss recovers exactly the data
  in memory; no acknowledgement precedes its fsync; batching is invisible; logs and snapshots
  round trip; scans are complete; the matcher and \<open>Incr\<close> are exact.  Raft: at most one leader per
  term under the condition that candidates and leaders do not give up within a term; what
  decides an election; votes bind across restarts; followers agree with the leader's log and
  catch up; the commit rule and its progress; the apply loop runs the committed commands in order
  and once per process.  Service: statuses, redirects and types are right; the HTTP transport
  equals the in-memory one; a standalone process can be replaced by its successor unnoticed; a
  chaos run ends healed and its oracles are exact.  Negative results are theorems too: two leaders
  in one term after a late election end, commits counted from an earlier term, an acknowledged
  \<open>Put\<close> lost with its leader, an \<open>Incr\<close> applied twice after a restart or inside a compaction, a
  compare-and-swap after which the store does not open, and a cluster split by its peer list.

  \<^bold>\<open>Bounds and fuel.\<close>  Loops that end are total functions with their termination proof; the glob loop
  is a partial function with a proof that it always returns.  Loops that wait for events are folds
  over event lists of any length.  Catching up takes at most as many rounds as the index the leader
  starts from.  Recovery assumes that no deadline in play (\<open>D\<close>) is reached at the clock readings
  involved (\<open>unreached\<close>), that text is UTF-8, which the JSON snapshot needs, and that fields fit
  the log's record bound.

  \<^bold>\<open>Not modelled.\<close>  Goroutine scheduling inside one critical section, the Go memory model and data
  races.  Durations of sleeps and timeouts: a timer is an event that may come at any time, so
  \<open>resetTimer\<close> and the timeout constants have no definition.  Errors of the medium in the
  middle of reading a file of the store that could be opened.  The text of log and error messages, except where a handler or the logger writes it.
  TLS, sockets and the signal mechanism: what they deliver is an input.  The floating-point text of
  the metrics is a parameter.
\<close>

section \<open>The process\<close>




text \<open>C38: a restart applies the log again.  A node that crashed is started on its files with the data
  its store had when it crashed, and its apply loop, once it learns how far the log is
  committed, runs every command between the compaction base and what had been applied a second
  time on that data.\<close>

theorem restart_applies_again:
  assumes "disk_inv D (store n)" "dcipher (store n) = None" "rsLoad NewFileRaftStore (rdisk n) = Inr (durable_part n)"
    and "\<And>i. unreached D (clk i)" "0 \<le> lastIncludedIndex n" "apply_ok n"
  shows "\<exists>s'. openDiskStore None clk (power_loss (dworld (store n))) = (Inr s', dworld s') \<and>
    mdata (dmem s') = mdata (dmem (store n)) \<and> disk_inv D s' \<and>
    store (applyLoop ts ((start_node i ps NewFileRaftStore s' (rdisk n))\<lparr>commitIndex := lastApplied n\<rparr>)) =
      run_cmds disk_engine ts (map entCmd (take (nat (lastApplied n - lastIncludedIndex n)) (nlog n))) s'"
  by (rule restart_runs_again [OF assms])

text \<open>With an \<open>Incr\<close> in the log the value is 1 before the crash and 2 after the restart.\<close>

theorem restart_applies_again_witness:
  "\<exists>s'. openDiskStore None (\<lambda>_. 2) (power_loss (dworld one_incr)) = (Inr s', dworld s') \<and>
     mem_live (dmem one_incr) 2 ''k'' = Some ''1'' \<and>
     mem_live (dmem (store (applyLoop [3] ((start_node ''a'' [] NewFileRaftStore s' (rdisk incr_applied))\<lparr>commitIndex := 1\<rparr>)))) 3 ''k'' =
       Some ''2''"
proof -
  have ok: "state_ok incr_log"
    by (simp add: state_ok_def incr_log_def int_ok_def Entry_ok_def cmd_of_def valid_utf8_ascii byte_of_def)
  have "rsLoad NewFileRaftStore (rdisk incr_applied) = Inr (durable_part incr_applied)"
    unfolding incr_applied_facts
    by (simp add: NewFileRaftStore_def file_Load_def sd_read_def good_disk_def unmarshal_marshal_state [OF ok])
  with one_incr_inv obtain s' where s': "openDiskStore None (\<lambda>_. 2) (power_loss (dworld one_incr)) = (Inr s', dworld s')"
      "mdata (dmem s') = mdata (dmem one_incr)" "disk_inv {} s'" and
    run: "store (applyLoop [3] ((start_node ''a'' [] NewFileRaftStore s' (rdisk incr_applied))\<lparr>commitIndex := 1\<rparr>)) =
      run_cmds disk_engine [3] [cmd_of OpIncr ''k'' '''' '''' 0] s'"
    using restart_applies_again [of "{}" incr_applied "\<lambda>_. 2" "[3]" "''a''" "[]"]
    by (auto simp: incr_applied_facts one_incr_facts unreached_def incr_log_def)
  have "\<not> dclosed s'" using open_not_closed [OF s'(1)] .
  then have "dmem (run_cmds disk_engine [3] [cmd_of OpIncr ''k'' '''' '''' 0] s') = snd (mem_Incr 3 ''k'' (dmem s'))"
    using disk_Incr_quiet [of s' "\<lambda>_. 3" "''k''"] s'(3)
    by (simp add: run_cmd_def cmd_of_def disk_engine_def disk_inv_def case_prod_unfold)
  moreover have "mem_live (snd (mem_Incr 3 ''k'' (dmem s'))) 3 ''k'' = Some ''2''"
    using s'(2) by (simp add: mem_Incr_def mem_live_def one_incr_facts(3) entryExpired_def parse_1 MaxInt64_def format_2 Let_def)
  moreover have "mem_live (dmem one_incr) 2 ''k'' = Some ''1''" by (simp add: mem_live_def one_incr_facts(3) entryExpired_def)
  ultimately show ?thesis using s'(1) run by (intro exI [of _ s']) simp
qed




end
